(* ===== verification/Go_Prelude.thy ===== *)
theory Go_Prelude
  imports Complex_Main "HOL-Library.Word" "HOL-Library.Monad_Syntax" "HOL-Library.Sublist"
begin

section \<open>Shared vocabulary of the models\<close>

text \<open>
  What the component theories share: the Go values the code computes with and the
  generic lemmas the component proofs rest on.

  \<^item> A call that may panic at run time (division by zero, index out of range, negative
    slice length) returns an \<open>option\<close>; \<^term>\<open>None\<close> is the panic. Panics that the code
    raises or recovers itself carry their value and are modelled in \<open>Go_Errors\<close>.
  \<^item> \<open>time.Time\<close> and \<open>time.Duration\<close> are nanosecond counts of type \<^typ>\<open>int\<close>. Each
    reading of the clock is an argument of the definition that reads it.
  \<^item> A Go \<open>int\<close>, \<open>int64\<close> or \<open>time.Duration\<close> is an \<^typ>\<open>int\<close>; where a product can leave the
    64-bit range the wrap-around is written out with \<open>wrap64\<close>.
  \<^item> \<open>float64\<close> values are exact rationals: rounding is not modelled.
  \<^item> A Go string is a byte list, that is a \<^typ>\<open>string\<close>.
\<close>

named_theorems go_simps \<open>characteristic equations of the checked Go operations\<close>
named_theorems inv_intros \<open>preservation of the component invariants\<close>

type_synonym go_time = int
type_synonym duration = int
type_synonym float64 = rat

subsection \<open>Integers of 64 bits\<close>

definition wrap64 :: "int \<Rightarrow> int" where
  "wrap64 x = (x + 2 ^ 63) mod 2 ^ 64 - 2 ^ 63"

definition Millisecond :: duration where "Millisecond = 1000000"
definition Second :: duration where "Second = 1000000000"

text \<open>The conversion \<open>time.Duration(n) * unit\<close>, a 64-bit product.\<close>

definition duration_of :: "int \<Rightarrow> duration \<Rightarrow> duration" where
  "duration_of n u = wrap64 (n * u)"

subsection \<open>Checked operations: \<open>None\<close> is a run-time panic\<close>

text \<open>Go's integer division truncates towards zero.\<close>

definition trunc_div :: "int \<Rightarrow> int \<Rightarrow> int" where
  "trunc_div a b = sgn a * sgn b * (\<bar>a\<bar> div \<bar>b\<bar>)"

definition go_div :: "int \<Rightarrow> int \<Rightarrow> int option" where
  "go_div a b = (if b = 0 then None else Some (trunc_div a b))"

definition go_mod :: "int \<Rightarrow> int \<Rightarrow> int option" where
  "go_mod a b = (if b = 0 then None else Some (a - b * trunc_div a b))"

definition go_index :: "'a list \<Rightarrow> int \<Rightarrow> 'a option" where
  "go_index xs i = (if 0 \<le> i \<and> i < int (length xs) then Some (xs ! nat i) else None)"

definition go_store :: "'a list \<Rightarrow> int \<Rightarrow> 'a \<Rightarrow> 'a list option" where
  "go_store xs i v = (if 0 \<le> i \<and> i < int (length xs) then Some (xs[nat i := v]) else None)"

definition make_slice :: "'a \<Rightarrow> int \<Rightarrow> 'a list option" where
  "make_slice z n = (if n < 0 then None else Some (replicate (nat n) z))"

text \<open>What a call into code the model does not see does: it returns or it panics.\<close>

datatype 'a outcome = Returned 'a | Panicked

subsection \<open>Strings\<close>

definition has_prefix :: "string \<Rightarrow> string \<Rightarrow> bool" where
  "has_prefix s p = prefix p s"

definition has_suffix :: "string \<Rightarrow> string \<Rightarrow> bool" where
  "has_suffix s p = suffix p s"

definition trim_suffix :: "string \<Rightarrow> string \<Rightarrow> string" where
  "trim_suffix s p = (if suffix p s then take (length s - length p) s else s)"

text \<open>\<open>strings.Cut\<close>: what stands before the first occurrence of the separator, and what
  stands after it.\<close>

fun cut :: "string \<Rightarrow> string \<Rightarrow> string \<times> string option" where
  "cut sep [] = ([], if sep = [] then Some [] else None)"
| "cut sep (c # s) =
     (if prefix sep (c # s) then ([], Some (drop (length sep) (c # s)))
      else (let (a, r) = cut sep s in (c # a, r)))"

lemma cut_rest_shorter: "cut sep s = (a, Some r) \<Longrightarrow> sep \<noteq> [] \<Longrightarrow> length r < length s"
proof (induction s arbitrary: a)
  case (Cons c s)
  then show ?case
    by (cases sep) (auto split: if_splits prod.splits simp: less_Suc_eq_le)
qed simp

text \<open>\<open>strings.Split\<close> for a non-empty separator.\<close>

function go_split :: "string \<Rightarrow> string \<Rightarrow> string list" where
  "go_split sep s =
     (if sep = [] then [s]
      else case cut sep s of
             (a, None) \<Rightarrow> [a]
           | (a, Some r) \<Rightarrow> a # go_split sep r)"
  by pat_completeness auto
termination
  by (relation "measure (\<lambda>(sep, s). length s)") (auto dest!: cut_rest_shorter[OF sym])

declare go_split.simps [simp del]

fun go_join :: "string \<Rightarrow> string list \<Rightarrow> string" where
  "go_join sep [] = []"
| "go_join sep [x] = x"
| "go_join sep (x # y # ys) = x @ sep @ go_join sep (y # ys)"

definition is_space :: "char \<Rightarrow> bool" where
  "is_space c = (c \<in> {CHR '' '', CHR 0x09, CHR 0x0A, CHR 0x0B, CHR 0x0C, CHR 0x0D})"

definition trim_where :: "(char \<Rightarrow> bool) \<Rightarrow> string \<Rightarrow> string" where
  "trim_where P s = rev (dropWhile P (rev (dropWhile P s)))"

abbreviation trim_space :: "string \<Rightarrow> string" where
  "trim_space \<equiv> trim_where is_space"

text \<open>Decimal rendering (\<open>%d\<close>, \<open>strconv.Itoa\<close>) and \<open>strconv.Atoi\<close>.\<close>

definition digit_char :: "nat \<Rightarrow> char" where
  "digit_char d = char_of (48 + d)"

fun nat_digits :: "nat \<Rightarrow> string" where
  "nat_digits n = (if n < 10 then [digit_char n] else nat_digits (n div 10) @ [digit_char (n mod 10)])"

declare nat_digits.simps [simp del]

definition itoa :: "int \<Rightarrow> string" where
  "itoa n = (if n < 0 then CHR ''-'' # nat_digits (nat (- n)) else nat_digits (nat n))"

definition is_digit :: "char \<Rightarrow> bool" where
  "is_digit c = (48 \<le> (of_char c :: nat) \<and> (of_char c :: nat) \<le> 57)"

definition digits_value :: "string \<Rightarrow> nat" where
  "digits_value s = foldl (\<lambda>n c. 10 * n + (of_char c - 48)) 0 s"

text \<open>The result is \<^term>\<open>None\<close> on a syntax error and out of the 64-bit range.\<close>

definition atoi :: "string \<Rightarrow> int option" where
  "atoi s =
     (let (neg, ds) = (case s of
            CHR ''-'' # r \<Rightarrow> (True, r) | CHR ''+'' # r \<Rightarrow> (False, r) | _ \<Rightarrow> (False, s));
          v = (if neg then - int (digits_value ds) else int (digits_value ds))
      in if ds = [] \<or> \<not> list_all is_digit ds \<or> v < - (2 ^ 63) \<or> 2 ^ 63 \<le> v then None else Some v)"

section \<open>Lemmas\<close>

subsection \<open>Words and durations\<close>

lemma wrap64_id [simp]: "- (2 ^ 63) \<le> x \<Longrightarrow> x < 2 ^ 63 \<Longrightarrow> wrap64 x = x"
  by (simp add: wrap64_def)

lemma wrap64_range: "- (2 ^ 63) \<le> wrap64 x \<and> wrap64 x < 2 ^ 63"
proof -
  have "0 \<le> (x + 2 ^ 63) mod 2 ^ 64 \<and> (x + 2 ^ 63) mod 2 ^ 64 < (2 ^ 64 :: int)"
    by simp
  then show ?thesis by (simp add: wrap64_def)
qed

lemma duration_of_id:
  "0 \<le> n \<Longrightarrow> n * u < 2 ^ 63 \<Longrightarrow> 0 \<le> u \<Longrightarrow> duration_of n u = n * u"
proof -
  assume "0 \<le> n" "n * u < 2 ^ 63" "0 \<le> u"
  moreover from this have "0 \<le> n * u" by simp
  ultimately show ?thesis unfolding duration_of_def by (intro wrap64_id) linarith+
qed

subsection \<open>Checked operations\<close>

lemma trunc_div_nonneg [simp]: "0 \<le> a \<Longrightarrow> 0 < b \<Longrightarrow> trunc_div a b = a div b"
  by (cases "a = 0") (auto simp: trunc_div_def sgn_if)

lemma trunc_div_pos_iff: "0 < b \<Longrightarrow> 0 < trunc_div a b \<longleftrightarrow> b \<le> a"
proof (cases "0 \<le> a")
  case True
  assume "0 < b"
  with True show ?thesis by (simp add: pos_imp_zdiv_pos_iff)
next
  case False
  assume "0 < b"
  with False have "trunc_div a b = - ((- a) div b)" by (simp add: trunc_div_def sgn_if)
  moreover from \<open>0 < b\<close> False have "0 \<le> (- a) div b" by (simp add: pos_imp_zdiv_nonneg_iff)
  ultimately show ?thesis using False \<open>0 < b\<close> by linarith
qed

lemma go_div_pos [go_simps]: "0 < b \<Longrightarrow> go_div a b = Some (trunc_div a b)"
  by (simp add: go_div_def)

lemma go_mod_nonneg [go_simps]: "0 \<le> a \<Longrightarrow> 0 < b \<Longrightarrow> go_mod a b = Some (a mod b)"
  by (simp add: go_mod_def minus_mult_div_eq_mod)

lemma go_index_in [go_simps]: "0 \<le> i \<Longrightarrow> i < int (length xs) \<Longrightarrow> go_index xs i = Some (xs ! nat i)"
  by (simp add: go_index_def)

lemma go_store_in [go_simps]:
  "0 \<le> i \<Longrightarrow> i < int (length xs) \<Longrightarrow> go_store xs i v = Some (xs[nat i := v])"
  by (simp add: go_store_def)

lemma make_slice_nonneg [go_simps]: "0 \<le> n \<Longrightarrow> make_slice z n = Some (replicate (nat n) z)"
  by (simp add: make_slice_def)

subsection \<open>Splitting and joining\<close>

lemma cut_sep: "sep \<noteq> [] \<Longrightarrow> cut sep s = (a, r) \<Longrightarrow> s = a @ (case r of None \<Rightarrow> [] | Some t \<Rightarrow> sep @ t)"
proof (induction s arbitrary: a r)
  case (Cons c s)
  then show ?case
    by (auto split: if_splits prod.splits option.splits simp: prefix_def)
qed simp

lemma go_join_Cons: "xs \<noteq> [] \<Longrightarrow> go_join sep (x # xs) = x @ sep @ go_join sep xs"
  by (cases xs) simp_all

lemma go_split_None: "sep \<noteq> [] \<Longrightarrow> cut sep s = (a, None) \<Longrightarrow> go_split sep s = [a]"
  by (subst go_split.simps) simp

lemma go_split_Some:
  "sep \<noteq> [] \<Longrightarrow> cut sep s = (a, Some r) \<Longrightarrow> go_split sep s = a # go_split sep r"
  by (subst go_split.simps) simp

lemma go_split_nonempty [simp]: "go_split sep s \<noteq> []"
  by (subst go_split.simps) (auto split: prod.splits option.splits)

lemma go_join_split: "sep \<noteq> [] \<Longrightarrow> go_join sep (go_split sep s) = s"
proof (induction sep s rule: go_split.induct)
  case (1 sep s)
  obtain a r where c: "cut sep s = (a, r)" by (cases "cut sep s")
  note cs = cut_sep[OF \<open>sep \<noteq> []\<close> c]
  show ?case
  proof (cases r)
    case None
    with 1 c cs show ?thesis by (simp add: go_split_None)
  next
    case (Some t)
    with 1 c have "go_join sep (go_split sep t) = t" by simp
    with Some 1 c cs show ?thesis by (simp add: go_split_Some go_join_Cons)
  qed
qed

lemma cut_char_absent: "c \<notin> set s \<Longrightarrow> cut [c] s = (s, None)"
  by (induction s) auto

lemma cut_char_first: "c \<notin> set a \<Longrightarrow> cut [c] (a @ c # r) = (a, Some r)"
  by (induction a) auto

lemma go_split_char_absent: "c \<notin> set s \<Longrightarrow> go_split [c] s = [s]"
  by (simp add: go_split_None cut_char_absent)

lemma go_split_char_first: "c \<notin> set a \<Longrightarrow> go_split [c] (a @ c # r) = a # go_split [c] r"
  by (simp add: go_split_Some cut_char_first)

theorem go_split_join_char:
  "xs \<noteq> [] \<Longrightarrow> \<forall>x \<in> set xs. c \<notin> set x \<Longrightarrow> go_split [c] (go_join [c] xs) = xs"
proof (induction xs)
  case (Cons x xs)
  show ?case
  proof (cases xs)
    case Nil
    with Cons.prems show ?thesis by (simp add: go_split_char_absent)
  next
    case (Cons y ys)
    with Cons.IH Cons.prems have "go_split [c] (go_join [c] xs) = xs" by simp
    with Cons.prems Cons show ?thesis by (simp add: go_split_char_first go_join_Cons)
  qed
qed simp

lemma go_split_char_parts: "x \<in> set (go_split [c] s) \<Longrightarrow> c \<notin> set x"
proof (induction "[c]" s arbitrary: x rule: go_split.induct)
  case (1 s)
  have cut_part: "cut [c] s = (a, r) \<Longrightarrow> c \<notin> set a" for a r
    by (induction s arbitrary: a r) (auto split: if_splits prod.splits)
  obtain a r where c: "cut [c] s = (a, r)" by (cases "cut [c] s")
  show ?case
  proof (cases r)
    case None
    with 1 c cut_part[OF c] show ?thesis by (simp add: go_split_None)
  next
    case (Some t)
    with 1 c cut_part[OF c] show ?thesis by (auto simp: go_split_Some)
  qed
qed

subsection \<open>Trimming\<close>

lemma dropWhile_hd: "dropWhile P s \<noteq> [] \<Longrightarrow> \<not> P (hd (dropWhile P s))"
  by (induction s) auto

lemma dropWhile_rev_hd:
  assumes "dropWhile P (rev t) \<noteq> []"
  shows "hd (rev (dropWhile P (rev t))) = hd t" "t \<noteq> []"
proof -
  have "suffix (dropWhile P (rev t)) (rev t)" by (rule suffix_dropWhile)
  then obtain zs where "rev t = zs @ dropWhile P (rev t)" by (auto simp: suffix_def)
  then have "t = rev (dropWhile P (rev t)) @ rev zs" by (metis rev_append rev_rev_ident)
  with assms show "hd (rev (dropWhile P (rev t))) = hd t" by (metis hd_append2 rev_is_Nil_conv)
  from assms show "t \<noteq> []" by auto
qed

lemma trim_where_ends:
  assumes "trim_where P s \<noteq> []"
  shows "\<not> P (hd (trim_where P s))" "\<not> P (last (trim_where P s))"
proof -
  let ?t = "dropWhile P s"
  have u: "dropWhile P (rev ?t) \<noteq> []" using assms unfolding trim_where_def by simp
  from dropWhile_hd[OF u] u show "\<not> P (last (trim_where P s))"
    unfolding trim_where_def by (metis last_rev)
  from dropWhile_rev_hd[OF u] dropWhile_hd show "\<not> P (hd (trim_where P s))"
    unfolding trim_where_def by metis
qed

lemma trim_where_subset: "set (trim_where P s) \<subseteq> set s"
  unfolding trim_where_def by (metis (no_types, lifting) set_dropWhileD set_rev subsetI)

lemma trim_where_fixed:
  assumes "t \<noteq> []" "\<not> P (hd t)" "\<not> P (last t)"
  shows "trim_where P t = t"
proof -
  have d: "dropWhile P u = u" if "u \<noteq> []" "\<not> P (hd u)" for u using that by (cases u) auto
  from assms have "rev t \<noteq> []" "\<not> P (hd (rev t))" by (simp_all add: hd_rev)
  then have "dropWhile P (rev t) = rev t" by (rule d)
  moreover have "dropWhile P t = t" using assms(1,2) by (rule d)
  ultimately show ?thesis by (simp add: trim_where_def)
qed

lemma trim_where_idem: "trim_where P (trim_where P s) = trim_where P s"
proof (cases "trim_where P s = []")
  case True
  then show ?thesis by (simp only: True) (simp add: trim_where_def)
next
  case False
  with trim_where_ends trim_where_fixed show ?thesis by metis
qed

subsection \<open>Decimal rendering\<close>

lemma digit_char_digit: "d < 10 \<Longrightarrow> is_digit (digit_char d) \<and> of_char (digit_char d) - 48 = d"
  by (simp add: is_digit_def digit_char_def)

lemma nat_digits_all_digits: "list_all is_digit (nat_digits n)"
proof (induction n rule: nat_digits.induct)
  case (1 n)
  then show ?case
    by (subst nat_digits.simps) (auto simp: digit_char_digit)
qed

lemma nat_digits_nonempty [simp]: "nat_digits n \<noteq> []"
  by (subst nat_digits.simps) simp

lemma digits_value_nat_digits [simp]: "digits_value (nat_digits n) = n"
proof (induction n rule: nat_digits.induct)
  case (1 n)
  show ?case
  proof (cases "n < 10")
    case True
    then show ?thesis by (subst nat_digits.simps) (simp add: digits_value_def digit_char_digit)
  next
    case False
    with 1 have "digits_value (nat_digits (n div 10)) = n div 10" by simp
    with False show ?thesis
      by (subst nat_digits.simps) (simp add: digits_value_def digit_char_digit)
  qed
qed

lemma digit_not_sign: "is_digit c \<Longrightarrow> c \<noteq> CHR ''-'' \<and> c \<noteq> CHR ''+''"
  by (auto simp: is_digit_def)

lemma atoi_digits:
  assumes "list_all is_digit ds" "ds \<noteq> []"
  shows "atoi ds = (if digits_value ds < 2 ^ 63 then Some (int (digits_value ds)) else None)"
proof -
  obtain c r where d: "ds = c # r" using assms(2) by (cases ds) auto
  then have "c \<noteq> CHR ''-''" "c \<noteq> CHR ''+''" using assms(1) digit_not_sign by auto
  then have "(case ds of CHR ''-'' # r \<Rightarrow> (True, r) | CHR ''+'' # r \<Rightarrow> (False, r) | _ \<Rightarrow> (False, ds))
      = (False, ds)"
    unfolding d by (auto split: char.splits bool.splits)
  with assms show ?thesis by (auto simp: atoi_def Let_def)
qed

lemma atoi_itoa_nonneg: "0 \<le> n \<Longrightarrow> n < 2 ^ 63 \<Longrightarrow> atoi (itoa n) = Some n"
  by (auto simp: itoa_def atoi_digits nat_digits_all_digits nat_less_iff)

lemma itoa_chars: "c \<in> set (itoa n) \<Longrightarrow> is_digit c \<or> c = CHR ''-''"
  using nat_digits_all_digits by (auto simp: itoa_def list_all_iff split: if_splits)

lemma nat_digits_inject [simp]: "nat_digits m = nat_digits n \<longleftrightarrow> m = n"
  by (metis digits_value_nat_digits)

lemma nat_digits_no_minus: "CHR ''-'' \<notin> set (nat_digits n)"
  using nat_digits_all_digits[of n] digit_not_sign by (auto simp: list_all_iff)

lemma itoa_inject [simp]: "itoa m = itoa n \<longleftrightarrow> m = n"
proof -
  have "CHR ''-'' # xs \<noteq> nat_digits k" for xs k
    using nat_digits_no_minus[of k] by (metis list.set_intros(1))
  then show ?thesis by (auto simp: itoa_def split: if_splits) (metis)+
qed

end
