(* ===== verification/Redis_View.thy ===== *)
theory Redis_View
  imports Go_Prelude
begin

section \<open>The Redis view\<close>

text \<open>
  Models \<open>redisView\<close> of the package \<open>redis\<close>: \<open>redis_view.go\<close>, \<open>redis_internal.go\<close>, \<open>redis_hash.go\<close>,
  \<open>redis_list.go\<close>, \<open>redis_set.go\<close>, \<open>redis_zset.go\<close>, \<open>redis_geo.go\<close> and \<open>redis_subscribe.go\<close>. A view adds a
  prefix to the keys of one application and forwards the calls to the client of go-redis.

  The client is a parameter: a command is the name of the client method with its key arguments and its other
  arguments, and there is one function per type of reply, on an abstract state \<open>'s\<close>. A byte slice is a string.
  An infinite or undefined floating-point number is not modelled.
\<close>

datatype rarg = AStr string | AInt int | AFloat float64 | ADur duration | AMap "(string \<times> string) list"
  | AZ float64 string | ANX bool | AGeo string float64 float64

datatype rcmd = RCmd string "string list" "rarg list"

datatype rval = VBytes string | VStr string | VNil | VOther string

record 's redis_cmd =
  rc_int :: "rcmd \<Rightarrow> 's \<Rightarrow> (string + int) \<times> 's"
  rc_str :: "rcmd \<Rightarrow> 's \<Rightarrow> (string + string) \<times> 's"
  rc_bool :: "rcmd \<Rightarrow> 's \<Rightarrow> (string + bool) \<times> 's"
  rc_strs :: "rcmd \<Rightarrow> 's \<Rightarrow> (string + string list) \<times> 's"
  rc_vals :: "rcmd \<Rightarrow> 's \<Rightarrow> (string + rval list) \<times> 's"
  rc_map :: "rcmd \<Rightarrow> 's \<Rightarrow> (string + (string \<times> string) list) \<times> 's"
  rc_float :: "rcmd \<Rightarrow> 's \<Rightarrow> (string + float64) \<times> 's"
  rc_zs :: "rcmd \<Rightarrow> 's \<Rightarrow> (string + (float64 \<times> rval) list) \<times> 's"
  rc_geos :: "rcmd \<Rightarrow> 's \<Rightarrow> (string + (string \<times> float64 \<times> float64) list) \<times> 's"
  rc_pubsub :: "(rcmd \<Rightarrow> 's \<Rightarrow> nat \<times> 's) option"
  rc_publishes :: bool

record redisView =
  rv_prefix :: string

definition RedisKeySep :: string where "RedisKeySep = '':''"

definition expandKey :: "redisView \<Rightarrow> string \<Rightarrow> string" where
  "expandKey r suff = rv_prefix r @ RedisKeySep @ suff"

text \<open>\<open>Split\<close> never answers an empty slice, so the slice from 1 exists.\<close>

definition truncateKey :: "redisView \<Rightarrow> string \<Rightarrow> string" where
  "truncateKey r full = go_join RedisKeySep (drop 1 (go_split RedisKeySep full))"

definition NewRedisView :: "string \<Rightarrow> redisView" where
  "NewRedisView pre = \<lparr>rv_prefix = pre\<rparr>"

definition KeyPrefix :: "redisView \<Rightarrow> string" where "KeyPrefix r = rv_prefix r"

subsection \<open>Helpers on results\<close>

definition ErrorInputValuesIsNil :: string where "ErrorInputValuesIsNil = ''input values is nil''"
definition ErrorResultNotOK :: string where "ErrorResultNotOK = ''result is not OK''"
definition ErrorResultNotTrue :: string where "ErrorResultNotTrue = ''result is not true''"

datatype wrapped = WBool bool | WString string | WInt int

definition wrapResult :: "(string + wrapped) \<times> 's \<Rightarrow> string option \<times> 's" where
  "wrapResult call =
     (case call of
        (Inl err, s) \<Rightarrow> (Some err, s)
      | (Inr (WBool b), s) \<Rightarrow> (if b \<noteq> True then Some ErrorResultNotTrue else None, s)
      | (Inr (WString t), s) \<Rightarrow> (if t \<noteq> ''OK'' then Some ErrorResultNotOK else None, s)
      | (Inr (WInt n), s) \<Rightarrow> (None, s))"

definition on_ok :: "('a \<Rightarrow> 'b) \<Rightarrow> (string + 'a) \<times> 's \<Rightarrow> (string + 'b) \<times> 's" where
  "on_ok f r = (case r of (Inl err, s) \<Rightarrow> (Inl err, s) | (Inr x, s) \<Rightarrow> (Inr (f x), s))"

definition wrapSliceStringToSliceBytes :: "(string + string list) \<times> 's \<Rightarrow> (string + string list) \<times> 's" where
  "wrapSliceStringToSliceBytes call = on_ok (map (\<lambda>result. result)) call"

record ZMember =
  zm_Score :: float64
  zm_Member :: string

definition member_bytes :: "rval \<Rightarrow> string" where
  "member_bytes v = (case v of VBytes b \<Rightarrow> b | VStr t \<Rightarrow> t | VNil \<Rightarrow> ''<nil>'' | VOther t \<Rightarrow> t)"

definition toRangeZMembers :: "string option \<Rightarrow> string list \<Rightarrow> (float64 \<times> rval) list \<Rightarrow> string + ZMember list" where
  "toRangeZMembers err members zSlice =
     (case err of
        Some e \<Rightarrow> Inl e
      | None \<Rightarrow> Inr (map (\<lambda>m. \<lparr>zm_Score = 0, zm_Member = m\<rparr>) members @
                      map (\<lambda>(score, v). \<lparr>zm_Score = score, zm_Member = member_bytes v\<rparr>) zSlice))"

text \<open>The rendering \<open>%f\<close>: six decimals, rounded to the nearest, ties to even.\<close>

definition round_even :: "float64 \<Rightarrow> int" where
  "round_even y = (let k = \<lfloor>y\<rfloor>; f = y - of_int k in
     if f < 1 / 2 then k else if f > 1 / 2 then k + 1 else if even k then k else k + 1)"

definition pad6 :: "string \<Rightarrow> string" where
  "pad6 ds = replicate (6 - length ds) (CHR ''0'') @ ds"

definition fmt_f :: "float64 \<Rightarrow> string" where
  "fmt_f x = (let n = round_even (\<bar>x\<bar> * 1000000) in
     (if x < 0 then ''-'' else '''') @ itoa (n div 1000000) @ ''.'' @ pad6 (itoa (n mod 1000000)))"

subsection \<open>Keys\<close>

text \<open>\<open>parse\<close> is \<open>time.ParseDuration\<close>.\<close>

definition SetNX ::
  "(string \<Rightarrow> string + duration) \<Rightarrow> 's redis_cmd \<Rightarrow> redisView \<Rightarrow> string \<Rightarrow> string \<Rightarrow> string \<Rightarrow> 's \<Rightarrow> (string + bool) \<times> 's" where
  "SetNX parse rc r key val duration s =
     (if duration \<noteq> ''''
      then (case parse duration of
              Inl err \<Rightarrow> (Inl err, s)
            | Inr timeout \<Rightarrow> rc_bool rc (RCmd ''SetNX'' [expandKey r key] [AStr val, ADur timeout]) s)
      else rc_bool rc (RCmd ''SetNX'' [expandKey r key] [AStr val, ADur 0]) s)"

definition Scan :: "'s redis_cmd \<Rightarrow> redisView \<Rightarrow> int \<Rightarrow> string \<Rightarrow> int \<Rightarrow> 's \<Rightarrow> (string + string list) \<times> 's" where
  "Scan rc r cursor match cnt s = rc_strs rc (RCmd ''Scan'' [expandKey r match] [AInt cursor, AInt cnt]) s"

definition view_Get :: "'s redis_cmd \<Rightarrow> redisView \<Rightarrow> string \<Rightarrow> 's \<Rightarrow> (string + string) \<times> 's" where
  "view_Get rc r key s = rc_str rc (RCmd ''Get'' [expandKey r key] []) s"

definition view_Set ::
  "(string \<Rightarrow> string + duration) \<Rightarrow> 's redis_cmd \<Rightarrow> redisView \<Rightarrow> string \<Rightarrow> string \<Rightarrow> string \<Rightarrow> 's \<Rightarrow> string option \<times> 's" where
  "view_Set parse rc r key val duration s =
     (let send = (\<lambda>timeout. case rc_str rc (RCmd ''Set'' [expandKey r key] [AStr val, ADur timeout]) s of
            (Inl err, s) \<Rightarrow> (Some err, s) | (Inr _, s) \<Rightarrow> (None, s))
      in if duration \<noteq> ''''
         then (case parse duration of Inl err \<Rightarrow> (Some err, s) | Inr timeout \<Rightarrow> send timeout)
         else send 0)"

definition Del :: "'s redis_cmd \<Rightarrow> redisView \<Rightarrow> string list \<Rightarrow> 's \<Rightarrow> (string + int) \<times> 's" where
  "Del rc r ks s = rc_int rc (RCmd ''Del'' (map (expandKey r) ks) []) s"

definition Expire ::
  "(string \<Rightarrow> string + duration) \<Rightarrow> 's redis_cmd \<Rightarrow> redisView \<Rightarrow> string \<Rightarrow> string \<Rightarrow> 's \<Rightarrow> string option \<times> 's" where
  "Expire parse rc r key duration s =
     (case parse duration of
        Inl err \<Rightarrow> (Some err, s)
      | Inr timeout \<Rightarrow> wrapResult (on_ok WBool (rc_bool rc (RCmd ''Expire'' [expandKey r key] [ADur timeout]) s)))"

definition view_Exists :: "'s redis_cmd \<Rightarrow> redisView \<Rightarrow> string \<Rightarrow> 's \<Rightarrow> (string + bool) \<times> 's" where
  "view_Exists rc r key s = on_ok (\<lambda>cnt. cnt > 0) (rc_int rc (RCmd ''Exists'' [expandKey r key] []) s)"

text \<open>The stream of \<open>XAdd\<close> is taken as it is given.\<close>

definition XAdd :: "'s redis_cmd \<Rightarrow> redisView \<Rightarrow> string \<Rightarrow> rarg list \<Rightarrow> 's \<Rightarrow> (string + string) \<times> 's" where
  "XAdd rc r stream args s = rc_str rc (RCmd ''XAdd'' [stream] args) s"

subsection \<open>Hashes\<close>

definition HSetNX where
  "HSetNX rc r key field val s =
     wrapResult (on_ok WBool (rc_bool rc (RCmd ''HSetNX'' [expandKey r key] [AStr field, AStr val]) s))"

definition HSet where
  "HSet rc r key field val s =
     wrapResult (on_ok WInt (rc_int rc (RCmd ''HSet'' [expandKey r key] [AStr field, AStr val]) s))"

definition HMSet where
  "HMSet rc r key vals s =
     (case vals of
        None \<Rightarrow> (Some ErrorInputValuesIsNil, s)
      | Some m \<Rightarrow> wrapResult (on_ok WBool (rc_bool rc (RCmd ''HMSet'' [expandKey r key] [AMap m]) s)))"

text \<open>\<open>HGet\<close> answers the bytes with the error; on an error the client answers an empty string.\<close>

definition HGet :: "'s redis_cmd \<Rightarrow> redisView \<Rightarrow> string \<Rightarrow> string \<Rightarrow> 's \<Rightarrow> (string + string) \<times> 's" where
  "HGet rc r key field s = rc_str rc (RCmd ''HGet'' [expandKey r key] [AStr field]) s"

text \<open>The assertion \<open>i2.([]byte)\<close> panics for every other type.\<close>

fun assert_bytes :: "rval list \<Rightarrow> string list outcome" where
  "assert_bytes [] = Returned []"
| "assert_bytes (VBytes b # vs) = (case assert_bytes vs of Returned bs \<Rightarrow> Returned (b # bs) | Panicked \<Rightarrow> Panicked)"
| "assert_bytes (_ # vs) = Panicked"

definition HMGet :: "'s redis_cmd \<Rightarrow> redisView \<Rightarrow> string \<Rightarrow> string list \<Rightarrow> 's \<Rightarrow> (string + string list) outcome \<times> 's" where
  "HMGet rc r key fs s =
     (case rc_vals rc (RCmd ''HMGet'' [expandKey r key] (map AStr fs)) s of
        (Inl err, s) \<Rightarrow> (Returned (Inl err), s)
      | (Inr vs, s) \<Rightarrow> (case assert_bytes vs of Panicked \<Rightarrow> Panicked | Returned bs \<Rightarrow> Returned (Inr bs), s))"

definition HGetAll where "HGetAll rc r key s = rc_map rc (RCmd ''HGetAll'' [expandKey r key] []) s"
definition HDel where "HDel rc r key fs s = rc_int rc (RCmd ''HDel'' [expandKey r key] (map AStr fs)) s"
definition HLen where "HLen rc r key s = rc_int rc (RCmd ''HLen'' [expandKey r key] []) s"
definition HKeys where "HKeys rc r key s = rc_strs rc (RCmd ''HKeys'' [expandKey r key] []) s"
definition HValues where
  "HValues rc r key s = wrapSliceStringToSliceBytes (rc_strs rc (RCmd ''HVals'' [expandKey r key] []) s)"
definition HExists where "HExists rc r key field s = rc_bool rc (RCmd ''HExists'' [expandKey r key] [AStr field]) s"

subsection \<open>Lists\<close>

datatype InsertOP = InsertOP_BEFORE | InsertOP_AFTER

text \<open>\<open>string(op)\<close> of an integer is the character with that number, not the name of the constant.\<close>

definition insert_op_string :: "InsertOP \<Rightarrow> string" where
  "insert_op_string iop = (case iop of InsertOP_BEFORE \<Rightarrow> [CHR 0x00] | InsertOP_AFTER \<Rightarrow> [CHR 0x01])"

definition LRem where "LRem rc r key cnt val s = rc_int rc (RCmd ''LRem'' [expandKey r key] [AInt cnt, AStr val]) s"
definition LIndex where "LIndex rc r key index s = rc_str rc (RCmd ''LIndex'' [expandKey r key] [AInt index]) s"
definition LTrim where
  "LTrim rc r key start stop s =
     wrapResult (on_ok WString (rc_str rc (RCmd ''LTrim'' [expandKey r key] [AInt start, AInt stop]) s))"
definition LSet where
  "LSet rc r key index val s =
     wrapResult (on_ok WString (rc_str rc (RCmd ''LSet'' [expandKey r key] [AInt index, AStr val]) s))"
definition LPush where "LPush rc r key vals s = rc_int rc (RCmd ''LPush'' [expandKey r key] (map AStr vals)) s"
definition LAppend where "LAppend rc r key vals s = rc_int rc (RCmd ''RPush'' [expandKey r key] (map AStr vals)) s"
definition LPop where "LPop rc r key s = rc_str rc (RCmd ''LPop'' [expandKey r key] []) s"
definition LRPop where "LRPop rc r key s = rc_str rc (RCmd ''RPop'' [expandKey r key] []) s"
definition LRange where
  "LRange rc r key start stop s =
     wrapSliceStringToSliceBytes (rc_strs rc (RCmd ''LRange'' [expandKey r key] [AInt start, AInt stop]) s)"
definition LLen where "LLen rc r key s = rc_int rc (RCmd ''LLen'' [expandKey r key] []) s"
definition LInsert where
  "LInsert rc r key iop pivot val s =
     rc_int rc (RCmd ''LInsert'' [expandKey r key] [AStr (insert_op_string iop), AStr pivot, AStr val]) s"

subsection \<open>Sets\<close>

definition SLen where "SLen rc r key s = rc_int rc (RCmd ''SCard'' [expandKey r key] []) s"
definition SAdd where "SAdd rc r key vals s = rc_int rc (RCmd ''SAdd'' [expandKey r key] (map AStr vals)) s"
definition SRem where "SRem rc r key vals s = rc_int rc (RCmd ''SRem'' [expandKey r key] (map AStr vals)) s"
definition SPop where "SPop rc r key s = rc_str rc (RCmd ''SPop'' [expandKey r key] []) s"
definition SPopN where
  "SPopN rc r key cnt s = wrapSliceStringToSliceBytes (rc_strs rc (RCmd ''SPopN'' [expandKey r key] [AInt cnt]) s)"
definition SDiff where
  "SDiff rc r ks s = wrapSliceStringToSliceBytes (rc_strs rc (RCmd ''SDiff'' (map (expandKey r) ks) []) s)"
definition SDiffMerge where
  "SDiffMerge rc r destination ks s = rc_int rc (RCmd ''SDiffStore'' (destination # map (expandKey r) ks) []) s"
definition SInter where
  "SInter rc r ks s = wrapSliceStringToSliceBytes (rc_strs rc (RCmd ''SInter'' (map (expandKey r) ks) []) s)"
definition SInterMerge where
  "SInterMerge rc r destination ks s = rc_int rc (RCmd ''SInterStore'' (destination # map (expandKey r) ks) []) s"
definition SUnion where
  "SUnion rc r ks s = wrapSliceStringToSliceBytes (rc_strs rc (RCmd ''SUnion'' (map (expandKey r) ks) []) s)"
definition SUnionMerge where
  "SUnionMerge rc r destination ks s = rc_int rc (RCmd ''SUnionStore'' (destination # map (expandKey r) ks) []) s"


subsection \<open>Sorted sets\<close>

record ZRangeBy =
  zr_Min :: string
  zr_Max :: string
  zr_Offset :: int
  zr_Count :: int

definition ToRedisRangeBy :: "ZRangeBy \<Rightarrow> rarg list" where
  "ToRedisRangeBy z = [AStr (zr_Min z), AStr (zr_Max z), AInt (zr_Offset z), AInt (zr_Count z)]"

text \<open>\<open>ZMerge\<close> and the library's argument for a merge it is turned into, which keeps no keys.\<close>

record ZMerge =
  mg_Weights :: "float64 list"
  mg_Aggregate :: string

record ZStore =
  st_Keys :: "string list"
  st_Weights :: "float64 list"
  st_Aggregate :: string

definition ToZStore :: "ZMerge \<Rightarrow> ZStore" where
  "ToZStore z = \<lparr>st_Keys = [], st_Weights = mg_Weights z, st_Aggregate = mg_Aggregate z\<rparr>"

definition ZLen where "ZLen rc r key s = rc_int rc (RCmd ''ZCard'' [expandKey r key] []) s"
definition ZCount where
  "ZCount rc r key lo hi s = rc_int rc (RCmd ''ZCount'' [expandKey r key] [AStr (fmt_f lo), AStr (fmt_f hi)]) s"
definition ZLexCount :: "'s redis_cmd \<Rightarrow> redisView \<Rightarrow> string \<Rightarrow> string \<Rightarrow> string \<Rightarrow> 's \<Rightarrow> (string + int) \<times> 's" where
  "ZLexCount rc r key lo hi s = (Inl ''not implemented'', s)"
definition ZAdd where
  "ZAdd rc r key members s =
     rc_int rc (RCmd ''ZAdd'' [expandKey r key] (map (\<lambda>m. AZ (zm_Score m) (zm_Member m)) members)) s"
definition ZRem where
  "ZRem rc r key members s = rc_int rc (RCmd ''ZRem'' [expandKey r key] (map (\<lambda>m. AStr (zm_Member m)) members)) s"
definition ZRemRangeByLex where
  "ZRemRangeByLex rc r key lo hi s = rc_int rc (RCmd ''ZRemRangeByLex'' [expandKey r key] [AStr lo, AStr hi]) s"
definition ZRemRangeByScore where
  "ZRemRangeByScore rc r key lo hi s =
     rc_int rc (RCmd ''ZRemRangeByScore'' [expandKey r key] [AStr (fmt_f lo), AStr (fmt_f hi)]) s"
definition ZRemRangeByRank where
  "ZRemRangeByRank rc r key start stop s =
     rc_int rc (RCmd ''ZRemRangeByRank'' [expandKey r key] [AInt start, AInt stop]) s"

text \<open>A call \<open>x, err = cmd.Result()\<close> sets both variables: the values are nil on an error.\<close>

definition assigned :: "(string + 'a list) \<times> 's \<Rightarrow> 'a list \<times> string option \<times> 's" where
  "assigned r = (case r of (Inl err, s) \<Rightarrow> ([], Some err, s) | (Inr xs, s) \<Rightarrow> (xs, None, s))"

text \<open>The four \<open>if\<close> statements of \<open>ZRange\<close> and \<open>ZRangeByScore\<close>, for the four client methods.\<close>

definition range_calls where
  "range_calls plain revScored revPlain scored reverse withScores s =
     (let members = []; zSlice = []; err = None;
          (members, err, s) = (if \<not> reverse \<and> \<not> withScores then assigned (plain s) else (members, err, s));
          (zSlice, err, s) = (if reverse \<and> withScores then assigned (revScored s) else (zSlice, err, s));
          (members, err, s) = (if reverse then assigned (revPlain s) else (members, err, s));
          (zSlice, err, s) = (if withScores then assigned (scored s) else (zSlice, err, s))
      in (toRangeZMembers err members zSlice, s))"

definition ZRange where
  "ZRange rc r key start stop reverse withScores s =
     (let args = [AInt start, AInt stop]; k = [expandKey r key]
      in range_calls (rc_strs rc (RCmd ''ZRange'' k args)) (rc_zs rc (RCmd ''ZRevRangeWithScores'' k args))
           (rc_strs rc (RCmd ''ZRevRange'' k args)) (rc_zs rc (RCmd ''ZRangeWithScores'' k args)) reverse withScores s)"

definition ZRangeByScore where
  "ZRangeByScore rc r key rangeBy reverse withScores s =
     (let rb = ToRedisRangeBy rangeBy; k = [expandKey r key]
      in range_calls (rc_strs rc (RCmd ''ZRangeByScore'' k rb)) (rc_zs rc (RCmd ''ZRevRangeByScoreWithScores'' k rb))
           (rc_strs rc (RCmd ''ZRevRangeByScore'' k rb)) (rc_zs rc (RCmd ''ZRangeByScoreWithScores'' k rb))
           reverse withScores s)"

definition ZRangeByLex where
  "ZRangeByLex rc r key rangeBy reverse s =
     (let rb = ToRedisRangeBy rangeBy;
          (members, err, s) = (if reverse then assigned (rc_strs rc (RCmd ''ZRevRangeByLex'' [key] rb) s) else ([], None, s));
          (members, err, s) = assigned (rc_strs rc (RCmd ''ZRangeByLex'' [key] rb) s)
      in (toRangeZMembers err members [], s))"

definition ZRank where
  "ZRank rc r key member reverse s =
     (if reverse then rc_int rc (RCmd ''ZRevRank'' [expandKey r key] [AStr member]) s
      else rc_int rc (RCmd ''ZRank'' [expandKey r key] [AStr member]) s)"

definition ZIncr where
  "ZIncr rc r key member s =
     rc_float rc (RCmd ''ZIncrBy'' [expandKey r key] [AFloat (zm_Score member), AStr (zm_Member member)]) s"

definition ZIncrNX where
  "ZIncrNX rc r key member s =
     rc_float rc (RCmd ''ZAddArgsIncr'' [key] [ANX True, AZ (zm_Score member) (zm_Member member)]) s"

definition ZInterMerge where
  "ZInterMerge rc r destination ks weights aggregate s =
     rc_int rc (RCmd ''ZInterStore'' (destination # ks) (map AFloat weights @ [AStr aggregate])) s"

definition ZUnionMerge where
  "ZUnionMerge rc r destination ks weights aggregate s =
     rc_int rc (RCmd ''ZUnionStore'' (destination # ks) (map AFloat weights @ [AStr aggregate])) s"

subsection \<open>Positions\<close>

record Location =
  loc_Longitude :: float64
  loc_Latitude :: float64

definition GeoAdd where
  "GeoAdd rc r key locs s =
     rc_int rc (RCmd ''GeoAdd'' [expandKey r key] (map (\<lambda>(n, x, y). AGeo n x y) locs)) s"
definition GeoRadius where
  "GeoRadius rc r key longitude latitude query s =
     rc_geos rc (RCmd ''GeoRadius'' [expandKey r key] (AFloat longitude # AFloat latitude # query)) s"
definition GeoRadiusByMember where
  "GeoRadiusByMember rc r key member query s =
     rc_geos rc (RCmd ''GeoRadiusByMember'' [expandKey r key] (AStr member # query)) s"
definition GeoDist where
  "GeoDist rc r key member1 member2 unit s =
     rc_float rc (RCmd ''GeoDist'' [expandKey r key] [AStr member1, AStr member2, AStr unit]) s"
definition GeoHash where
  "GeoHash rc r key members s = rc_strs rc (RCmd ''GeoHash'' [expandKey r key] (map AStr members)) s"
definition GeoPos where
  "GeoPos rc r key members s = rc_geos rc (RCmd ''GeoPos'' [expandKey r key] (map AStr members)) s"

text \<open>\<open>uuid\<close> is the random suffix. The deferred deletion runs on every path and its error is dropped.\<close>

definition GeoCalculateDistance ::
  "string \<Rightarrow> 's redis_cmd \<Rightarrow> redisView \<Rightarrow> string \<Rightarrow> Location \<Rightarrow> Location \<Rightarrow> 's \<Rightarrow> (string + float64) \<times> 's" where
  "GeoCalculateDistance uuid rc r key location1 location2 s =
     (let key = key @ '':'' @ uuid;
          (res, s) =
            (case GeoAdd rc r key [(''location1'', loc_Longitude location1, loc_Latitude location1)] s of
               (Inl err, s) \<Rightarrow> (Inl err, s)
             | (Inr _, s) \<Rightarrow>
                 (case GeoAdd rc r key [(''location2'', loc_Longitude location2, loc_Latitude location2)] s of
                    (Inl err, s) \<Rightarrow> (Inl err, s)
                  | (Inr _, s) \<Rightarrow> GeoDist rc r key ''location1'' ''location2'' ''km'' s));
          (_, s) = Del rc r [key] s
      in (res, s))"

subsection \<open>Publish and subscribe\<close>

text \<open>The channels are taken as they are given. \<open>rc_pubsub\<close> is \<^term>\<open>None\<close> for a client without \<open>Subscribe\<close>,
  \<open>rc_publishes\<close> is false for one without \<open>Publish\<close>.\<close>

definition view_Subscribe :: "'s redis_cmd \<Rightarrow> redisView \<Rightarrow> string list \<Rightarrow> 's \<Rightarrow> (string + nat) \<times> 's" where
  "view_Subscribe rc r channels s =
     (case rc_pubsub rc of
        Some f \<Rightarrow> (let (n, s) = f (RCmd ''Subscribe'' channels []) s in (Inr n, s))
      | None \<Rightarrow> (Inl ''UnSupported'', s))"

definition PSubscribe :: "'s redis_cmd \<Rightarrow> redisView \<Rightarrow> string list \<Rightarrow> 's \<Rightarrow> (string + nat) \<times> 's" where
  "PSubscribe rc r channels s =
     (case rc_pubsub rc of
        Some f \<Rightarrow> (let (n, s) = f (RCmd ''PSubscribe'' channels []) s in (Inr n, s))
      | None \<Rightarrow> (Inl ''UnSupported'', s))"

definition view_Publish :: "'s redis_cmd \<Rightarrow> redisView \<Rightarrow> string \<Rightarrow> string \<Rightarrow> 's \<Rightarrow> (string + int) \<times> 's" where
  "view_Publish rc r channel message s =
     (if rc_publishes rc then rc_int rc (RCmd ''Publish'' [channel] [AStr message]) s
      else (Inl ''UnSupported'', s))"

section \<open>Lemmas\<close>

text \<open>A client that also lists the commands it is given.\<close>

definition logging :: "(rcmd \<Rightarrow> 's \<Rightarrow> 'a \<times> 's) \<Rightarrow> rcmd \<Rightarrow> 's \<times> rcmd list \<Rightarrow> 'a \<times> 's \<times> rcmd list" where
  "logging f c = (\<lambda>(s, l). let (x, s) = f c s in (x, (s, l @ [c])))"

definition logged :: "'s redis_cmd \<Rightarrow> ('s \<times> rcmd list) redis_cmd" where
  "logged rc = \<lparr>rc_int = logging (rc_int rc), rc_str = logging (rc_str rc), rc_bool = logging (rc_bool rc),
     rc_strs = logging (rc_strs rc), rc_vals = logging (rc_vals rc), rc_map = logging (rc_map rc),
     rc_float = logging (rc_float rc), rc_zs = logging (rc_zs rc), rc_geos = logging (rc_geos rc),
     rc_pubsub = map_option logging (rc_pubsub rc), rc_publishes = rc_publishes rc\<rparr>"

fun cmd_keys :: "rcmd \<Rightarrow> string list" where
  "cmd_keys (RCmd _ ks _) = ks"

text \<open>The commands an operation sends, from a state \<open>s\<close>.\<close>

definition sent :: "(('s \<times> rcmd list) redis_cmd \<Rightarrow> 's \<times> rcmd list \<Rightarrow> 'x \<times> 's \<times> rcmd list) \<Rightarrow> 's redis_cmd \<Rightarrow> 's \<Rightarrow> rcmd list" where
  "sent opr rc s = snd (snd (opr (logged rc) (s, [])))"

definition in_view :: "redisView \<Rightarrow> rcmd \<Rightarrow> bool" where
  "in_view r c = list_all (\<lambda>k. has_prefix k (rv_prefix r @ '':'')) (cmd_keys c)"

lemma in_view_expand [simp]: "has_prefix (expandKey r k) (rv_prefix r @ '':'')"
  by (simp add: has_prefix_def expandKey_def RedisKeySep_def)

lemma expandKey_inject [simp]: "expandKey r k = expandKey r k' \<longleftrightarrow> k = k'"
  by (simp add: expandKey_def)

lemma truncate_expand:
  assumes "CHR '':'' \<notin> set (rv_prefix r)"
  shows "truncateKey r (expandKey r k) = k"
proof -
  have "go_split '':'' (rv_prefix r @ '':'' @ k) = rv_prefix r # go_split '':'' k"
    using go_split_char_first[OF assms] by simp
  then show ?thesis using go_join_split[of "'':''" k] by (simp add: truncateKey_def expandKey_def RedisKeySep_def)
qed

lemma logging_log: "snd (snd (logging f c (s, l))) = l @ [c]"
  by (simp add: logging_def split: prod.splits)

lemma on_ok_state [simp]: "snd (on_ok f r) = snd r"
  by (auto simp: on_ok_def split: prod.splits sum.splits)

lemma wrapResult_state [simp]: "snd (wrapResult r) = snd r"
  by (auto simp: wrapResult_def split: prod.splits sum.splits wrapped.splits)

lemma wrapSlice_state [simp]: "snd (wrapSliceStringToSliceBytes r) = snd r"
  by (simp add: wrapSliceStringToSliceBytes_def)

lemma assigned_state [simp]: "snd (snd (assigned r)) = snd r"
  by (auto simp: assigned_def split: prod.splits sum.splits)


lemma logged_log [simp]:
  "snd (snd (rc_int (logged rc) c (s, l))) = l @ [c]"
  "snd (snd (rc_str (logged rc) c (s, l))) = l @ [c]"
  "snd (snd (rc_bool (logged rc) c (s, l))) = l @ [c]"
  "snd (snd (rc_strs (logged rc) c (s, l))) = l @ [c]"
  "snd (snd (rc_vals (logged rc) c (s, l))) = l @ [c]"
  "snd (snd (rc_map (logged rc) c (s, l))) = l @ [c]"
  "snd (snd (rc_float (logged rc) c (s, l))) = l @ [c]"
  "snd (snd (rc_zs (logged rc) c (s, l))) = l @ [c]"
  "snd (snd (rc_geos (logged rc) c (s, l))) = l @ [c]"
  by (simp_all add: logged_def logging_log)

lemma logged_step:
  "rc_int (logged rc) c (s, l) = (x, s', l') \<Longrightarrow> l' = l @ [c]"
  "rc_str (logged rc) c (s, l) = (y, s', l') \<Longrightarrow> l' = l @ [c]"
  "rc_vals (logged rc) c (s, l) = (v, s', l') \<Longrightarrow> l' = l @ [c]"
  "rc_float (logged rc) c (s, l) = (f, s', l') \<Longrightarrow> l' = l @ [c]"
  by (metis logged_log snd_conv)+

lemma in_view_all [simp]:
  "in_view r (RCmd m [expandKey r k] as)" "in_view r (RCmd m (map (expandKey r) ks) as)"
  by (simp_all add: in_view_def list_all_iff)

text \<open>The commands of the operations on one key.\<close>

lemmas key_ops = SetNX_def Scan_def view_Get_def Del_def Expire_def view_Exists_def
lemmas hash_ops = HSetNX_def HSet_def HMSet_def HGet_def HGetAll_def HDel_def HLen_def HKeys_def HValues_def HExists_def
lemmas list_ops = LRem_def LIndex_def LTrim_def LSet_def LPush_def LAppend_def LPop_def LRPop_def LRange_def LLen_def LInsert_def
lemmas set_ops = SLen_def SAdd_def SRem_def SPop_def SPopN_def SDiff_def SInter_def SUnion_def
lemmas zset_ops = ZLen_def ZCount_def ZLexCount_def ZAdd_def ZRem_def ZRemRangeByLex_def ZRemRangeByScore_def
  ZRemRangeByRank_def ZRank_def ZIncr_def
lemmas geo_ops = GeoAdd_def GeoRadius_def GeoRadiusByMember_def GeoDist_def GeoHash_def GeoPos_def

lemma view_Set_in_view: "list_all (in_view r) (sent (\<lambda>c. view_Set parse c r k v d) rc s)"
  by (auto simp: sent_def view_Set_def Let_def split: sum.splits prod.splits dest: logged_step)

lemma HMGet_in_view: "list_all (in_view r) (sent (\<lambda>c. HMGet c r k fs) rc s)"
  by (auto simp: sent_def HMGet_def split: sum.splits prod.splits dest!: logged_step)

lemma range_calls_log:
  assumes "\<And>s l. snd (snd (f1 (s, l))) = l @ c1" "\<And>s l. snd (snd (f2 (s, l))) = l @ c2"
    "\<And>s l. snd (snd (f3 (s, l))) = l @ c3" "\<And>s l. snd (snd (f4 (s, l))) = l @ c4"
  shows "snd (snd (range_calls f1 f2 f3 f4 b1 b2 (s, l))) =
    l @ (if b1 then (if b2 then c2 else []) @ c3 else []) @ (if b2 then c4 else if b1 then [] else c1)"
  by (cases b1; cases b2) (simp_all add: range_calls_def split_beta assms Let_def, (metis assms append.assoc surjective_pairing)+)


lemma ZRange_in_view:
  "list_all (in_view r) (sent (\<lambda>c. ZRange c r k a b rv ws) rc s)"
  "list_all (in_view r) (sent (\<lambda>c. ZRangeByScore c r k rb rv ws) rc s)"
  by (simp_all add: sent_def ZRange_def ZRangeByScore_def Let_def range_calls_log[OF logged_log(4,8,4,8)])

lemma Geo_in_view: "list_all (in_view r) (sent (\<lambda>c. GeoCalculateDistance u c r k l1 l2) rc s)"
  unfolding sent_def GeoCalculateDistance_def GeoAdd_def GeoDist_def Del_def Let_def
  by (auto split: prod.splits sum.splits dest!: logged_step)

section \<open>Properties\<close>

text \<open>C26: The view keeps the keys of an application apart: every command sent by these operations names only keys
  with the prefix of the view, and reading after writing meets the same key, because \<open>expandKey\<close> is injective.
  \<open>truncateKey\<close> undoes it when the prefix has no colon.\<close>

theorem view_keys_prefixed:
  assumes "CHR '':'' \<notin> set (rv_prefix r)"
  shows "list_all (in_view r) (sent (\<lambda>c. SetNX parse c r k v d) rc s) \<and>
    list_all (in_view r) (sent (\<lambda>c. view_Get c r k) rc s) \<and> list_all (in_view r) (sent (\<lambda>c. view_Set parse c r k v d) rc s) \<and>
    list_all (in_view r) (sent (\<lambda>c. Del c r ks) rc s) \<and> list_all (in_view r) (sent (\<lambda>c. Expire parse c r k d) rc s) \<and>
    list_all (in_view r) (sent (\<lambda>c. view_Exists c r k) rc s) \<and> list_all (in_view r) (sent (\<lambda>c. HMSet c r k m) rc s) \<and>
    list_all (in_view r) (sent (\<lambda>c. HMGet c r k fs) rc s) \<and> list_all (in_view r) (sent (\<lambda>c. LRange c r k i j) rc s) \<and>
    list_all (in_view r) (sent (\<lambda>c. LInsert c r k iop p v) rc s) \<and> list_all (in_view r) (sent (\<lambda>c. SDiff c r ks) rc s) \<and>
    list_all (in_view r) (sent (\<lambda>c. SInter c r ks) rc s) \<and> list_all (in_view r) (sent (\<lambda>c. SUnion c r ks) rc s) \<and>
    list_all (in_view r) (sent (\<lambda>c. ZAdd c r k zs) rc s) \<and> list_all (in_view r) (sent (\<lambda>c. ZRange c r k i j rv ws) rc s) \<and>
    list_all (in_view r) (sent (\<lambda>c. ZRangeByScore c r k rb rv ws) rc s) \<and>
    list_all (in_view r) (sent (\<lambda>c. GeoCalculateDistance u c r k l1 l2) rc s) \<and>
    inj (expandKey r) \<and> truncateKey r (expandKey r k) = k"
proof (intro conjI)
  show "list_all (in_view r) (sent (\<lambda>c. SetNX parse c r k v d) rc s)"
    by (auto simp: sent_def SetNX_def split: sum.splits)
  show "list_all (in_view r) (sent (\<lambda>c. Expire parse c r k d) rc s)"
    by (auto simp: sent_def Expire_def split: sum.splits)
  show "list_all (in_view r) (sent (\<lambda>c. HMSet c r k m) rc s)"
    by (auto simp: sent_def HMSet_def split: option.splits)
  show "inj (expandKey r)" by (simp add: inj_def)
  show "truncateKey r (expandKey r k) = k" using assms by (rule truncate_expand)
qed (simp_all add: view_Set_in_view HMGet_in_view ZRange_in_view Geo_in_view,
    simp_all add: sent_def key_ops hash_ops list_ops set_ops zset_ops geo_ops)

text \<open>The other operations on one key.\<close>

lemma view_keys_prefixed_rest:
  "list_all (in_view r) (sent (\<lambda>c. HSetNX c r k f v) rc s)" "list_all (in_view r) (sent (\<lambda>c. HSet c r k f v) rc s)"
  "list_all (in_view r) (sent (\<lambda>c. HGet c r k f) rc s)" "list_all (in_view r) (sent (\<lambda>c. HGetAll c r k) rc s)"
  "list_all (in_view r) (sent (\<lambda>c. HDel c r k fs) rc s)" "list_all (in_view r) (sent (\<lambda>c. HLen c r k) rc s)"
  "list_all (in_view r) (sent (\<lambda>c. HKeys c r k) rc s)" "list_all (in_view r) (sent (\<lambda>c. HValues c r k) rc s)"
  "list_all (in_view r) (sent (\<lambda>c. HExists c r k f) rc s)" "list_all (in_view r) (sent (\<lambda>c. Scan c r i k j) rc s)"
  "list_all (in_view r) (sent (\<lambda>c. LRem c r k i v) rc s)" "list_all (in_view r) (sent (\<lambda>c. LIndex c r k i) rc s)"
  "list_all (in_view r) (sent (\<lambda>c. LTrim c r k i j) rc s)" "list_all (in_view r) (sent (\<lambda>c. LSet c r k i v) rc s)"
  "list_all (in_view r) (sent (\<lambda>c. LPush c r k vs) rc s)" "list_all (in_view r) (sent (\<lambda>c. LAppend c r k vs) rc s)"
  "list_all (in_view r) (sent (\<lambda>c. LPop c r k) rc s)" "list_all (in_view r) (sent (\<lambda>c. LRPop c r k) rc s)"
  "list_all (in_view r) (sent (\<lambda>c. LLen c r k) rc s)" "list_all (in_view r) (sent (\<lambda>c. SLen c r k) rc s)"
  "list_all (in_view r) (sent (\<lambda>c. SAdd c r k vs) rc s)" "list_all (in_view r) (sent (\<lambda>c. SRem c r k vs) rc s)"
  "list_all (in_view r) (sent (\<lambda>c. SPop c r k) rc s)" "list_all (in_view r) (sent (\<lambda>c. SPopN c r k i) rc s)"
  "list_all (in_view r) (sent (\<lambda>c. ZLen c r k) rc s)" "list_all (in_view r) (sent (\<lambda>c. ZCount c r k x y) rc s)"
  "list_all (in_view r) (sent (\<lambda>c. ZRem c r k zs) rc s)" "list_all (in_view r) (sent (\<lambda>c. ZRemRangeByLex c r k f v) rc s)"
  "list_all (in_view r) (sent (\<lambda>c. ZRemRangeByScore c r k x y) rc s)"
  "list_all (in_view r) (sent (\<lambda>c. ZRemRangeByRank c r k i j) rc s)"
  "list_all (in_view r) (sent (\<lambda>c. ZRank c r k f rv) rc s)" "list_all (in_view r) (sent (\<lambda>c. ZIncr c r k z) rc s)"
  "list_all (in_view r) (sent (\<lambda>c. GeoAdd c r k locs) rc s)" "list_all (in_view r) (sent (\<lambda>c. GeoHash c r k fs) rc s)"
  "list_all (in_view r) (sent (\<lambda>c. GeoRadius c r k x y as) rc s)"
  "list_all (in_view r) (sent (\<lambda>c. GeoRadiusByMember c r k f as) rc s)"
  "list_all (in_view r) (sent (\<lambda>c. GeoPos c r k fs) rc s)"
  by (simp_all add: sent_def key_ops hash_ops list_ops set_ops zset_ops geo_ops)

definition echo_redis :: "unit redis_cmd" where
  "echo_redis = \<lparr>rc_int = (\<lambda>c s. (Inr 1, s)), rc_str = (\<lambda>c s. (Inr ''OK'', s)), rc_bool = (\<lambda>c s. (Inr True, s)),
     rc_strs = (\<lambda>c s. (Inr [''b'', ''a''], s)), rc_vals = (\<lambda>c s. (Inr [VStr ''v''], s)), rc_map = (\<lambda>c s. (Inr [], s)),
     rc_float = (\<lambda>c s. (Inr 1, s)), rc_zs = (\<lambda>c s. (Inr [(1, VStr ''a''), (2, VStr ''b'')], s)), rc_geos = (\<lambda>c s. (Inr [], s)),
     rc_pubsub = None, rc_publishes = True\<rparr>"

theorem view_keys_prefixed_witness:
  "truncateKey (NewRedisView ''app'') (expandKey (NewRedisView ''app'') ''user:7'') = ''user:7'' \<and>
   list_all (in_view (NewRedisView ''app'')) (sent (\<lambda>c. view_Get c (NewRedisView ''app'') ''user:7'') echo_redis ())"
proof -
  have p: "CHR '':'' \<notin> set (rv_prefix (NewRedisView ''app''))" by (simp add: NewRedisView_def)
  show ?thesis
    using view_keys_prefixed[OF p, where k = "''user:7''" and rc = echo_redis and s = "()"] by blast
qed

text \<open>The merging operations, \<open>ZRangeByLex\<close> and \<open>ZIncrNX\<close> leave the view: the destination, and for sorted sets
  all keys, are sent without the prefix, so the result is stored under a key that no reading operation on the
  same name reads.\<close>

theorem merges_leave_view:
  "sent (\<lambda>c. SDiffMerge c r dst ks) rc s = [RCmd ''SDiffStore'' (dst # map (expandKey r) ks) []] \<and>
   sent (\<lambda>c. SInterMerge c r dst ks) rc s = [RCmd ''SInterStore'' (dst # map (expandKey r) ks) []] \<and>
   sent (\<lambda>c. SUnionMerge c r dst ks) rc s = [RCmd ''SUnionStore'' (dst # map (expandKey r) ks) []] \<and>
   map cmd_keys (sent (\<lambda>c. ZInterMerge c r dst ks ws agg) rc s) = [dst # ks] \<and>
   map cmd_keys (sent (\<lambda>c. ZUnionMerge c r dst ks ws agg) rc s) = [dst # ks] \<and>
   map cmd_keys (sent (\<lambda>c. ZIncrNX c r dst z) rc s) = [[dst]] \<and>
   map cmd_keys (sent (\<lambda>c. ZRangeByLex c r dst rb rv) rc s) = replicate (if rv then 2 else 1) [dst] \<and>
   map cmd_keys (sent (\<lambda>c. SLen c r dst) rc s) = [[expandKey r dst]] \<and> expandKey r dst \<noteq> dst"
proof (intro conjI)
  show "map cmd_keys (sent (\<lambda>c. ZRangeByLex c r dst rb rv) rc s) = replicate (if rv then 2 else 1) [dst]"
  proof (cases rv)
    case True
    have "snd (snd (rc_strs (logged rc) c w)) = snd w @ [c]" for c w by (cases w) simp
    with True show ?thesis by (simp add: sent_def ZRangeByLex_def Let_def split_beta numeral_2_eq_2)
  qed (simp add: sent_def ZRangeByLex_def Let_def split_beta)
qed (simp_all add: sent_def SDiffMerge_def SInterMerge_def SUnionMerge_def ZInterMerge_def ZUnionMerge_def ZIncrNX_def SLen_def,
    simp add: expandKey_def RedisKeySep_def)

text \<open>\<open>ZRange\<close> with both flags does not answer the reversed list with its scores: it answers the reversed
  members without scores followed by the ascending list with scores, every member twice. With one flag or none the
  answer is the list asked for.\<close>

theorem zrange_flags:
  assumes "\<And>c s. rc_strs rc c s = (Inr (strs c), s)" "\<And>c s. rc_zs rc c s = (Inr (zs c), s)"
  shows "fst (ZRange rc r k i j rv ws s) = Inr
    (let cmd = (\<lambda>m. RCmd m [expandKey r k] [AInt i, AInt j]);
         plain = map (\<lambda>m. \<lparr>zm_Score = 0, zm_Member = m\<rparr>);
         scored = map (\<lambda>(x, v). \<lparr>zm_Score = x, zm_Member = member_bytes v\<rparr>)
     in if rv \<and> ws then plain (strs (cmd ''ZRevRange'')) @ scored (zs (cmd ''ZRangeWithScores''))
        else if rv then plain (strs (cmd ''ZRevRange''))
        else if ws then scored (zs (cmd ''ZRangeWithScores''))
        else plain (strs (cmd ''ZRange'')))"
  by (cases rv; cases ws) (simp_all add: ZRange_def range_calls_def assigned_def toRangeZMembers_def assms Let_def)

theorem zrange_flags_witness:
  "fst (ZRange echo_redis (NewRedisView ''app'') ''z'' 0 (- 1) True True ()) =
     Inr [\<lparr>zm_Score = 0, zm_Member = ''b''\<rparr>, \<lparr>zm_Score = 0, zm_Member = ''a''\<rparr>,
          \<lparr>zm_Score = 1, zm_Member = ''a''\<rparr>, \<lparr>zm_Score = 2, zm_Member = ''b''\<rparr>]"
  using zrange_flags[of echo_redis "\<lambda>c. [''b'', ''a'']" "\<lambda>c. [(1, VStr ''a''), (2, VStr ''b'')]"
      "NewRedisView ''app''" "''z''" 0 "- 1" True True "()"]
  by (simp add: echo_redis_def member_bytes_def)

text \<open>go-redis answers the values of \<open>HMGet\<close> as strings, or nil: the assertion to bytes then panics, so a call with
  a field never returns a value.\<close>

lemma HMGet_panics:
  assumes "rc_vals rc (RCmd ''HMGet'' [expandKey r k] (map AStr fs)) s = (Inr vs, s')" "v \<in> set vs" "\<nexists>b. v = VBytes b"
  shows "HMGet rc r k fs s = (Panicked, s')"
proof -
  have "assert_bytes vs = Panicked" using assms(2,3)
  proof (induction vs)
    case (Cons x vs)
    then show ?case by (cases x) auto
  qed simp
  with assms(1) show ?thesis by (simp add: HMGet_def)
qed

text \<open>\<open>LInsert\<close> sends a control character where Redis expects \<open>BEFORE\<close> or \<open>AFTER\<close>.\<close>

lemma LInsert_op: "insert_op_string iop \<noteq> ''BEFORE'' \<and> insert_op_string iop \<noteq> ''AFTER''"
  by (cases iop) (simp_all add: insert_op_string_def)

end
