(* ===== verification/Once_Init.thy ===== *)
theory Once_Init
  imports Go_Prelude
begin

section \<open>Initialisation under \<open>sync.Once\<close>\<close>

text \<open>
  Nine packages create their singleton under a \<open>sync.Once\<close>: \<open>conf\<close>, \<open>databases\<close>, \<open>redis\<close>, \<open>nats\<close>, \<open>register\<close>, \<open>logs\<close>,
  \<open>i18n\<close>, \<open>mongodb\<close> and \<open>clickhouse\<close>; \<open>ServiceGroup.Stop\<close> uses one too. The once is spent by a call that panics too. The interface they share is stated here once: \<open>finished\<close> says that the
  once is spent, \<open>attempt\<close> is one call with its answer. The components interpret it with their own accessors.
\<close>

fun call_times :: "('st \<Rightarrow> 'r outcome \<times> 'st) \<Rightarrow> nat \<Rightarrow> 'st \<Rightarrow> 'r outcome list \<times> 'st" where
  "call_times attempt 0 st = ([], st)"
| "call_times attempt (Suc n) st = (let (r, st) = attempt st; (rs, st) = call_times attempt n st in (r # rs, st))"

definition panics :: "'r outcome list \<Rightarrow> nat" where
  "panics rs = length (filter (\<lambda>r. r = Panicked) rs)"

text \<open>Calls each of whose panics uses something up panic at most that often.\<close>

lemma panics_bounded:
  assumes "\<And>st r st'. attempt st = (r, st') \<Longrightarrow> rank st' + (if r = Panicked then 1 else 0) \<le> (rank st :: nat)"
  shows "panics (fst (call_times attempt n st)) \<le> rank st"
proof (induction n arbitrary: st)
  case (Suc n)
  obtain r st1 where a: "attempt st = (r, st1)" by fastforce
  then show ?case using Suc[of st1] assms[OF a] by (auto simp: panics_def split_beta)
qed (simp add: panics_def)

locale once_init =
  fixes finished :: "'st \<Rightarrow> bool" and attempt :: "'st \<Rightarrow> 'r outcome \<times> 'st"
  assumes finished_stable: "finished st \<Longrightarrow> snd (attempt st) = st"
    and unfinished_step: "\<not> finished st \<Longrightarrow> attempt st = (r, st') \<Longrightarrow> finished st' \<or> st' = st"
begin

lemma call_times_finished: "finished st \<Longrightarrow> call_times attempt n st = (replicate n (fst (attempt st)), st)"
proof (induction n)
  case (Suc n)
  then have "attempt st = (fst (attempt st), st)" using finished_stable[OF Suc.prems] by (metis prod.collapse)
  with Suc show ?case by (metis (no_types, lifting) call_times.simps(2) case_prod_conv replicate_Suc)
qed simp

lemma call_times_stuck:
  assumes "attempt st = (r, st)"
  shows "call_times attempt n st = (replicate n r, st)"
  using assms by (induction n) simp_all

text \<open>The state after any number of calls is the state after the first one.\<close>

lemma first_call_decides: "snd (call_times attempt (Suc n) st) = snd (attempt st)"
proof -
  obtain r st1 where a: "attempt st = (r, st1)" by fastforce
  have "snd (call_times attempt n st1) = st1"
  proof (cases "finished st1")
    case True
    then show ?thesis by (simp add: call_times_finished)
  next
    case False
    with a have "st1 = st" using unfinished_step[of st] finished_stable[of st] by fastforce
    with a show ?thesis by (simp add: call_times_stuck)
  qed
  with a show ?thesis by (simp add: split_beta)
qed

end

text \<open>Singletons that panic only in the call that spends the once.\<close>

locale once_quiet = once_init +
  assumes finished_quiet: "finished st \<Longrightarrow> fst (attempt st) \<noteq> Panicked"
    and panic_finishes: "attempt st = (Panicked, st') \<Longrightarrow> finished st'"
begin

lemma at_most_one_panic: "panics (fst (call_times attempt n st)) \<le> 1"
proof (cases n)
  case (Suc m)
  obtain r st1 where a: "attempt st = (r, st1)" by fastforce
  have none: "panics (fst (call_times attempt m st1)) = 0" if "r = Panicked \<or> finished st1"
  proof -
    have "finished st1" using that panic_finishes[of st st1] a by auto
    then show ?thesis by (simp add: call_times_finished panics_def finished_quiet)
  qed
  show ?thesis
  proof (cases "r = Panicked \<or> finished st1")
    case True
    with none Suc a show ?thesis by (simp add: split_beta panics_def)
  next
    case False
    with a have "st1 = st" using unfinished_step[of st] finished_stable[of st] by fastforce
    with a False Suc show ?thesis by (simp add: call_times_stuck panics_def split_beta)
  qed
qed (simp add: panics_def)

end

end
