(* ===== verification/Redis_Notify.thy ===== *)
theory Redis_Notify
  imports Redis_View Once_Init
begin

section \<open>Delayed notifications and the Redis manager\<close>

text \<open>
  Models \<open>redis_notification.go\<close>, \<open>redis_cmd.go\<close> and \<open>redis_manager.go\<close> of the package \<open>redis\<close>. A notification is a
  key whose time to live is the delay: when Redis reports its expiry, the subscriber takes the payload out of the
  name of the channel, locks the value, calls the handler and writes the key again with the next delay. The
  standard library's \<open>time.ParseDuration\<close> and \<open>Duration.String\<close> are modelled here, with exact arithmetic for
  fractions.
\<close>

subsection \<open>Durations as text\<close>

definition unit_of :: "string \<Rightarrow> int option" where
  "unit_of u =
     (if u = ''ns'' then Some 1
      else if u \<in> {''us'', [CHR 0xC2, CHR 0xB5, CHR ''s''], [CHR 0xCE, CHR 0xBC, CHR ''s'']} then Some 1000
      else if u = ''ms'' then Some 1000000
      else if u = ''s'' then Some 1000000000
      else if u = ''m'' then Some 60000000000
      else if u = ''h'' then Some 3600000000000
      else None)"

definition numeric_char :: "char \<Rightarrow> bool" where
  "numeric_char c = (c = CHR ''.'' \<or> is_digit c)"

text \<open>The fraction after a dot, as a multiple of the unit, rounded down.\<close>

definition fraction_of :: "string \<Rightarrow> int \<Rightarrow> int" where
  "fraction_of ds unit = (int (digits_value ds) * unit) div 10 ^ length ds"

definition split_fraction :: "string \<Rightarrow> string \<times> string" where
  "split_fraction s =
     (if s \<noteq> [] \<and> hd s = CHR ''.'' then (takeWhile is_digit (tl s), dropWhile is_digit (tl s)) else ([], s))"

text \<open>One number with its unit: the value in nanoseconds and the rest of the text.\<close>

definition duration_segment :: "string \<Rightarrow> (int \<times> string) option" where
  "duration_segment s =
     (let ds = takeWhile is_digit s; s = dropWhile is_digit s;
          (fs, s) = split_fraction s;
          u = takeWhile (\<lambda>c. \<not> numeric_char c) s; s = dropWhile (\<lambda>c. \<not> numeric_char c) s;
          v = int (digits_value ds)
      in if v > 2 ^ 63 \<or> (ds = [] \<and> fs = []) \<or> u = [] then None
         else case unit_of u of
           None \<Rightarrow> None
         | Some unit \<Rightarrow>
             if v > 2 ^ 63 div unit then None
             else let v = v * unit + fraction_of fs unit
                  in if v > 2 ^ 63 then None else Some (v, s))"

lemma duration_segment_shorter: "duration_segment s = Some (v, r) \<Longrightarrow> length r < length s"
proof -
  have le: "length (dropWhile P xs) \<le> length xs" for P :: "char \<Rightarrow> bool" and xs by (rule length_dropWhile_le)
  have lt: "takeWhile P xs \<noteq> [] \<Longrightarrow> length (dropWhile P xs) < length xs" for P :: "char \<Rightarrow> bool" and xs
    by (metis append_self_conv2 length_append length_greater_0_conv less_add_same_cancel2 takeWhile_dropWhile_id)
  assume a: "duration_segment s = Some (v, r)"
  let ?s1 = "dropWhile is_digit s"
  obtain fs s2 where s2: "split_fraction ?s1 = (fs, s2)" by fastforce
  then have "length s2 \<le> length ?s1"
    using le[of is_digit "tl ?s1"] by (auto simp: split_fraction_def split: if_splits)
  moreover have "r = dropWhile (\<lambda>c. \<not> numeric_char c) s2 \<and> takeWhile (\<lambda>c. \<not> numeric_char c) s2 \<noteq> []"
    using a s2 unfolding duration_segment_def Let_def by (auto split: option.splits if_splits)
  ultimately show ?thesis using lt[of "\<lambda>c. \<not> numeric_char c" s2] le[of is_digit s] by auto
qed

function duration_loop :: "int \<Rightarrow> string \<Rightarrow> int option" where
  "duration_loop d s =
     (if s = [] then Some d
      else case duration_segment s of
             None \<Rightarrow> None
           | Some (v, r) \<Rightarrow> if d + v > 2 ^ 63 then None else duration_loop (d + v) r)"
  by pat_completeness auto
termination
  by (relation "measure (\<lambda>(d, s). length s)") (auto dest: duration_segment_shorter)

declare duration_loop.simps [simp del]

definition ParseDuration :: "string \<Rightarrow> string + duration" where
  "ParseDuration s =
     (let neg = (s \<noteq> [] \<and> hd s = CHR ''-'');
          r = (if s \<noteq> [] \<and> (hd s = CHR ''-'' \<or> hd s = CHR ''+'') then tl s else s)
      in if r = ''0'' then Inr 0
         else if r = [] then Inl ''time: invalid duration''
         else case duration_loop 0 r of
           None \<Rightarrow> Inl ''time: invalid duration''
         | Some d \<Rightarrow> if neg then Inr (- d) else if d > 2 ^ 63 - 1 then Inl ''time: invalid duration'' else Inr d)"

definition frac_digits :: "nat \<Rightarrow> nat \<Rightarrow> string" where
  "frac_digits v prec =
     (let ds = nat_digits v; ds = replicate (prec - length ds) (CHR ''0'') @ ds;
          ds = rev (dropWhile (\<lambda>c. c = CHR ''0'') (rev ds))
      in if v = 0 then [] else CHR ''.'' # ds)"

definition Duration_String :: "duration \<Rightarrow> string" where
  "Duration_String d =
     (let u = nat \<bar>d\<bar>; sign = (if d < 0 then ''-'' else '''')
      in if u = 0 then ''0s''
         else if u < 1000 then sign @ nat_digits u @ ''ns''
         else if u < 1000000 then sign @ nat_digits (u div 1000) @ frac_digits (u mod 1000) 3 @ [CHR 0xC2, CHR 0xB5, CHR ''s'']
         else if u < 1000000000 then sign @ nat_digits (u div 1000000) @ frac_digits (u mod 1000000) 6 @ ''ms''
         else let f = frac_digits (u mod 1000000000) 9; u = u div 1000000000
              in sign @
                 (if u div 3600 > 0 then nat_digits (u div 3600) @ ''h'' else '''') @
                 (if u div 60 > 0 then nat_digits (u div 60 mod 60) @ ''m'' else '''') @
                 nat_digits (u mod 60) @ f @ ''s'')"


subsection \<open>Payloads\<close>

record Payload =
  pl_count :: int
  pl_Value :: string

definition encodePayload :: "Payload \<Rightarrow> string" where
  "encodePayload p = pl_Value p @ ''||'' @ itoa (pl_count p)"

text \<open>\<open>strconv.ParseInt(s, 10, 32)\<close> with its error ignored: 0 for a syntax error, the nearest bound out of range.\<close>

definition parse_int32 :: "string \<Rightarrow> int" where
  "parse_int32 s =
     (let neg = (s \<noteq> [] \<and> hd s = CHR ''-'');
          ds = (if s \<noteq> [] \<and> (hd s = CHR ''-'' \<or> hd s = CHR ''+'') then tl s else s);
          v = int (digits_value ds)
      in if ds = [] \<or> \<not> list_all is_digit ds then 0
         else if neg then max (- v) (- (2 ^ 31)) else min v (2 ^ 31 - 1))"

definition decodePayload :: "string \<Rightarrow> string + Payload" where
  "decodePayload s =
     (let ss = go_split '':'' s
      in if length ss < 2 then Inl (''illegal payload: '' @ s)
         else let ss = drop 1 ss; retryS = ss ! (length ss - 1); rss = go_split ''||'' retryS
              in if length rss < 2 then Inl (''illegal payload: '' @ s)
                 else Inr \<lparr>pl_count = parse_int32 (rss ! 1), pl_Value = rss ! 0\<rparr>)"

subsection \<open>The notification\<close>

record notification =
  nt_key :: string
  nt_node :: string
  nt_policies :: "duration list"

definition Minute :: duration where "Minute = 60 * Second"

definition DefaultRetryPolicies :: "duration list" where
  "DefaultRetryPolicies = [Minute * 1, Minute * 5, Minute * 10, Minute * 30, Minute * 60, Minute * 120]"

text \<open>\<open>has_cache\<close>: the view given is not nil. A nil slice of policies is \<^term>\<open>None\<close>.\<close>

definition NewNotification :: "string \<Rightarrow> string \<Rightarrow> bool \<Rightarrow> duration list option \<Rightarrow> notification option" where
  "NewNotification node key has_cache policies =
     (if node = '''' \<or> key = '''' \<or> \<not> has_cache then None
      else Some \<lparr>nt_key = key, nt_node = node,
             nt_policies = (case policies of None \<Rightarrow> DefaultRetryPolicies | Some ps \<Rightarrow> ps)\<rparr>)"

definition retryKeyPrefix :: string where "retryKeyPrefix = ''retry''"

definition retry_key :: "notification \<Rightarrow> string \<Rightarrow> string" where
  "retry_key n v = retryKeyPrefix @ ''-'' @ nt_key n @ '':'' @ v"

text \<open>The index into the policies panics out of range.\<close>

definition PutNotification :: "'s redis_cmd \<Rightarrow> redisView \<Rightarrow> notification \<Rightarrow> Payload \<Rightarrow> 's \<Rightarrow> unit outcome \<times> 's" where
  "PutNotification rc r n p s =
     (case go_index (nt_policies n) (pl_count p) of
        None \<Rightarrow> (Panicked, s)
      | Some d \<Rightarrow> (Returned (), snd (view_Set ParseDuration rc r (retry_key n (encodePayload p)) [CHR 0x01] (Duration_String d) s)))"

text \<open>\<open>getRoutineID\<close> reads the number of the goroutine from the first bytes of its stack trace; without a space the slice
  expression panics. The error of \<open>ParseUint\<close> is dropped: the value is then 0, or the largest number.\<close>

definition getRoutineID :: "string \<Rightarrow> nat option" where
  "getRoutineID stack =
     (let b = (if prefix ''goroutine '' stack then drop 10 stack else stack);
          num = takeWhile (\<lambda>ch. ch \<noteq> CHR '' '') b
      in if CHR '' '' \<notin> set b then None
         else Some (if num = [] \<or> \<not> list_all is_digit num then 0 else min (digits_value num) (2 ^ 64 - 1)))"

text \<open>\<open>rid\<close> is the number of the goroutine.\<close>

definition lock_value :: "notification \<Rightarrow> nat \<Rightarrow> string" where
  "lock_value n rid = nt_node n @ ''-'' @ nat_digits rid"

definition notification_lock :: "'s redis_cmd \<Rightarrow> redisView \<Rightarrow> nat \<Rightarrow> notification \<Rightarrow> Payload \<Rightarrow> 's \<Rightarrow> bool \<times> 's" where
  "notification_lock rc r rid n p s =
     (let setKey = retry_key n (pl_Value p); v = lock_value n rid;
          (ret, s) = SetNX ParseDuration rc r setKey v ''0'' s
      in if ret = Inr True then (True, s)
         else let (rval, s) = view_Get rc r setKey s
              in (v = (case rval of Inl _ \<Rightarrow> '''' | Inr t \<Rightarrow> t), s))"

definition notification_unlock :: "'s redis_cmd \<Rightarrow> redisView \<Rightarrow> notification \<Rightarrow> Payload \<Rightarrow> 's \<Rightarrow> 's" where
  "notification_unlock rc r n p s = snd (Del rc r [retry_key n (pl_Value p)] s)"

text \<open>One turn of the goroutine of \<open>Subscribe\<close> with a received message; the result names the branch taken.\<close>

datatype turn = Ignored | NotLocked | Retried Payload | Released Payload | Crashed

definition notification_turn ::
  "'s redis_cmd \<Rightarrow> redisView \<Rightarrow> nat \<Rightarrow> notification \<Rightarrow> (Payload \<Rightarrow> 's \<Rightarrow> bool outcome \<times> 's) \<Rightarrow> string \<Rightarrow> string \<Rightarrow> 's \<Rightarrow> turn \<times> 's" where
  "notification_turn rc r rid n handler channel message s =
     (if message \<noteq> ''expired'' then (Ignored, s)
      else case decodePayload channel of
        Inl _ \<Rightarrow> (Ignored, s)
      | Inr payload \<Rightarrow>
          (let payload = payload\<lparr>pl_count := pl_count payload + 1\<rparr>;
               (locked, s) = notification_lock rc r rid n payload s
           in if \<not> locked then (NotLocked, s)
              else case handler payload s of
                (Panicked, s) \<Rightarrow> (Crashed, s)
              | (Returned putNext, s) \<Rightarrow>
                  (let more = (putNext \<and> pl_count payload < int (length (nt_policies n)));
                       (res, s) = (if more then PutNotification rc r n payload s else (Returned (), s))
                   in if res = Panicked then (Crashed, s)
                      else if \<not> putNext \<or> (putNext \<and> pl_count payload \<ge> int (length (nt_policies n)))
                        then (Released payload, notification_unlock rc r n payload s)
                      else (Retried payload, s))))"

definition notification_pattern :: "redisView \<Rightarrow> notification \<Rightarrow> string" where
  "notification_pattern r n = ''__key*__:'' @ KeyPrefix r @ '':'' @ retryKeyPrefix @ ''-'' @ nt_key n @ ''*''"

text \<open>\<open>Subscribe\<close> with the messages its goroutine receives; \<open>None\<close> is a failing \<open>ReceiveMessage\<close>.\<close>

fun notification_loop ::
  "'s redis_cmd \<Rightarrow> redisView \<Rightarrow> nat \<Rightarrow> notification \<Rightarrow> (Payload \<Rightarrow> 's \<Rightarrow> bool outcome \<times> 's) \<Rightarrow> (string \<times> string) option list \<Rightarrow> 's \<Rightarrow>
     turn list \<times> 's" where
  "notification_loop rc r rid n handler [] s = ([], s)"
| "notification_loop rc r rid n handler (None # ms) s = notification_loop rc r rid n handler ms s"
| "notification_loop rc r rid n handler (Some (channel, message) # ms) s =
     (case notification_turn rc r rid n handler channel message s of
        (Crashed, s) \<Rightarrow> ([Crashed], s)
      | (t, s) \<Rightarrow> (let (ts, s) = notification_loop rc r rid n handler ms s in (t # ts, s)))"

definition notification_Subscribe where
  "notification_Subscribe rc r rid n handler ms s =
     (case PSubscribe rc r [notification_pattern r n] s of
        (Inl err, s) \<Rightarrow> (Some err, [], s)
      | (Inr _, s) \<Rightarrow> (let (ts, s) = notification_loop rc r rid n handler ms s in (None, ts, s)))"

subsection \<open>Clients and the manager\<close>

record redis_Config =
  rg_Name :: string
  rg_Addrs :: "string list"
  rg_DbIndex :: int
  rg_ReadOnly :: bool
  rg_PoolSize :: int
  rg_PoolTimeout :: duration
  rg_UseCluster :: bool

datatype redis_client =
    ClusterClient "string list" bool int duration
  | SingleClient string int int duration

text \<open>\<open>NewRedisCmd\<close>: the addresses, the pool and the kind of client; password, timeouts and TLS are copied.\<close>

definition NewRedisCmd :: "redis_Config \<Rightarrow> string + redis_client" where
  "NewRedisCmd c =
     (if length (rg_Addrs c) = 0 then Inl ''redis addrs is empty''
      else let poolSize = (if rg_PoolSize c \<le> 0 then 10 else rg_PoolSize c);
               poolTimeout = (if rg_PoolTimeout c \<le> 0 then 4 * Second else rg_PoolTimeout c)
           in Inr (if rg_UseCluster c then ClusterClient (rg_Addrs c) (rg_ReadOnly c) poolSize poolTimeout
                   else SingleClient (rg_Addrs c ! 0) (rg_DbIndex c) poolSize poolTimeout))"

record redis_singletons =
  rs_config :: "redis_Config list"
  rs_once :: bool
  rs_manager :: "(string \<rightharpoonup> redis_client) option"
  rs_redisCon :: "redis_client option"

text \<open>\<open>Init\<close>: \<open>len\<close> is the length of the input, \<open>single\<close> and \<open>multiple\<close> what decoding it as one configuration and as
  a list gives.\<close>

definition redis_Init ::
  "nat \<Rightarrow> redis_Config option \<Rightarrow> redis_Config list option \<Rightarrow> redis_singletons \<Rightarrow> unit outcome \<times> redis_singletons" where
  "redis_Init len single multiple st =
     (if len = 0 then (Panicked, st)
      else case single of
        Some c \<Rightarrow>
          if rg_Name c \<noteq> '''' then (Returned (), st\<lparr>rs_config := [c]\<rparr>)
          else (case multiple of None \<Rightarrow> (Panicked, st) | Some cs \<Rightarrow> (Returned (), st\<lparr>rs_config := cs\<rparr>))
      | None \<Rightarrow> (case multiple of None \<Rightarrow> (Panicked, st) | Some cs \<Rightarrow> (Returned (), st\<lparr>rs_config := cs\<rparr>)))"

text \<open>The loop of \<open>ensureRedisInitialized\<close>; the default client is set with index 0.\<close>

fun create_clients ::
  "nat \<Rightarrow> redis_Config list \<Rightarrow> redis_client option \<Rightarrow> (string \<rightharpoonup> redis_client) \<Rightarrow>
     unit outcome \<times> redis_client option \<times> (string \<rightharpoonup> redis_client)" where
  "create_clients index [] con m = (Returned (), con, m)"
| "create_clients index (cfg # cfgs) con m =
     (case NewRedisCmd cfg of
        Inl err \<Rightarrow> (Panicked, con, m)
      | Inr cli \<Rightarrow>
          create_clients (Suc index) cfgs (if index = 0 then Some cli else con) (m(rg_Name cfg \<mapsto> cli)))"

definition ensureRedisInitialized :: "redis_singletons \<Rightarrow> unit outcome \<times> redis_singletons" where
  "ensureRedisInitialized st =
     (if length (rs_config st) = 0 then (Returned (), st)
      else if rs_once st then (Returned (), st)
      else case create_clients 0 (rs_config st) (rs_redisCon st) Map.empty of
        (Panicked, con, m) \<Rightarrow> (Panicked, st\<lparr>rs_once := True, rs_redisCon := con\<rparr>)
      | (Returned _, con, m) \<Rightarrow> (Returned (), st\<lparr>rs_once := True, rs_redisCon := con, rs_manager := Some m\<rparr>))"

definition GetRedisManager :: "redis_singletons \<Rightarrow> (string \<rightharpoonup> redis_client) outcome \<times> redis_singletons" where
  "GetRedisManager st =
     (case ensureRedisInitialized st of
        (Panicked, st) \<Rightarrow> (Panicked, st)
      | (Returned _, st) \<Rightarrow> (Returned (case rs_manager st of None \<Rightarrow> Map.empty | Some m \<Rightarrow> m), st))"

definition GetRedisDb :: "redis_singletons \<Rightarrow> redis_client option outcome \<times> redis_singletons" where
  "GetRedisDb st =
     (case ensureRedisInitialized st of
        (Panicked, st) \<Rightarrow> (Panicked, st) | (Returned _, st) \<Rightarrow> (Returned (rs_redisCon st), st))"

definition GetRedisCmd :: "(string \<rightharpoonup> redis_client) \<Rightarrow> string \<Rightarrow> redis_client option" where
  "GetRedisCmd m name = m name"

definition GetRedisView :: "(string \<rightharpoonup> redis_client) \<Rightarrow> string \<Rightarrow> string \<Rightarrow> (redis_client \<times> redisView) option" where
  "GetRedisView m name pre = map_option (\<lambda>c. (c, NewRedisView pre)) (m name)"


section \<open>Lemmas\<close>

subsection \<open>Durations\<close>

lemma takeWhile_digits:
  assumes "rest = [] \<or> \<not> is_digit (hd rest)"
  shows "takeWhile is_digit (nat_digits n @ rest) = nat_digits n" "dropWhile is_digit (nat_digits n @ rest) = rest"
proof -
  have all: "\<And>c. c \<in> set (nat_digits n) \<Longrightarrow> is_digit c" using nat_digits_all_digits by (auto simp: list_all_iff)
  show "takeWhile is_digit (nat_digits n @ rest) = nat_digits n" "dropWhile is_digit (nat_digits n @ rest) = rest"
    using assms all by (cases rest; simp add: takeWhile_append dropWhile_append3)+
qed

text \<open>The units of whole seconds: one letter.\<close>

lemma duration_segment_unit:
  assumes "unit_of [c] = Some unit" "\<not> numeric_char c" "0 < unit" "int n * unit \<le> 2 ^ 63"
    "rest = [] \<or> is_digit (hd rest)"
  shows "duration_segment (nat_digits n @ c # rest) = Some (int n * unit, rest)"
proof -
  have nd: "\<not> is_digit c" "c \<noteq> CHR ''.''" using assms(2) by (auto simp: numeric_char_def)
  have d: "takeWhile is_digit (nat_digits n @ c # rest) = nat_digits n" "dropWhile is_digit (nat_digits n @ c # rest) = c # rest"
    using takeWhile_digits[of "c # rest" n] nd(1) by simp_all
  have u: "takeWhile (\<lambda>c. \<not> numeric_char c) rest = []" "dropWhile (\<lambda>c. \<not> numeric_char c) rest = rest"
    using assms(5) by (cases rest; simp add: numeric_char_def)+
  have f: "split_fraction (c # rest) = ([], c # rest)" using nd(2) by (simp add: split_fraction_def)
  have "int n \<le> int n * unit" using assms(3) by (simp add: mult_le_cancel_left1)
  then have v: "int n \<le> 2 ^ 63" using assms(4) by linarith
  have "int n * unit div unit \<le> 2 ^ 63 div unit" using assms(3,4) by (intro zdiv_mono1)
  with assms(3) have w: "int n \<le> 2 ^ 63 div unit" by simp
  show ?thesis
    using v w assms(1,2,4) by (simp add: duration_segment_def d f u fraction_of_def digits_value_def[of "[]"])
qed

lemma duration_loop_unit:
  assumes "unit_of [c] = Some unit" "\<not> numeric_char c" "0 < unit" "0 \<le> d" "d + int n * unit \<le> 2 ^ 63"
    "rest = [] \<or> is_digit (hd rest)"
  shows "duration_loop d (nat_digits n @ c # rest) = duration_loop (d + int n * unit) rest"
proof -
  have "int n * unit \<le> 2 ^ 63" using assms(4,5) by linarith
  from duration_segment_unit[OF assms(1-3) this assms(6)] assms(5) show ?thesis
    by (subst duration_loop.simps) simp
qed

lemma duration_units:
  "unit_of ''h'' = Some 3600000000000" "unit_of ''m'' = Some 60000000000" "unit_of ''s'' = Some 1000000000"
  "\<not> numeric_char (CHR ''h'')" "\<not> numeric_char (CHR ''m'')" "\<not> numeric_char (CHR ''s'')"
  by (simp_all add: unit_of_def numeric_char_def is_digit_def)

lemma hd_nat_digits [simp]: "is_digit (hd (nat_digits n))" "is_digit (hd (nat_digits n @ xs))"
  using nat_digits_all_digits[of n] by (cases "nat_digits n"; auto)+

lemma frac_digits_0 [simp]: "frac_digits 0 p = []"
  by (simp add: frac_digits_def)

lemma ParseDuration_digits:
  assumes "is_digit (hd s)" "s \<noteq> []" "s \<noteq> ''0''" "duration_loop 0 s = Some d" "d < 2 ^ 63"
  shows "ParseDuration s = Inr d"
proof -
  have "hd s \<noteq> CHR ''-''" "hd s \<noteq> CHR ''+''" using assms(1) digit_not_sign by auto
  with assms show ?thesis by (simp add: ParseDuration_def Let_def)
qed

lemma duration_roundtrip_seconds:
  assumes "int n * Second < 2 ^ 63"
  shows "ParseDuration (Duration_String (int n * Second)) = Inr (int n * Second)"
proof (cases "n = 0")
  case True
  have "digit_char 0 = CHR ''0''" using char_of_char[of "CHR ''0''", where ?'a = nat] by (simp add: digit_char_def)
  then have "duration_loop 0 ''0s'' = Some 0"
    using duration_loop_unit[OF duration_units(3,6), of 0 0 "[]"] by (simp add: nat_digits.simps duration_loop.simps[of _ "[]"])
  with True show ?thesis by (simp add: Duration_String_def ParseDuration_digits is_digit_def)
next
  case False
  let ?h = "n div 3600" and ?m = "n div 60 mod 60" and ?s = "n mod 60"
  let ?S = "nat_digits ?s @ ''s''"
  let ?M = "(if n div 60 > 0 then nat_digits ?m @ ''m'' else '''') @ ?S"
  let ?H = "(if ?h > 0 then nat_digits ?h @ ''h'' else '''') @ ?M"
  have bound: "int n * 1000000000 < 2 ^ 63" using assms by (simp add: Second_def)
  have h: "?h = n div 60 div 60" using div_mult2_eq[of n 60 60] by simp
  have "?h * 60 + ?m = n div 60" "n div 60 * 60 + ?s = n" unfolding h by (rule div_mult_mod_eq)+
  moreover have "int h * 3600000000000 + int m * 60000000000 + int s * 1000000000 = int n * 1000000000"
    if "h * 60 + m = k" "k * 60 + s = n" for h m s k :: nat
    using that by auto
  ultimately have sum: "int ?h * 3600000000000 + int ?m * 60000000000 + int ?s * 1000000000 = int n * 1000000000"
    by blast
  have S: "duration_loop d ?S = Some (d + int ?s * 1000000000)" if "0 \<le> d" "d + int ?s * 1000000000 \<le> 2 ^ 63" for d
    using duration_loop_unit[OF duration_units(3,6) _ that, of "[]"] by (simp add: duration_loop.simps[of _ "[]"])
  have M: "duration_loop d ?M = Some (d + int ?m * 60000000000 + int ?s * 1000000000)"
    if "0 \<le> d" "d + int ?m * 60000000000 + int ?s * 1000000000 \<le> 2 ^ 63" for d
  proof (cases "n div 60 > 0")
    case True
    have "duration_loop d ?M = duration_loop (d + int ?m * 60000000000) ?S"
      using True duration_loop_unit[OF duration_units(2,5), of d ?m ?S] that by (simp add: hd_nat_digits)
    with that S show ?thesis by simp
  qed (use that S in simp)
  have digit: "is_digit (hd ?M)" by (simp add: hd_nat_digits)
  have "duration_loop 0 ?H = Some (int n * 1000000000)"
  proof (cases "?h > 0")
    case True
    have "duration_loop 0 ?H = duration_loop (int ?h * 3600000000000) ?M"
      using True duration_loop_unit[OF duration_units(1,4), of 0 ?h ?M] sum bound digit by simp
    with M[of "int ?h * 3600000000000"] sum bound show ?thesis by simp
  qed (use M[of 0] sum bound in simp)
  moreover have "is_digit (hd ?H)" using digit by (simp add: hd_nat_digits)
  moreover have "last ?H = CHR ''s''" "?H \<noteq> []" by simp_all
  moreover have "xs \<noteq> ''0''" if "last xs = CHR ''s''" for xs using that by auto
  moreover have "Duration_String (int n * Second) = ?H"
  proof -
    have "nat \<bar>int n * Second\<bar> = n * 1000000000" by (simp add: Second_def nat_mult_distrib)
    then show ?thesis using False by (simp add: Duration_String_def Let_def Second_def)
  qed
  ultimately show ?thesis using ParseDuration_digits[of ?H] bound by (metis Second_def)
qed


subsection \<open>Payloads in channel names\<close>

text \<open>A value that can be told apart from the count behind it.\<close>

definition plain_text_value :: "string \<Rightarrow> bool" where
  "plain_text_value v \<longleftrightarrow> CHR '':'' \<notin> set v \<and> \<not> sublist ''||'' (v @ ''|'')"

lemma go_split_last:
  assumes "c \<notin> set b"
  shows "go_split [c] (a @ c # b) = go_split [c] a @ [b]"
proof -
  let ?xs = "go_split [c] a"
  have "go_join [c] (xs @ [b]) = go_join [c] xs @ c # b" if "xs \<noteq> []" for xs
    using that
  proof (induction xs)
    case (Cons x xs)
    then show ?case by (cases xs) (simp_all add: go_join_Cons)
  qed simp
  then have "go_join [c] (?xs @ [b]) = a @ c # b" using go_join_split[of "[c]" a] by simp
  moreover have "go_split [c] (go_join [c] (?xs @ [b])) = ?xs @ [b]"
    using assms go_split_char_parts by (intro go_split_join_char) auto
  ultimately show ?thesis by simp
qed

lemma cut_bars:
  assumes "\<not> sublist ''||'' (v @ ''|'')"
  shows "cut ''||'' (v @ ''||'' @ r) = (v, Some r)"
  using assms
proof (induction v)
  case (Cons c v)
  have "\<not> prefix ''||'' (c # v @ ''|'')" using Cons.prems by (auto simp: sublist_Cons_right)
  then have "\<not> prefix ''||'' (c # v @ ''||'' @ r)" by (cases v) auto
  moreover have "\<not> sublist ''||'' (v @ ''|'')" using Cons.prems by (auto simp: sublist_Cons_right)
  ultimately show ?case using Cons.IH by simp
qed simp

lemma cut_bars_absent: "CHR ''|'' \<notin> set s \<Longrightarrow> cut ''||'' s = (s, None)"
  by (induction s) auto

lemma nat_digits_no_bar: "CHR ''|'' \<notin> set (nat_digits n)" "CHR '':'' \<notin> set (nat_digits n)"
  using nat_digits_all_digits[of n] by (auto simp: list_all_iff is_digit_def)

lemma split_encoded:
  assumes "plain_text_value v"
  shows "go_split ''||'' (v @ ''||'' @ nat_digits n) = [v, nat_digits n]"
proof -
  have "go_split ''||'' (nat_digits n) = [nat_digits n]"
    by (simp add: go_split_None cut_bars_absent nat_digits_no_bar)
  then show ?thesis
    using go_split_Some[OF _ cut_bars[of v "nat_digits n"]] assms by (simp add: plain_text_value_def)
qed

lemma parse_int32_digits: "int n < 2 ^ 31 \<Longrightarrow> parse_int32 (nat_digits n) = int n"
proof -
  assume n: "int n < 2 ^ 31"
  have "hd (nat_digits n) \<noteq> CHR ''-''" "hd (nat_digits n) \<noteq> CHR ''+''"
    using digit_not_sign hd_nat_digits(1) by metis+
  with n nat_digits_all_digits[of n] show ?thesis by (simp add: parse_int32_def Let_def)
qed

lemma decode_encode:
  assumes "plain_text_value (pl_Value p)" "0 \<le> pl_count p" "pl_count p < 2 ^ 31"
  shows "decodePayload (a @ '':'' @ encodePayload p) = Inr p"
proof -
  obtain n where n: "pl_count p = int n" using assms(2) by (metis nonneg_int_cases)
  have e: "encodePayload p = pl_Value p @ ''||'' @ nat_digits n" by (simp add: encodePayload_def n itoa_def)
  have "CHR '':'' \<notin> set (encodePayload p)"
    using assms(1) nat_digits_no_bar(2) by (auto simp: e plain_text_value_def)
  then have ss: "go_split '':'' (a @ '':'' @ encodePayload p) = go_split '':'' a @ [encodePayload p]"
    using go_split_last by simp
  obtain x xs where x: "go_split '':'' a = x # xs" by (metis go_split_nonempty list.exhaust)
  have "decodePayload (a @ '':'' @ encodePayload p) =
      Inr \<lparr>pl_count = parse_int32 (nat_digits n), pl_Value = pl_Value p\<rparr>"
    unfolding decodePayload_def ss x using split_encoded[OF assms(1), of n] by (simp add: e Let_def nth_append)
  with parse_int32_digits[of n] assms(3) n show ?thesis by simp
qed

subsection \<open>Locks and retries\<close>

text \<open>What is used of Redis: \<open>SETNX\<close> writes a free key only, \<open>GET\<close>, \<open>SET\<close> and \<open>DEL\<close> do what they say; \<open>expire\<close> is the
  expiry of a key.\<close>

definition kv_laws :: "'s redis_cmd \<Rightarrow> ('s \<Rightarrow> string \<rightharpoonup> string) \<Rightarrow> (string \<Rightarrow> 's \<Rightarrow> 's) \<Rightarrow> bool" where
  "kv_laws rc kv expire \<longleftrightarrow>
     (\<forall>k v s. fst (rc_bool rc (RCmd ''SetNX'' [k] [AStr v, ADur 0]) s) = Inr (kv s k = None) \<and>
        kv (snd (rc_bool rc (RCmd ''SetNX'' [k] [AStr v, ADur 0]) s)) = (if kv s k = None then (kv s)(k \<mapsto> v) else kv s)) \<and>
     (\<forall>k s. fst (rc_str rc (RCmd ''Get'' [k] []) s) = (case kv s k of None \<Rightarrow> Inl ''redis: nil'' | Some v \<Rightarrow> Inr v) \<and>
        kv (snd (rc_str rc (RCmd ''Get'' [k] []) s)) = kv s) \<and>
     (\<forall>k v d s. kv (snd (rc_str rc (RCmd ''Set'' [k] [AStr v, ADur d]) s)) = (kv s)(k \<mapsto> v)) \<and>
     (\<forall>k s. kv (snd (rc_int rc (RCmd ''Del'' [k] []) s)) = (kv s)(k := None)) \<and>
     (\<forall>k s. kv (expire k s) = (kv s)(k := None))"

definition lock_key :: "redisView \<Rightarrow> notification \<Rightarrow> string \<Rightarrow> string" where
  "lock_key r n v = expandKey r (retry_key n v)"

lemma ParseDuration_zero [simp]: "ParseDuration ''0'' = Inr 0"
  by (simp add: ParseDuration_def)

lemma lock_effect:
  assumes "kv_laws rc kv expire" "notification_lock rc r rid n p s = (ok, s')"
  shows "ok \<longleftrightarrow> kv s (lock_key r n (pl_Value p)) \<in> {None, Some (lock_value n rid)}"
    and "kv s' = (if kv s (lock_key r n (pl_Value p)) = None
           then (kv s)(lock_key r n (pl_Value p) \<mapsto> lock_value n rid) else kv s)"
proof -
  let ?k = "lock_key r n (pl_Value p)" and ?v = "lock_value n rid"
  have ne: "?v \<noteq> ''''" by (simp add: lock_value_def)
  obtain x s1 where x: "rc_bool rc (RCmd ''SetNX'' [?k] [AStr ?v, ADur 0]) s = (x, s1)" by fastforce
  have x': "x = Inr (kv s ?k = None)" "kv s1 = (if kv s ?k = None then (kv s)(?k \<mapsto> ?v) else kv s)"
    using assms(1) x unfolding kv_laws_def by (metis fst_conv, metis snd_conv)
  obtain g s2 where g: "rc_str rc (RCmd ''Get'' [?k] []) s1 = (g, s2)" by fastforce
  have g': "g = (case kv s1 ?k of None \<Rightarrow> Inl ''redis: nil'' | Some v \<Rightarrow> Inr v)" "kv s2 = kv s1"
    using assms(1) g unfolding kv_laws_def by (metis fst_conv, metis snd_conv)
  have run: "notification_lock rc r rid n p s =
      (if kv s ?k = None then (True, s1) else (?v = (case g of Inl _ \<Rightarrow> '''' | Inr t \<Rightarrow> t), s2))"
    using x g by (simp add: notification_lock_def SetNX_def view_Get_def lock_key_def x' Let_def)
  show "ok \<longleftrightarrow> kv s ?k \<in> {None, Some ?v}"
    using run assms(2) g' x' ne by (auto split: if_splits option.splits)
  show "kv s' = (if kv s ?k = None then (kv s)(?k \<mapsto> ?v) else kv s)"
    using run assms(2) g' x' by (auto split: if_splits)
qed

lemma unlock_effect:
  "kv_laws rc kv expire \<Longrightarrow> kv (notification_unlock rc r n p s) = (kv s)(lock_key r n (pl_Value p) := None)"
  by (simp add: kv_laws_def notification_unlock_def Del_def lock_key_def)

lemma put_effect:
  assumes "kv_laws rc kv expire" "PutNotification rc r n p s = (res, s')"
  shows "kv s' k = kv s k \<or> k = lock_key r n (encodePayload p)"
    and "0 \<le> pl_count p \<Longrightarrow> pl_count p < int (length (nt_policies n)) \<Longrightarrow> res = Returned ()"
proof -
  have set: "kv (snd (rc_str rc (RCmd ''Set'' [x] [AStr v, ADur d]) s)) = (kv s)(x \<mapsto> v)" for x v d s
    using assms(1) by (simp add: kv_laws_def)
  have "kv (snd (view_Set ParseDuration rc r x v d s)) k = kv s k \<or> k = expandKey r x" for x v d
    using set[of "expandKey r x" v] unfolding view_Set_def Let_def
    by (auto split: sum.splits prod.splits) (metis fun_upd_apply snd_conv)+
  then show "kv s' k = kv s k \<or> k = lock_key r n (encodePayload p)"
    using assms(2) by (auto simp: PutNotification_def lock_key_def split: option.splits)
  show "0 \<le> pl_count p \<Longrightarrow> pl_count p < int (length (nt_policies n)) \<Longrightarrow> res = Returned ()"
    using assms(2) by (simp add: PutNotification_def go_index_in)
qed

lemma lock_key_encode [simp]: "lock_key r n (pl_Value p) \<noteq> lock_key r n (encodePayload p)"
  by (simp add: lock_key_def retry_key_def encodePayload_def)


text \<open>The life of one notification: its key expires, the subscriber takes its turn, and when it writes the key again
  the same happens with the next count. The result lists the payloads the handler was called with.\<close>

definition expiry_channel :: "redisView \<Rightarrow> notification \<Rightarrow> Payload \<Rightarrow> string" where
  "expiry_channel r n p = ''__keyspace@0__:'' @ lock_key r n (encodePayload p)"

fun retry_chain where
  "retry_chain rc r rid n handler expire 0 p s = ([], s)"
| "retry_chain rc r rid n handler expire (Suc f) p s =
     (let s = expire (lock_key r n (encodePayload p)) s
      in case notification_turn rc r rid n handler (expiry_channel r n p) ''expired'' s of
           (Retried p', s) \<Rightarrow> (let (ps, s) = retry_chain rc r rid n handler expire f p' s in (p' # ps, s))
         | (Released p', s) \<Rightarrow> ([p'], s)
         | (_, s) \<Rightarrow> ([], s))"

text \<open>The counts the handler sees when it answers \<open>ans\<close>, starting behind count \<open>c\<close>, with \<open>k\<close> delays left.\<close>

fun attempts :: "(int \<Rightarrow> bool) \<Rightarrow> nat \<Rightarrow> int \<Rightarrow> int list" where
  "attempts ans 0 c = []"
| "attempts ans (Suc k) c = (c + 1) # (if ans (c + 1) then attempts ans k (c + 1) else [])"

lemma expiry_channel_decodes:
  assumes "plain_text_value (pl_Value p)" "0 \<le> pl_count p" "pl_count p < 2 ^ 31"
  shows "decodePayload (expiry_channel r n p) = Inr p"
  using decode_encode[OF assms, of "''__keyspace@0__:'' @ rv_prefix r @ '':'' @ retryKeyPrefix @ ''-'' @ nt_key n"]
  by (simp add: expiry_channel_def lock_key_def expandKey_def RedisKeySep_def retry_key_def)

text \<open>A handler that returns its answer for the count and leaves the keys alone.\<close>

definition answers :: "('s \<Rightarrow> string \<rightharpoonup> string) \<Rightarrow> (Payload \<Rightarrow> 's \<Rightarrow> bool outcome \<times> 's) \<Rightarrow> (int \<Rightarrow> bool) \<Rightarrow> bool" where
  "answers kv h ans \<longleftrightarrow> (\<forall>p s. fst (h p s) = Returned (ans (pl_count p)) \<and> kv (snd (h p s)) = kv s)"

text \<open>One turn with a free or own lock.\<close>

lemma turn_effect:
  assumes laws: "kv_laws rc kv expire"
    and p: "plain_text_value (pl_Value p)" "0 \<le> pl_count p" "pl_count p < int (length (nt_policies n))" "int (length (nt_policies n)) < 2 ^ 31"
    and h: "answers kv h ans"
    and lock: "kv s (lock_key r n (pl_Value p)) \<in> {None, Some (lock_value n rid)}"
  shows "\<exists>s'. notification_turn rc r rid n h (expiry_channel r n p) ''expired'' s =
      (if ans (pl_count p + 1) \<and> pl_count p + 1 < int (length (nt_policies n))
       then Retried (p\<lparr>pl_count := pl_count p + 1\<rparr>) else Released (p\<lparr>pl_count := pl_count p + 1\<rparr>), s') \<and>
    kv s' (lock_key r n (pl_Value p)) =
      (if ans (pl_count p + 1) \<and> pl_count p + 1 < int (length (nt_policies n)) then Some (lock_value n rid) else None)"
proof -
  let ?p = "p\<lparr>pl_count := pl_count p + 1\<rparr>" and ?k = "lock_key r n (pl_Value p)"
  have "pl_count p < 2 ^ 31" using p(3,4) by linarith
  note d = expiry_channel_decodes[OF p(1,2) this, of r n]
  obtain ok s1 where l: "notification_lock rc r rid n ?p s = (ok, s1)" by fastforce
  have ok: "ok" using lock_effect(1)[OF laws l] lock by simp
  have k1: "kv s1 ?k = Some (lock_value n rid)"
    using lock_effect(2)[OF laws l] lock by (auto split: if_splits)
  obtain s2 where s2: "h ?p s1 = (Returned (ans (pl_count p + 1)), s2)" "kv s2 = kv s1"
    using h unfolding answers_def by (metis (no_types) Payload.select_convs(1) Payload.surjective Payload.update_convs(1) prod.collapse)
  show ?thesis
  proof (cases "ans (pl_count p + 1) \<and> pl_count p + 1 < int (length (nt_policies n))")
    case True
    obtain res s3 where put: "PutNotification rc r n ?p s2 = (res, s3)" by fastforce
    have "res = Returned ()" using put_effect(2)[OF laws put] True p(2) by simp
    moreover have "kv s3 ?k = kv s2 ?k"
      using put_effect(1)[OF laws put, of ?k] lock_key_encode[of r n ?p] by auto
    ultimately show ?thesis
      using True d l ok k1 s2 put by (simp add: notification_turn_def Let_def)
  next
    case False
    then show ?thesis
      using d l ok k1 s2 unlock_effect[OF laws, of r n ?p s2] by (auto simp: notification_turn_def Let_def)
  qed
qed

lemma retry_chain_runs:
  assumes laws: "kv_laws rc kv expire"
    and "plain_text_value v" "int (length (nt_policies n)) < 2 ^ 31"
    and h: "answers kv h ans"
  shows "int (length (nt_policies n)) - c = int f \<Longrightarrow> 0 \<le> c \<Longrightarrow> 0 < f \<Longrightarrow>
    kv s (lock_key r n v) \<in> {None, Some (lock_value n rid)} \<Longrightarrow>
    \<exists>s'. retry_chain rc r rid n h expire f \<lparr>pl_count = c, pl_Value = v\<rparr> s =
        (map (\<lambda>i. \<lparr>pl_count = i, pl_Value = v\<rparr>) (attempts ans f c), s') \<and> kv s' (lock_key r n v) = None"
proof (induction f arbitrary: c s)
  case (Suc f)
  let ?p = "\<lparr>pl_count = c, pl_Value = v\<rparr>" and ?q = "\<lparr>pl_count = c + 1, pl_Value = v\<rparr>"
  let ?s = "expire (lock_key r n (encodePayload ?p)) s"
  let ?more = "ans (c + 1) \<and> c + 1 < int (length (nt_policies n))"
  have lock: "kv ?s (lock_key r n v) \<in> {None, Some (lock_value n rid)}"
    using laws Suc.prems(4) unfolding kv_laws_def by auto
  obtain s1 where s1: "notification_turn rc r rid n h (expiry_channel r n ?p) ''expired'' ?s = (if ?more then Retried ?q else Released ?q, s1)"
    "kv s1 (lock_key r n v) = (if ?more then Some (lock_value n rid) else None)"
    using turn_effect[OF laws _ _ _ assms(3) h, where p = ?p and s = ?s and r = r and rid = rid] assms(2) Suc.prems(1,2) lock
    by auto
  show ?case
  proof (cases ?more)
    case True
    then obtain s2 where "retry_chain rc r rid n h expire f ?q s1 = (map (\<lambda>i. \<lparr>pl_count = i, pl_Value = v\<rparr>) (attempts ans f (c + 1)), s2)"
      "kv s2 (lock_key r n v) = None"
      using Suc.IH[of "c + 1" s1] Suc.prems(1,2) s1(2) by auto
    with True s1(1) show ?thesis by simp
  next
    case False
    then have "\<not> ans (c + 1) \<or> f = 0" using Suc.prems(1) by auto
    with False s1 show ?thesis by auto
  qed
qed simp

subsection \<open>The singleton\<close>

text \<open>Without a configuration nothing is tried, so that state counts as finished too.\<close>

interpretation redis_once: once_quiet "\<lambda>st. rs_once st \<or> rs_config st = []" GetRedisManager
  by unfold_locales
    (auto simp: GetRedisManager_def ensureRedisInitialized_def split: prod.splits outcome.splits if_splits)

text \<open>The number is read back from the header the run-time prints.\<close>

lemma getRoutineID_header:
  assumes "n < 2 ^ 64"
  shows "getRoutineID (''goroutine '' @ nat_digits n @ '' [running]:'' @ rest) = Some n"
proof -
  have "list_all is_digit (nat_digits n)" by (rule nat_digits_all_digits)
  then have "\<forall>ch \<in> set (nat_digits n). ch \<noteq> CHR '' ''" by (auto simp: list_all_iff is_digit_def)
  then have "takeWhile (\<lambda>ch. ch \<noteq> CHR '' '') (nat_digits n @ '' [running]:'' @ rest) = nat_digits n"
    by (simp add: takeWhile_append2)
  then show ?thesis using assms nat_digits_all_digits[of n] nat_digits_nonempty[of n]
    by (simp add: getRoutineID_def digits_value_nat_digits)
qed

section \<open>Properties\<close>

text \<open>C25: A notification is retried at most once per delay: starting with count 0 and a free lock, the handler is called
  with the counts 1, 2, ... until it answers that no retry is wanted or the delays are used up, always with the
  same value, and afterwards the lock is free again.\<close>

theorem retries_bounded:
  assumes "kv_laws rc kv expire" "plain_text_value v" "nt_policies n \<noteq> []" "int (length (nt_policies n)) < 2 ^ 31"
    "answers kv h ans"
    "kv s (lock_key r n v) = None"
  shows "\<exists>s'. retry_chain rc r rid n h expire (length (nt_policies n)) \<lparr>pl_count = 0, pl_Value = v\<rparr> s =
      (map (\<lambda>i. \<lparr>pl_count = i, pl_Value = v\<rparr>) (attempts ans (length (nt_policies n)) 0), s') \<and>
    kv s' (lock_key r n v) = None"
  using retry_chain_runs[OF assms(1,2,4,5), of 0 "length (nt_policies n)" s r rid] assms(3,6) by simp

text \<open>A store of texts as a Redis server.\<close>

definition map_redis :: "(string \<rightharpoonup> string) redis_cmd" where
  "map_redis = \<lparr>rc_int = (\<lambda>c m. case c of RCmd _ ks _ \<Rightarrow> (Inr (int (length ks)), m(hd ks := None))),
     rc_str = (\<lambda>c m. case c of
        RCmd nm ks as \<Rightarrow>
          if nm = ''Get'' then ((case m (hd ks) of None \<Rightarrow> Inl ''redis: nil'' | Some v \<Rightarrow> Inr v), m)
          else (Inr ''OK'', m(hd ks \<mapsto> (case as of AStr v # _ \<Rightarrow> v | _ \<Rightarrow> '''')))),
     rc_bool = (\<lambda>c m. case c of RCmd _ ks as \<Rightarrow>
        (Inr (m (hd ks) = None), if m (hd ks) = None then m(hd ks \<mapsto> (case as of AStr v # _ \<Rightarrow> v | _ \<Rightarrow> '''')) else m)),
     rc_strs = (\<lambda>c s. (Inr [], s)), rc_vals = (\<lambda>c s. (Inr [], s)), rc_map = (\<lambda>c s. (Inr [], s)),
     rc_float = (\<lambda>c s. (Inr 1, s)), rc_zs = (\<lambda>c s. (Inr [], s)), rc_geos = (\<lambda>c s. (Inr [], s)),
     rc_pubsub = None, rc_publishes = True\<rparr>"

lemma map_redis_laws: "kv_laws map_redis id (\<lambda>k m. m(k := None))"
  by (auto simp: kv_laws_def map_redis_def)

definition two_delays :: notification where
  "two_delays = \<lparr>nt_key = ''mail'', nt_node = ''n1'', nt_policies = [Minute, 5 * Minute]\<rparr>"

theorem retries_bounded_witness:
  "\<exists>s'. retry_chain map_redis (NewRedisView ''app'') 7 two_delays (\<lambda>p s. (Returned True, s)) (\<lambda>k m. m(k := None)) 2
      \<lparr>pl_count = 0, pl_Value = ''id1''\<rparr> Map.empty =
     ([\<lparr>pl_count = 1, pl_Value = ''id1''\<rparr>, \<lparr>pl_count = 2, pl_Value = ''id1''\<rparr>], s') \<and>
   s' (lock_key (NewRedisView ''app'') two_delays ''id1'') = None"
proof -
  have "plain_text_value ''id1''" by (simp add: plain_text_value_def sublist_Cons_right)
  from retries_bounded[OF map_redis_laws this, where n = two_delays and ans = "\<lambda>c. True" and s = Map.empty
      and r = "NewRedisView ''app''" and rid = 7 and h = "\<lambda>p s. (Returned True, s)"]
  show ?thesis by (simp add: two_delays_def numeral_2_eq_2 answers_def)
qed

text \<open>The payload survives the trip through the name of the key: what \<open>encodePayload\<close> writes \<open>decodePayload\<close> reads back
  from any channel name that ends with it, when the value has no colon, no double bar and no bar at its
  end. A value with a colon loses everything up to it.\<close>

theorem payload_roundtrip:
  assumes "plain_text_value (pl_Value p)" "0 \<le> pl_count p" "pl_count p < 2 ^ 31"
  shows "decodePayload (channel @ '':'' @ encodePayload p) = Inr p \<and>
    decodePayload (channel @ '':'' @ encodePayload (p\<lparr>pl_Value := lead @ '':'' @ pl_Value p\<rparr>)) = Inr p"
  using decode_encode[OF assms, of channel] decode_encode[OF assms, of "channel @ '':'' @ lead"]
  by (simp add: encodePayload_def)

theorem payload_roundtrip_witness:
  "decodePayload (''__keyspace@0__'' @ '':'' @ encodePayload \<lparr>pl_count = 3, pl_Value = ''order:17''\<rparr>) =
     Inr \<lparr>pl_count = 3, pl_Value = ''17''\<rparr>"
  using payload_roundtrip[of "\<lparr>pl_count = 3, pl_Value = ''17''\<rparr>" "''__keyspace@0__''" "''order''"]
  by (simp add: plain_text_value_def sublist_Cons_right)

text \<open>While another node or goroutine holds the lock of a value nothing happens on an expiry: the handler is not
  called, nothing is written and the state is kept. The lock has no time to live, so this lasts until its holder
  releases it.\<close>

theorem foreign_lock_blocks:
  assumes "kv_laws rc kv expire" "plain_text_value (pl_Value p)" "0 \<le> pl_count p" "pl_count p < 2 ^ 31"
    "kv s (lock_key r n (pl_Value p)) = Some other" "other \<noteq> lock_value n rid"
  shows "\<exists>s'. notification_turn rc r rid n h (expiry_channel r n p) ''expired'' s = (NotLocked, s') \<and> kv s' = kv s"
proof -
  obtain ok s1 where l: "notification_lock rc r rid n (p\<lparr>pl_count := pl_count p + 1\<rparr>) s = (ok, s1)" by fastforce
  have "\<not> ok" "kv s1 = kv s" using lock_effect[OF assms(1) l] assms(5,6) by simp_all
  with l expiry_channel_decodes[OF assms(2-4)] show ?thesis by (simp add: notification_turn_def Let_def)
qed

theorem foreign_lock_blocks_witness:
  "\<exists>s'. notification_turn map_redis (NewRedisView ''app'') 7 two_delays (\<lambda>p s. (Returned True, s))
       (expiry_channel (NewRedisView ''app'') two_delays \<lparr>pl_count = 0, pl_Value = ''id1''\<rparr>) ''expired''
       [lock_key (NewRedisView ''app'') two_delays ''id1'' \<mapsto> ''n2-7''] = (NotLocked, s') \<and>
     s' = [lock_key (NewRedisView ''app'') two_delays ''id1'' \<mapsto> ''n2-7'']"
proof -
  have "plain_text_value ''id1''" by (simp add: plain_text_value_def sublist_Cons_right)
  then show ?thesis
    using foreign_lock_blocks[OF map_redis_laws, of "\<lparr>pl_count = 0, pl_Value = ''id1''\<rparr>"
        "[lock_key (NewRedisView ''app'') two_delays ''id1'' \<mapsto> ''n2-7'']" "NewRedisView ''app''" two_delays "''n2-7''" 7]
    by (simp add: lock_value_def two_delays_def)
qed

text \<open>The delay that reaches Redis is the policy: a policy of whole seconds survives its rendering as text.\<close>

lemma put_delay:
  assumes "go_index (nt_policies n) (pl_count p) = Some (int k * Second)" "int k * Second < 2 ^ 63"
  shows "sent (\<lambda>c. PutNotification c r n p) rc s =
    [RCmd ''Set'' [lock_key r n (encodePayload p)] [AStr [CHR 0x01], ADur (int k * Second)]]"
proof -
  have "Duration_String d \<noteq> ''''" for d by (simp add: Duration_String_def Let_def)
  then show ?thesis
    using assms(1) duration_roundtrip_seconds[OF assms(2)]
    by (auto simp: sent_def PutNotification_def view_Set_def lock_key_def Let_def split: prod.splits sum.splits dest: logged_step)
qed

text \<open>A failing client is created once: the panic spends the once, and from then on the manager is empty for good
  although a retry after loading a configuration is promised.\<close>

lemma failed_init_is_final:
  assumes "rs_config st = c # cfgs" "\<not> rs_once st" "rs_manager st = None" "rg_Addrs c = []"
  shows "\<exists>st'. GetRedisManager st = (Panicked, st') \<and> GetRedisManager (st'\<lparr>rs_config := cfgs'\<rparr>) = (Returned Map.empty, st'\<lparr>rs_config := cfgs'\<rparr>)"
  using assms by (auto simp: GetRedisManager_def ensureRedisInitialized_def NewRedisCmd_def)

end
