(* ===== verification/Telemetry.thy ===== *)
theory Telemetry
  imports Once_Init "HOL-Library.Word"
begin

section \<open>Logs, metrics, traces and message codecs\<close>

text \<open>
  Models the packages \<open>logs\<close>, \<open>metric\<close>, \<open>tracing\<close> and \<open>codec\<close>. zap, Prometheus, OpenTelemetry and the coders are
  arguments; what is written out is the choice of the log level, the life cycle of the logger, the layout of a stack
  trace, the tags and events of a span, and which coder is called with what.
\<close>

subsection \<open>Logs\<close>

text \<open>Levels are \<open>int8\<close>: the conversion of the configured number wraps. \<open>DebugLevel\<close> is -1, \<open>InfoLevel\<close> 0, \<open>FatalLevel\<close> 5.\<close>

definition zap_level :: "int \<Rightarrow> int" where
  "zap_level n = sint (word_of_int n :: 8 word)"

definition log_level :: "int \<Rightarrow> int" where
  "log_level configured =
     (let level = zap_level configured in if level < - 1 \<or> level > 5 then 0 else level)"

record LoggerConfig =
  lc_Filename :: string
  lc_MaxSize :: int
  lc_MaxAge :: int
  lc_MaxBackups :: int
  lc_Level :: int

text \<open>A logger by the level of its two outputs and the file; the module is the field added by \<open>GetLogger\<close>.\<close>

record zap_logger =
  zl_level :: int
  zl_file :: string

record log_state =
  ls_once :: bool
  ls_logger :: "zap_logger option"

definition logs_Init :: "LoggerConfig option \<Rightarrow> log_state \<Rightarrow> unit outcome \<times> log_state" where
  "logs_Init parsed st =
     (if ls_once st then (Returned (), st)
      else case parsed of
        None \<Rightarrow> (Panicked, st\<lparr>ls_once := True\<rparr>)
      | Some cfg \<Rightarrow> (Returned (), st\<lparr>ls_once := True, ls_logger := Some \<lparr>zl_level = log_level (lc_Level cfg), zl_file = lc_Filename cfg\<rparr>\<rparr>))"

definition GetLogger :: "string \<Rightarrow> log_state \<Rightarrow> (zap_logger \<times> string) outcome" where
  "GetLogger m st = (case ls_logger st of None \<Rightarrow> Panicked | Some l \<Rightarrow> Returned (l, m))"

text \<open>The variants that recover: without a logger \<open>service\<close> and the interceptors go on with nil, the gRPC server with a
  no-op logger (\<^term>\<open>None\<close> here for both).\<close>

definition getLoggerSafe :: "string \<Rightarrow> log_state \<Rightarrow> (zap_logger \<times> string) option" where
  "getLoggerSafe m st = (case GetLogger m st of Panicked \<Rightarrow> None | Returned l \<Rightarrow> Some l)"

text \<open>The logger of \<open>jwt\<close> is fetched under a once; the panic of a missing logger is recovered inside it and leaves a no-op
  logger (\<^term>\<open>None\<close>) for good.\<close>

record jwt_log =
  jl_once :: bool
  jl_logger :: "(zap_logger \<times> string) option"

definition jwt_logger :: "log_state \<Rightarrow> jwt_log \<Rightarrow> unit outcome \<times> jwt_log" where
  "jwt_logger ls st =
     (if jl_once st then (Returned (), st)
      else (Returned (), \<lparr>jl_once = True, jl_logger = (case GetLogger ''jwt'' ls of Panicked \<Rightarrow> None | Returned l \<Rightarrow> Some l)\<rparr>))"

text \<open>\<open>StacktraceField\<close>: a stack that is JSON is formatted, otherwise every line but the first is indented.\<close>

fun stack_lines :: "nat \<Rightarrow> string list \<Rightarrow> string \<Rightarrow> string" where
  "stack_lines k [] result = result"
| "stack_lines k (line # rest) result =
     stack_lines (Suc k) rest (if k = 0 then result @ line else result @ [CHR 0x0A, CHR 0x09] @ line)"

definition StacktraceField :: "(string \<Rightarrow> string option) \<Rightarrow> string \<Rightarrow> string \<times> string" where
  "StacktraceField format_json b =
     (''stacktrace'', case format_json b of Some formatted \<Rightarrow> formatted | None \<Rightarrow> stack_lines 0 (go_split [CHR 0x0A] b) '''')"

text \<open>The field helpers: the error field of a nil error is the field that is skipped.\<close>

datatype zap_field =
    ZapString string string
  | ZapInt string int
  | ZapInt64 string "64 word"
  | ZapInt32 string "32 word"
  | ZapError string
  | ZapDuration string duration
  | ZapSkip

definition log_String :: "string \<Rightarrow> string \<Rightarrow> zap_field" where "log_String k v = ZapString k v"
definition log_Int :: "string \<Rightarrow> int \<Rightarrow> zap_field" where "log_Int k v = ZapInt k v"
definition log_Int64 :: "string \<Rightarrow> 64 word \<Rightarrow> zap_field" where "log_Int64 k v = ZapInt64 k v"
definition log_Int32 :: "string \<Rightarrow> 32 word \<Rightarrow> zap_field" where "log_Int32 k v = ZapInt32 k v"
definition log_Duration :: "string \<Rightarrow> duration \<Rightarrow> zap_field" where "log_Duration k v = ZapDuration k v"

definition ErrorInfo :: "string option \<Rightarrow> zap_field" where
  "ErrorInfo v = (case v of None \<Rightarrow> ZapSkip | Some err \<Rightarrow> ZapError err)"

subsection \<open>Metrics\<close>

record metric_opts =
  mo_Namespace :: string
  mo_Subsystem :: string
  mo_Name :: string
  mo_Labels :: "string list"
  mo_Buckets :: "float64 list"

datatype metric_kind = CounterKind | GaugeKind | HistogramKind

datatype metric_op = MetricInc | MetricAdd float64 | MetricSet float64 | MetricObserve float64

text \<open>Prometheus: registering a vector and applying an operation to the series of some label values, either may panic.\<close>

record 'p prometheus =
  pr_MustRegister :: "metric_kind \<Rightarrow> metric_opts \<Rightarrow> 'p \<Rightarrow> nat outcome \<times> 'p"
  pr_apply :: "nat \<Rightarrow> string list \<Rightarrow> metric_op \<Rightarrow> 'p \<Rightarrow> unit outcome \<times> 'p"

definition NewCounter where "NewCounter pr opts = pr_MustRegister pr CounterKind (opts\<lparr>mo_Buckets := []\<rparr>)"
definition counter_Inc where "counter_Inc pr c labels = pr_apply pr c labels MetricInc"
definition counter_Add where "counter_Add pr c v labels = pr_apply pr c labels (MetricAdd v)"
definition NewGauge where "NewGauge pr opts = pr_MustRegister pr GaugeKind (opts\<lparr>mo_Buckets := []\<rparr>)"
definition gauge_Set where "gauge_Set pr g v labels = pr_apply pr g labels (MetricSet v)"
definition gauge_Inc where "gauge_Inc pr g labels = pr_apply pr g labels MetricInc"
definition gauge_Add where "gauge_Add pr g v labels = pr_apply pr g labels (MetricAdd v)"

text \<open>\<open>def_buckets\<close> are the default buckets of Prometheus.\<close>

definition NewHistogram where
  "NewHistogram def_buckets pr opts =
     pr_MustRegister pr HistogramKind (opts\<lparr>mo_Buckets := (if length (mo_Buckets opts) = 0 then def_buckets else mo_Buckets opts)\<rparr>)"
definition histogram_Observe where "histogram_Observe pr h v labels = pr_apply pr h labels (MetricObserve v)"

subsection \<open>Traces\<close>

record JaegerConfig =
  jc_ServiceName :: string
  jc_Endpoint :: string
  jc_SampleRate :: float64

datatype tag_value = TagStr string | TagOther string

text \<open>\<open>toString\<close>: a text as it is, anything else as \<open>%v\<close> prints it.\<close>

definition toString :: "tag_value \<Rightarrow> string" where
  "toString v = (case v of TagStr s \<Rightarrow> s | TagOther printed \<Rightarrow> printed)"

text \<open>The identity of a span, and a context: the span it carries, if any.\<close>

record span_ids =
  si_trace :: string
  si_span :: string

type_synonym trace_ctx = "span_ids option"

record otel_span =
  os_name :: string
  os_ids :: span_ids
  os_parent :: "string option"
  os_attrs :: "(string \<times> string) list"
  os_events :: "(string \<times> (string \<times> string) list) list"
  os_errors :: "string list"
  os_status :: "string option"
  os_ended :: bool

record JaegerTracer =
  jt_service :: string
  jt_rate :: float64

text \<open>\<open>new_exporter\<close> answers the error of the exporter for the endpoint, if any.\<close>

definition NewJaegerTracer :: "JaegerConfig option \<Rightarrow> (string \<Rightarrow> string option) \<Rightarrow> (string + JaegerTracer) outcome" where
  "NewJaegerTracer parsed new_exporter =
     (case parsed of
        None \<Rightarrow> Panicked
      | Some config \<Rightarrow>
          (case new_exporter (jc_Endpoint config) of
             Some err \<Rightarrow> Returned (Inl err)
           | None \<Rightarrow>
               (let sampleRate = (if jc_SampleRate config > 0 then jc_SampleRate config else 1)
                in Returned (Inr \<lparr>jt_service = jc_ServiceName config, jt_rate = sampleRate\<rparr>))))"

text \<open>The tracer starts a span with fresh identifiers, in the trace of the span of the context when there is one, and
  answers the context that carries the new span.\<close>

definition StartSpan :: "span_ids \<Rightarrow> trace_ctx \<Rightarrow> string \<Rightarrow> trace_ctx \<times> otel_span" where
  "StartSpan fresh ctx operationName =
     (let ids = (case ctx of None \<Rightarrow> fresh | Some p \<Rightarrow> fresh\<lparr>si_trace := si_trace p\<rparr>)
      in (Some ids, \<lparr>os_name = operationName, os_ids = ids, os_parent = map_option si_span ctx, os_attrs = [], os_events = [],
            os_errors = [], os_status = None, os_ended = False\<rparr>))"

definition StartSpanFromParent :: "span_ids \<Rightarrow> trace_ctx \<Rightarrow> string \<Rightarrow> trace_ctx \<times> otel_span" where
  "StartSpanFromParent fresh ctx operationName = StartSpan fresh ctx operationName"

definition span_Context :: "otel_span \<Rightarrow> span_ids" where "span_Context sp = os_ids sp"
definition TraceID :: "span_ids \<Rightarrow> string" where "TraceID c = si_trace c"
definition SpanID :: "span_ids \<Rightarrow> string" where "SpanID c = si_span c"

text \<open>An ended span takes no more changes.\<close>

definition if_recording :: "(otel_span \<Rightarrow> otel_span) \<Rightarrow> otel_span \<Rightarrow> otel_span" where
  "if_recording f sp = (if os_ended sp then sp else f sp)"

definition SetTag :: "string \<Rightarrow> tag_value \<Rightarrow> otel_span \<Rightarrow> otel_span" where
  "SetTag key v = if_recording (\<lambda>sp. sp\<lparr>os_attrs := filter (\<lambda>(k, _). k \<noteq> key) (os_attrs sp) @ [(key, toString v)]\<rparr>)"

definition LogFields :: "(string \<times> tag_value) list \<Rightarrow> otel_span \<Rightarrow> otel_span" where
  "LogFields kvs = if_recording (\<lambda>sp. sp\<lparr>os_events := os_events sp @ [(''log'', map (\<lambda>(k, v). (k, toString v)) kvs)]\<rparr>)"

definition SetError :: "string \<Rightarrow> otel_span \<Rightarrow> otel_span" where
  "SetError err = if_recording (\<lambda>sp. sp\<lparr>os_errors := os_errors sp @ [err], os_status := Some err\<rparr>)"

definition Finish :: "otel_span \<Rightarrow> otel_span" where
  "Finish sp = sp\<lparr>os_ended := True\<rparr>"

text \<open>A carrier that is no \<open>TextMapCarrier\<close> is ignored without an error.\<close>

definition Extract :: "(trace_ctx \<Rightarrow> 'c \<Rightarrow> trace_ctx) \<Rightarrow> trace_ctx \<Rightarrow> 'c option \<Rightarrow> trace_ctx \<times> string option" where
  "Extract propagator ctx carrier = (case carrier of Some c \<Rightarrow> (propagator ctx c, None) | None \<Rightarrow> (ctx, None))"

definition Inject :: "(trace_ctx \<Rightarrow> 'c \<Rightarrow> 'c) \<Rightarrow> trace_ctx \<Rightarrow> 'c option \<Rightarrow> 'c option \<times> string option" where
  "Inject propagator ctx carrier = (case carrier of Some c \<Rightarrow> (Some (propagator ctx c), None) | None \<Rightarrow> (None, None))"

text \<open>\<open>Close\<close> of a tracer with or without a provider; \<open>shutdown\<close> is the error of the provider.\<close>

definition tracer_Close :: "(JaegerTracer \<Rightarrow> string option) \<Rightarrow> JaegerTracer option \<Rightarrow> string option" where
  "tracer_Close shutdown provider = (case provider of Some t \<Rightarrow> shutdown t | None \<Rightarrow> None)"

subsection \<open>Message codecs\<close>

record 'd Message =
  ms_Type :: string
  ms_Data :: 'd

text \<open>The conversions of \<open>utils/system.go\<close> around the coders. A JSON error comes with what was decoded so far, a protobuf
  error with nil.\<close>

definition Bytes2Struct :: "(string \<Rightarrow> 't \<times> string option) \<Rightarrow> string \<Rightarrow> 't \<times> string option" where
  "Bytes2Struct unmarshal data = (case unmarshal data of (result, Some err) \<Rightarrow> (result, Some err) | (result, None) \<Rightarrow> (result, None))"

definition Struct2Bytes :: "('t \<Rightarrow> string + string) \<Rightarrow> 't \<Rightarrow> string + string" where
  "Struct2Bytes marshal data = (case marshal data of Inl err \<Rightarrow> Inl err | Inr bytes \<Rightarrow> Inr bytes)"

definition Bytes2ProtobufStruct :: "(string \<Rightarrow> 'p \<Rightarrow> 'p \<times> string option) \<Rightarrow> 'p \<Rightarrow> string \<Rightarrow> 'p option \<times> string option" where
  "Bytes2ProtobufStruct unmarshal new_result data =
     (case unmarshal data new_result of (_, Some err) \<Rightarrow> (None, Some err) | (m, None) \<Rightarrow> (Some m, None))"

definition ProtobufStruct2Bytes :: "('p \<Rightarrow> string + string) \<Rightarrow> 'p \<Rightarrow> string + string" where
  "ProtobufStruct2Bytes marshal data = (case marshal data of Inl err \<Rightarrow> Inl err | Inr bytes \<Rightarrow> Inr bytes)"

definition json_Decode :: "(string \<Rightarrow> 'd Message \<times> string option) \<Rightarrow> string \<Rightarrow> string + 'd Message" where
  "json_Decode unmarshal data = (case Bytes2Struct unmarshal data of (_, Some err) \<Rightarrow> Inl err | (msg, None) \<Rightarrow> Inr msg)"

definition json_Encode :: "('d Message \<Rightarrow> string + string) \<Rightarrow> 'd Message \<Rightarrow> string + string" where
  "json_Encode marshal message = Struct2Bytes marshal message"

text \<open>A message is a protobuf message or not.\<close>

definition EncodeProto :: "('p \<Rightarrow> string + string) \<Rightarrow> 'p option \<Rightarrow> string + string" where
  "EncodeProto marshal msg = (case msg of None \<Rightarrow> Inl ''message is nil'' | Some m \<Rightarrow> marshal m)"

definition DecodeProto :: "(string \<Rightarrow> 'p \<Rightarrow> 'p \<times> string option) \<Rightarrow> string \<Rightarrow> 'p \<Rightarrow> 'p \<times> string option" where
  "DecodeProto unmarshal data msg = unmarshal data msg"

definition proto_Decode :: "string \<Rightarrow> string + 'm" where
  "proto_Decode data = Inl ''use DecodeProto with specific proto.Message type''"

definition proto_Encode :: "('p \<Rightarrow> string + string) \<Rightarrow> 'p option \<Rightarrow> string + string" where
  "proto_Encode marshal message =
     (case message of
        Some pm \<Rightarrow> (case marshal pm of Inl err \<Rightarrow> Inl err | Inr data \<Rightarrow> Inr data)
      | None \<Rightarrow> Inl ''message does not implement proto.Message'')"

text \<open>Flatbuffers: the builder of the library answers its finished bytes, the root table is the bytes with a position.\<close>

record flat_table =
  tab_Bytes :: string
  tab_Pos :: "32 word"

definition EncodeFlatbuffer :: "('b \<Rightarrow> string) \<Rightarrow> 'b \<Rightarrow> string" where
  "EncodeFlatbuffer finished_bytes builder = finished_bytes builder"

definition DecodeFlatbuffer :: "string \<Rightarrow> 32 word \<Rightarrow> flat_table" where
  "DecodeFlatbuffer data offset = \<lparr>tab_Bytes = data, tab_Pos = offset\<rparr>"

definition flat_Decode :: "string \<Rightarrow> string + 'm" where
  "flat_Decode data = Inl ''use DecodeFlatbuffer with specific schema type''"

definition flat_Encode :: "'m \<Rightarrow> string + string" where
  "flat_Encode message = Inl ''use EncodeFlatbuffer with FlatBufferBuilder''"

section \<open>Lemmas\<close>

interpretation logs_once: once_quiet ls_once "logs_Init parsed" for parsed
  by unfold_locales (auto simp: logs_Init_def split: option.splits if_splits)

interpretation jwt_log_once: once_quiet jl_once "jwt_logger ls" for ls
  by unfold_locales (auto simp: jwt_logger_def split: if_splits)

text \<open>A token checked before \<open>logs.Init\<close> silences the package: the logger that is set up later is never used.\<close>

lemma jwt_logger_too_early:
  assumes "\<not> jl_once st" "ls_logger ls = None"
  shows "jl_logger (snd (jwt_logger ls' (snd (jwt_logger ls st)))) = None"
  using assms by (simp add: jwt_logger_def GetLogger_def)

lemma zap_level_mod: "zap_level n = (n + 128) mod 256 - 128"
  unfolding zap_level_def int_word_sint by simp

lemma zap_level_period: "zap_level (n + 256 * k) = zap_level n"
proof -
  have "n + 256 * k + 128 = (n + 128) + k * 256" by simp
  then show ?thesis unfolding zap_level_mod by (simp only: mod_mult_self1)
qed

lemma zap_level_id: "- 128 \<le> n \<Longrightarrow> n < 128 \<Longrightarrow> zap_level n = n"
  by (simp add: zap_level_mod)

text \<open>The loop over the lines is a join.\<close>

lemma stack_lines_join: "lines \<noteq> [] \<Longrightarrow> stack_lines k lines result =
   result @ (if k = 0 then '''' else [CHR 0x0A, CHR 0x09]) @ go_join [CHR 0x0A, CHR 0x09] lines"
proof (induction lines arbitrary: k result)
  case (Cons l ls)
  then show ?case by (cases "ls = []") (simp_all add: go_join_Cons)
qed simp


text \<open>A trace goes on across processes: a span that the server starts from what the client injected is a child of the span of the
  client in the same trace, however deep the spans of the client were. The two propagators are those of W3C trace context, of
  which only that extracting gives back what was injected is used.\<close>

lemma trace_continues:
  assumes "\<And>ids c. extract None (inject (Some ids) c) = Some ids"
    "StartSpan fresh ctx op = (client_ctx, client_span)" "Inject inject client_ctx (Some c) = (Some c', err)"
    "StartSpanFromParent fresh' (fst (Extract extract None (Some c'))) op' = (server_ctx, server_span)"
  shows "TraceID (span_Context server_span) = TraceID (span_Context client_span)"
    "os_parent server_span = Some (SpanID (span_Context client_span))" "SpanID (span_Context server_span) = si_span fresh'"
proof -
  have "client_ctx = Some (os_ids client_span)" using assms(2) by (auto simp: StartSpan_def Let_def)
  then have "fst (Extract extract None (Some c')) = Some (os_ids client_span)" using assms(1,3) by (auto simp: Inject_def Extract_def)
  with assms(4) show "TraceID (span_Context server_span) = TraceID (span_Context client_span)"
    "os_parent server_span = Some (SpanID (span_Context client_span))" "SpanID (span_Context server_span) = si_span fresh'"
    by (auto simp: StartSpanFromParent_def StartSpan_def Let_def TraceID_def SpanID_def span_Context_def)
qed

text \<open>Nothing changes a span after it has ended.\<close>

lemma ended_span_fixed:
  assumes "os_ended sp"
  shows "SetTag key v sp = sp" "LogFields kvs sp = sp" "SetError err sp = sp" "Finish sp = sp"
  using assms by (simp_all add: SetTag_def LogFields_def SetError_def Finish_def if_recording_def)

text \<open>The JSON codec reads back what it wrote when the coder does; the other two refuse the generic interface.\<close>

lemma json_roundtrip:
  assumes "marshal m = Inr b" "unmarshal b = (m, None)"
  shows "json_Encode marshal m = Inr b" "json_Decode unmarshal b = Inr m"
  using assms by (simp_all add: json_Encode_def json_Decode_def Struct2Bytes_def Bytes2Struct_def)

section \<open>Properties\<close>

text \<open>the level of the logger is always one of the seven levels of zap. A configured level among them is taken as it is, and
  a number close by outside them falls back to info; but the conversion to int8 takes the number modulo 256 first, so that 255
  is debug and 256 plus a level is that level.\<close>

theorem log_level_bounds:
  "- 1 \<le> log_level n \<and> log_level n \<le> 5 \<and> (- 1 \<le> n \<and> n \<le> 5 \<longrightarrow> log_level n = n) \<and>
   (5 < n \<and> n < 255 \<or> - 251 < n \<and> n < - 1 \<longrightarrow> log_level n = 0) \<and> log_level (n + 256 * k) = log_level n"
proof (intro conjI impI)
  show "log_level n = 0" if n: "5 < n \<and> n < 255 \<or> - 251 < n \<and> n < - 1"
  proof -
    consider "128 \<le> n" | "n < - 128" | "- 128 \<le> n" "n < 128" by linarith
    then have "zap_level n < - 1 \<or> zap_level n > 5"
    proof cases
      case 1
      then show ?thesis using n zap_level_id[of "n - 256"] zap_level_period[of "n - 256" 1] by auto
    next
      case 2
      then show ?thesis using n zap_level_id[of "n + 256"] zap_level_period[of n 1] by auto
    qed (use n zap_level_id[of n] in auto)
    then show ?thesis by (auto simp: log_level_def)
  qed
qed (auto simp: log_level_def zap_level_period zap_level_id Let_def)

theorem log_level_bounds_witness: "log_level 2 = 2 \<and> log_level 100 = 0 \<and> log_level 258 = 2 \<and> log_level 255 = - 1"
  using log_level_bounds[of 2 1] log_level_bounds[of 100 0] log_level_bounds[of "- 1" 1] by simp

end
