(* ===== verification/Nats_Client.thy ===== *)
theory Nats_Client
  imports Telemetry "HOL-Library.Char_ord" "HOL-Library.List_Lexorder"
begin

section \<open>The NATS client\<close>

text \<open>
  Models the package \<open>nats\<close>: the connection (\<open>nats.go\<close>), streams, consumers and subscriptions
  (\<open>subscribe.go\<close>), publishing (\<open>publisher.go\<close>) and the connection manager
  (\<open>nats_connection_manager.go\<close>).

  The NATS library is a parameter: a record of the calls the code makes, on an abstract server state
  \<open>'w\<close>. The goroutines started by \<open>StartSubscription\<close> and by \<open>StartAll\<close> are modelled as their loops, one
  round at a time; what other goroutines do between two rounds is an argument. Pauses (\<open>time.Sleep\<close>) and log
  lines have no effect on the state.
\<close>

datatype nats_error = ErrNoStreamResponse | ErrTimeout | ErrNoResponders | NatsErr string "nats_error list"

text \<open>\<open>errors.Is\<close>: the error itself or one it unwraps to.\<close>

fun nats_Is :: "nats_error \<Rightarrow> nats_error \<Rightarrow> bool" where
  "nats_Is (NatsErr t us) target = (NatsErr t us = target \<or> (\<exists>u \<in> set us. nats_Is u target))"
| "nats_Is e target = (e = target)"

datatype retention = LimitsPolicy | InterestPolicy | WorkQueuePolicy
datatype ack_policy = AckNonePolicy | AckAllPolicy | AckExplicitPolicy
datatype deliver_policy = DeliverAllPolicy | DeliverOther nat

record StreamConfig =
  sc_Name :: string
  sc_Subjects :: "string list"
  sc_Retention :: retention
  sc_others :: "(string \<times> string) list"

record ConsumerConfig =
  cc_Durable :: string
  cc_AckPolicy :: ack_policy
  cc_DeliverPolicy :: deliver_policy
  cc_FilterSubject :: string
  cc_FilterSubjects :: "string list"

record Msg =
  m_Subject :: string
  m_Data :: string
  m_seq :: nat

record 'w nats_lib =
  nl_Connect :: "string \<Rightarrow> int \<Rightarrow> duration \<Rightarrow> (string \<times> string) option \<Rightarrow> 'w \<Rightarrow> nats_error option \<times> 'w"
  nl_Close :: "'w \<Rightarrow> 'w"
  nl_IsConnected :: "'w \<Rightarrow> bool"
  nl_JetStream :: "int \<Rightarrow> 'w \<Rightarrow> (nats_error + nat) \<times> 'w"
  nl_StreamInfo :: "string \<Rightarrow> 'w \<Rightarrow> (StreamConfig option \<times> nats_error option) \<times> 'w"
  nl_AddStream :: "StreamConfig \<Rightarrow> 'w \<Rightarrow> (StreamConfig option \<times> nats_error option) \<times> 'w"
  nl_UpdateStream :: "StreamConfig \<Rightarrow> 'w \<Rightarrow> nats_error option \<times> 'w"
  nl_ConsumerInfo :: "string \<Rightarrow> string \<Rightarrow> 'w \<Rightarrow> (ConsumerConfig option \<times> nats_error option) \<times> 'w"
  nl_DeleteConsumer :: "string \<Rightarrow> string \<Rightarrow> 'w \<Rightarrow> nats_error option \<times> 'w"
  nl_AddConsumer :: "string \<Rightarrow> ConsumerConfig \<Rightarrow> 'w \<Rightarrow> nats_error option \<times> 'w"
  nl_PullSubscribe :: "string \<Rightarrow> string \<Rightarrow> string \<Rightarrow> 'w \<Rightarrow> (nats_error + nat) \<times> 'w"
  nl_QueueSubscribe :: "string \<Rightarrow> string \<Rightarrow> 'w \<Rightarrow> (nats_error + nat) \<times> 'w"
  nl_Unsubscribe :: "nat \<Rightarrow> 'w \<Rightarrow> nats_error option \<times> 'w"
  nl_Fetch :: "nat \<Rightarrow> int \<Rightarrow> 'w \<Rightarrow> (nats_error + Msg list) \<times> 'w"
  nl_Ack :: "Msg \<Rightarrow> 'w \<Rightarrow> nats_error option \<times> 'w"
  nl_js_Publish :: "string \<Rightarrow> string \<Rightarrow> 'w \<Rightarrow> nats_error option \<times> 'w"
  nl_js_PublishAsync :: "string \<Rightarrow> string \<Rightarrow> 'w \<Rightarrow> nats_error option \<times> 'w"
  nl_Publish :: "string \<Rightarrow> string \<Rightarrow> 'w \<Rightarrow> nats_error option \<times> 'w"
  nl_Error :: "nats_error \<Rightarrow> string"

text \<open>A message handler of the application: it works on the world and may panic.\<close>

type_synonym 'w msg_handler = "Msg \<Rightarrow> 'w \<Rightarrow> unit outcome \<times> 'w"

subsection \<open>The connection\<close>

record NatsConfig =
  nf_Name :: string
  nf_Url :: string
  nf_UseStream :: bool
  nf_StreamName :: string
  nf_Type :: string
  nf_Subject :: "string list"
  nf_Username :: string
  nf_Password :: string

record Subscription =
  sub_Subject :: string
  sub_id :: nat

record 'w NatsConnection =
  nc_name :: string
  nc_config :: NatsConfig
  nc_js :: "nat option"
  nc_streamInfo :: "StreamConfig option"
  nc_subject :: "Subscription list"
  nc_useStream :: bool
  nc_url :: string
  nc_ctx_done :: bool
  nc_handlers :: "string \<rightharpoonup> 'w msg_handler"

definition NatsConfig_Validate :: "NatsConfig \<Rightarrow> string option" where
  "NatsConfig_Validate c =
     (if nf_Url c = '''' then Some ''nats url is required''
      else if nf_UseStream c \<and> nf_StreamName c = ''''
        then Some ''stream name is required when use_stream is enabled''
      else None)"

definition user_option :: "NatsConfig \<Rightarrow> (string \<times> string) option" where
  "user_option c = (if nf_Username c \<noteq> '''' \<and> nf_Password c \<noteq> '''' then Some (nf_Username c, nf_Password c) else None)"

text \<open>A nil configuration is \<^term>\<open>None\<close>; the text of its error is Chinese, here in English. \<open>logs.GetLogger\<close> panics when the
  logger was not initialised; the connection made before is then left open.\<close>

definition NewNatsConnect ::
  "log_state \<Rightarrow> 'w nats_lib \<Rightarrow> string \<Rightarrow> NatsConfig option \<Rightarrow> 'w \<Rightarrow> (nats_error + 'w NatsConnection) outcome \<times> 'w" where
  "NewNatsConnect ls nl name natsConfig w =
     (case natsConfig of
        None \<Rightarrow> (Returned (Inl (NatsErr ''NATS configuration not initialised'' [])), w)
      | Some c \<Rightarrow>
          (case nl_Connect nl (nf_Url c) 10 (5 * Second) (user_option c) w of
             (Some err, w) \<Rightarrow> (Returned (Inl err), w)
           | (None, w) \<Rightarrow>
               (case GetLogger ''nats'' ls of
                  Panicked \<Rightarrow> (Panicked, w)
                | Returned _ \<Rightarrow>
                    (let s = \<lparr>nc_name = name, nc_config = c, nc_js = None, nc_streamInfo = None, nc_subject = [],
                           nc_useStream = nf_UseStream c, nc_url = nf_Url c, nc_ctx_done = False, nc_handlers = Map.empty\<rparr>
                     in if nf_UseStream c
                        then (case nl_JetStream nl 100 w of
                                (Inl err, w) \<Rightarrow> (Returned (Inl err), nl_Close nl w)
                              | (Inr js, w) \<Rightarrow> (Returned (Inr (s\<lparr>nc_js := Some js\<rparr>)), w))
                        else (Returned (Inr s), w)))))"

definition IsConnected :: "'w nats_lib \<Rightarrow> 'w \<Rightarrow> bool" where "IsConnected nl w = nl_IsConnected nl w"

text \<open>\<open>mergeSubjects\<close>: a Go map used as a set. \<open>iter\<close> is the iteration order of the run-time, which is
  not fixed.\<close>

fun add_subjects :: "string list \<Rightarrow> string set \<Rightarrow> string set" where
  "add_subjects [] S = S"
| "add_subjects (subject # xs) S = (if subject = '''' then add_subjects xs S else add_subjects xs (insert subject S))"

definition mergeSubjects :: "(string set \<Rightarrow> string list) \<Rightarrow> string list \<Rightarrow> string list \<Rightarrow> string list \<times> bool" where
  "mergeSubjects iter existing desired =
     (let S = add_subjects existing {};
          before = card S;
          S = add_subjects desired S;
          merged = sort (iter S)
      in (merged, card S \<noteq> before))"

definition EnsureStream ::
  "'w nats_lib \<Rightarrow> (string set \<Rightarrow> string list) \<Rightarrow> 'w NatsConnection \<Rightarrow> 'w \<Rightarrow> nats_error option \<times> 'w" where
  "EnsureStream nl iter s w =
     (if \<not> nc_useStream s then (None, w)
      else if nc_js s = None then (Some ErrNoStreamResponse, w)
      else case nl_StreamInfo nl (nf_StreamName (nc_config s)) w of
        ((None, Some _), w) \<Rightarrow>
          (case nl_AddStream nl \<lparr>sc_Name = nf_StreamName (nc_config s), sc_Subjects = nf_Subject (nc_config s),
                  sc_Retention = WorkQueuePolicy, sc_others = []\<rparr> w of
             ((_, Some err), w) \<Rightarrow> (Some err, w)
           | ((_, None), w) \<Rightarrow> (None, w))
      | ((Some _, Some err), w) \<Rightarrow> (Some err, w)
      | ((None, None), w) \<Rightarrow> (None, w)
      | ((Some stream, None), w) \<Rightarrow>
          (let (mergedSubjects, changed) = mergeSubjects iter (sc_Subjects stream) (nf_Subject (nc_config s))
           in if \<not> changed then (None, w)
              else nl_UpdateStream nl (stream\<lparr>sc_Subjects := mergedSubjects\<rparr>) w))"

subsection \<open>Streams and consumers\<close>

text \<open>With \<open>useStream\<close> set \<open>js\<close> is not nil: \<open>NewNatsConnect\<close> fails otherwise. A nil \<open>js\<close> would panic here.\<close>

definition AddStream ::
  "'w nats_lib \<Rightarrow> string \<Rightarrow> string list \<Rightarrow> 'w NatsConnection \<Rightarrow> 'w \<Rightarrow> nats_error option outcome \<times> 'w NatsConnection \<times> 'w" where
  "AddStream nl streamName subjects s w =
     (if \<not> nc_useStream s then (Returned (Some ErrNoStreamResponse), s, w)
      else if nc_js s = None then (Panicked, s, w)
      else case nl_StreamInfo nl streamName w of
        ((Some _, Some err), w) \<Rightarrow> (Returned (Some err), s, w)
      | ((Some _, None), w) \<Rightarrow> (Returned None, s, w)
      | ((None, _), w) \<Rightarrow>
          (let ((info, err), w) = nl_AddStream nl \<lparr>sc_Name = streamName, sc_Subjects = subjects,
                 sc_Retention = WorkQueuePolicy, sc_others = []\<rparr> w;
               s = s\<lparr>nc_streamInfo := info\<rparr>
           in (Returned err, s, w)))"

definition consumerFilterMatches :: "ConsumerConfig \<Rightarrow> string list \<Rightarrow> bool" where
  "consumerFilterMatches cfg subjects =
     (if length subjects = 0 then cc_FilterSubject cfg = '''' \<and> length (cc_FilterSubjects cfg) = 0
      else if length subjects = 1
        then cc_FilterSubject cfg = subjects ! 0 \<or>
          (length (cc_FilterSubjects cfg) = 1 \<and> cc_FilterSubjects cfg ! 0 = subjects ! 0)
      else if length (cc_FilterSubjects cfg) \<noteq> length subjects then False
      else list_all (\<lambda>sub. sub \<in> set (cc_FilterSubjects cfg)) subjects)"

definition consumer_config :: "string \<Rightarrow> string list \<Rightarrow> ConsumerConfig" where
  "consumer_config durableName subjects =
     (let cfg = \<lparr>cc_Durable = durableName, cc_AckPolicy = AckExplicitPolicy, cc_DeliverPolicy = DeliverAllPolicy,
            cc_FilterSubject = '''', cc_FilterSubjects = []\<rparr>
      in if length subjects > 0
         then (if length subjects > 1 then cfg\<lparr>cc_FilterSubjects := subjects\<rparr> else cfg\<lparr>cc_FilterSubject := subjects ! 0\<rparr>)
         else cfg)"

definition AddConsumer ::
  "'w nats_lib \<Rightarrow> string \<Rightarrow> string \<Rightarrow> string list \<Rightarrow> 'w NatsConnection \<Rightarrow> 'w \<Rightarrow> nats_error option \<times> 'w" where
  "AddConsumer nl streamName durableName subjects s w =
     (if \<not> nc_useStream s then (Some ErrNoStreamResponse, w)
      else if nc_js s = None then (Some ErrNoStreamResponse, w)
      else
        let ((consumer, err), w) = nl_ConsumerInfo nl streamName durableName w;
            create = (\<lambda>w. nl_AddConsumer nl streamName (consumer_config durableName subjects) w)
        in case err of
             Some e \<Rightarrow> if \<not> sublist ''consumer not found'' (nl_Error nl e) then (Some e, w) else create w
           | None \<Rightarrow>
               (case consumer of
                  None \<Rightarrow> create w
                | Some cfg \<Rightarrow>
                    if consumerFilterMatches cfg subjects then (None, w)
                    else (case nl_DeleteConsumer nl streamName durableName w of
                            (Some delErr, w) \<Rightarrow> (Some delErr, w)
                          | (None, w) \<Rightarrow> create w)))"


subsection \<open>Subscriptions\<close>

definition ascii_lower :: "string \<Rightarrow> string" where
  "ascii_lower = map (\<lambda>c. if CHR ''A'' \<le> c \<and> c \<le> CHR ''Z'' then char_of (of_char c + 32 :: nat) else c)"

text \<open>The messages of one fetch: a message of the subscribed subject goes to the handler and is then
  acknowledged, one of another subject is only logged. A panic of the handler ends the loop.\<close>

fun handle_msgs :: "'w nats_lib \<Rightarrow> 'w msg_handler \<Rightarrow> string \<Rightarrow> Msg list \<Rightarrow> 'w \<Rightarrow> unit outcome \<times> 'w" where
  "handle_msgs nl handler subject [] w = (Returned (), w)"
| "handle_msgs nl handler subject (msg # msgs) w =
     (if m_Subject msg = subject
      then (case handler msg w of
              (Panicked, w) \<Rightarrow> (Panicked, w)
            | (Returned _, w) \<Rightarrow> (let (_, w) = nl_Ack nl msg w in handle_msgs nl handler subject msgs w))
      else handle_msgs nl handler subject msgs w)"

text \<open>The goroutine of a pull subscription: it goes on with a subscription, has stopped because the context
  is done, or has ended by a panic it recovered from.\<close>

datatype fetch_status = Fetching nat | Stopped | Recovered

definition self_heal ::
  "'w nats_lib \<Rightarrow> (string set \<Rightarrow> string list) \<Rightarrow> string \<Rightarrow> string \<Rightarrow> nat \<Rightarrow> 'w NatsConnection \<Rightarrow> 'w \<Rightarrow>
     fetch_status \<times> 'w NatsConnection \<times> 'w" where
  "self_heal nl iter subject durableName sub s w =
     (let (healErr, w) = EnsureStream nl iter s w;
          (healErr, w) = (case healErr of
             None \<Rightarrow> AddConsumer nl (nf_StreamName (nc_config s)) durableName [subject] s w
           | Some e \<Rightarrow> (Some e, w))
      in case healErr of
           Some _ \<Rightarrow> (Fetching sub, s, w)
         | None \<Rightarrow>
             (case nl_PullSubscribe nl subject durableName (nf_StreamName (nc_config s)) w of
                (Inl _, w) \<Rightarrow> (Fetching sub, s, w)
              | (Inr newSub, w) \<Rightarrow>
                  (Fetching newSub, s\<lparr>nc_subject := nc_subject s @ [\<lparr>sub_Subject = subject, sub_id = newSub\<rparr>]\<rparr>, w)))"

definition fetch_round ::
  "'w nats_lib \<Rightarrow> (string set \<Rightarrow> string list) \<Rightarrow> 'w msg_handler \<Rightarrow> string \<Rightarrow> string \<Rightarrow> nat \<Rightarrow> 'w NatsConnection \<Rightarrow> 'w \<Rightarrow>
     fetch_status \<times> 'w NatsConnection \<times> 'w" where
  "fetch_round nl iter handler subject durableName sub s w =
     (if nc_ctx_done s then (Stopped, s, w)
      else case nl_Fetch nl sub 10 w of
        (Inl err, w) \<Rightarrow>
          if nats_Is err ErrTimeout then (Fetching sub, s, w)
          else if nats_Is err ErrNoResponders \<or> sublist ''no responders'' (ascii_lower (nl_Error nl err))
            then self_heal nl iter subject durableName sub s w
          else (Fetching sub, s, w)
      | (Inr msgs, w) \<Rightarrow>
          (case handle_msgs nl handler subject msgs w of
             (Panicked, w) \<Rightarrow> (Recovered, s, w)
           | (Returned _, w) \<Rightarrow> (Fetching sub, s, w)))"

text \<open>The loop: \<open>envs\<close> are the effects of the other goroutines before each round.\<close>

fun fetch_loop ::
  "'w nats_lib \<Rightarrow> (string set \<Rightarrow> string list) \<Rightarrow> 'w msg_handler \<Rightarrow> string \<Rightarrow> string \<Rightarrow>
     ('w NatsConnection \<times> 'w \<Rightarrow> 'w NatsConnection \<times> 'w) list \<Rightarrow> nat \<Rightarrow> 'w NatsConnection \<Rightarrow> 'w \<Rightarrow>
     fetch_status \<times> 'w NatsConnection \<times> 'w" where
  "fetch_loop nl iter handler subject durableName [] sub s w = (Fetching sub, s, w)"
| "fetch_loop nl iter handler subject durableName (env # envs) sub s w =
     (let (s, w) = env (s, w)
      in case fetch_round nl iter handler subject durableName sub s w of
           (Fetching sub, s, w) \<Rightarrow> fetch_loop nl iter handler subject durableName envs sub s w
         | r \<Rightarrow> r)"

text \<open>The goroutine of a queue subscription, for the messages it receives before the context is done; a
  nil message is skipped.\<close>

fun queue_loop :: "'w msg_handler \<Rightarrow> Msg option list \<Rightarrow> 'w \<Rightarrow> unit outcome \<times> 'w" where
  "queue_loop handler [] w = (Returned (), w)"
| "queue_loop handler (None # ms) w = queue_loop handler ms w"
| "queue_loop handler (Some msg # ms) w =
     (case handler msg w of (Panicked, w) \<Rightarrow> (Panicked, w) | (Returned _, w) \<Rightarrow> queue_loop handler ms w)"

text \<open>\<open>StartSubscription\<close> answers the subscription its goroutine starts with.\<close>

definition StartSubscription ::
  "'w nats_lib \<Rightarrow> (string set \<Rightarrow> string list) \<Rightarrow> string \<Rightarrow> string \<Rightarrow> 'w msg_handler option \<Rightarrow> 'w NatsConnection \<Rightarrow> 'w \<Rightarrow>
     (nats_error + nat) \<times> 'w NatsConnection \<times> 'w" where
  "StartSubscription nl iter subject durableName handler s w =
     (case handler of
        None \<Rightarrow> (Inl (NatsErr ''invalid subscribe parameters'' []), s, w)
      | Some h \<Rightarrow>
          if subject = '''' then (Inl (NatsErr ''invalid subscribe parameters'' []), s, w)
          else
            let s = s\<lparr>nc_handlers := (nc_handlers s)(subject \<mapsto> h)\<rparr>;
                started = (\<lambda>r. case r of
                  (Inl err, w) \<Rightarrow> (Inl err, s, w)
                | (Inr sub, w) \<Rightarrow>
                    (Inr sub, s\<lparr>nc_subject := nc_subject s @ [\<lparr>sub_Subject = subject, sub_id = sub\<rparr>]\<rparr>, w))
            in if nc_useStream s
               then (case EnsureStream nl iter s w of
                       (Some err, w) \<Rightarrow> (Inl err, s, w)
                     | (None, w) \<Rightarrow>
                         (case AddConsumer nl (nf_StreamName (nc_config s)) durableName [subject] s w of
                            (Some err, w) \<Rightarrow> (Inl err, s, w)
                          | (None, w) \<Rightarrow>
                              started (nl_PullSubscribe nl subject durableName (nf_StreamName (nc_config s)) w)))
               else started (nl_QueueSubscribe nl subject durableName w))"

text \<open>The loop of \<open>StopSubscription\<close>: \<open>before\<close> are the subscriptions already passed.\<close>

fun stop_loop ::
  "'w nats_lib \<Rightarrow> string \<Rightarrow> Subscription list \<Rightarrow> Subscription list \<Rightarrow> 'w \<Rightarrow> nats_error option \<times> Subscription list \<times> 'w" where
  "stop_loop nl subject before [] w = (Some (NatsErr ''subject not found'' []), before, w)"
| "stop_loop nl subject before (sub # subs) w =
     (if sub_Subject sub = subject
      then (case nl_Unsubscribe nl (sub_id sub) w of
              (Some err, w) \<Rightarrow> (Some err, before @ sub # subs, w)
            | (None, w) \<Rightarrow> (None, before @ subs, w))
      else stop_loop nl subject (before @ [sub]) subs w)"

definition StopSubscription ::
  "'w nats_lib \<Rightarrow> string \<Rightarrow> 'w NatsConnection \<Rightarrow> 'w \<Rightarrow> nats_error option \<times> 'w NatsConnection \<times> 'w" where
  "StopSubscription nl subject s w =
     (let (err, subs, w) = stop_loop nl subject [] (nc_subject s) w in (err, s\<lparr>nc_subject := subs\<rparr>, w))"

fun unsubscribe_all :: "'w nats_lib \<Rightarrow> Subscription list \<Rightarrow> 'w \<Rightarrow> nats_error option \<times> 'w" where
  "unsubscribe_all nl [] w = (None, w)"
| "unsubscribe_all nl (sub # subs) w =
     (case nl_Unsubscribe nl (sub_id sub) w of
        (Some err, w) \<Rightarrow> (Some err, w)
      | (None, w) \<Rightarrow> unsubscribe_all nl subs w)"

definition StopAllSubscriptions ::
  "'w nats_lib \<Rightarrow> 'w NatsConnection \<Rightarrow> 'w \<Rightarrow> nats_error option \<times> 'w NatsConnection \<times> 'w" where
  "StopAllSubscriptions nl s w =
     (case unsubscribe_all nl (nc_subject s) w of
        (Some err, w) \<Rightarrow> (Some err, s, w)
      | (None, w) \<Rightarrow> (None, s\<lparr>nc_subject := []\<rparr>, w))"

subsection \<open>Start, stop and publish\<close>

text \<open>The cases the \<open>select\<close> of \<open>Start\<close> takes, in order.\<close>

datatype start_event = EvCtxDone | EvReconnect | EvDisconnect
datatype start_status = StartReturned | StartPanicked | StartWaiting

definition handle_reconnect ::
  "'w nats_lib \<Rightarrow> (string set \<Rightarrow> string list) \<Rightarrow> 'w NatsConnection \<Rightarrow> 'w \<Rightarrow> 'w NatsConnection \<times> 'w" where
  "handle_reconnect nl iter s w =
     (if nc_useStream s
      then (case nl_JetStream nl 100 w of
              (Inl err, w) \<Rightarrow> (s, w)
            | (Inr js, w) \<Rightarrow> (let s = s\<lparr>nc_js := Some js\<rparr>; (_, w) = EnsureStream nl iter s w in (s, w)))
      else (s, w))"

fun start_loop ::
  "'w nats_lib \<Rightarrow> (string set \<Rightarrow> string list) \<Rightarrow> start_event list \<Rightarrow> 'w NatsConnection \<Rightarrow> 'w \<Rightarrow>
     start_status \<times> 'w NatsConnection \<times> 'w" where
  "start_loop nl iter [] s w = (StartWaiting, s, w)"
| "start_loop nl iter (EvCtxDone # evs) s w = (StartReturned, s, w)"
| "start_loop nl iter (EvReconnect # evs) s w = (let (s, w) = handle_reconnect nl iter s w in start_loop nl iter evs s w)"
| "start_loop nl iter (EvDisconnect # evs) s w = start_loop nl iter evs s w"

definition Start ::
  "'w nats_lib \<Rightarrow> (string set \<Rightarrow> string list) \<Rightarrow> start_event list \<Rightarrow> 'w NatsConnection \<Rightarrow> 'w \<Rightarrow>
     start_status \<times> 'w NatsConnection \<times> 'w" where
  "Start nl iter evs s w =
     (if nc_useStream s
      then (case EnsureStream nl iter s w of
              (Some err, w) \<Rightarrow> (StartPanicked, s, w)
            | (None, w) \<Rightarrow> start_loop nl iter evs s w)
      else start_loop nl iter evs s w)"

definition Stop :: "'w nats_lib \<Rightarrow> 'w NatsConnection \<Rightarrow> 'w \<Rightarrow> 'w NatsConnection \<times> 'w" where
  "Stop nl s w = (s\<lparr>nc_ctx_done := True\<rparr>, nl_Close nl w)"

definition Publish :: "'w nats_lib \<Rightarrow> string \<Rightarrow> string \<Rightarrow> 'w NatsConnection \<Rightarrow> 'w \<Rightarrow> nats_error option outcome \<times> 'w" where
  "Publish nl subject data s w =
     (if nc_useStream s
      then (if nc_js s = None then (Panicked, w)
            else let (err, w) = nl_js_Publish nl subject data w in (Returned err, w))
      else let (err, w) = nl_Publish nl subject data w in (Returned err, w))"

definition PublishAsync :: "'w nats_lib \<Rightarrow> string \<Rightarrow> string \<Rightarrow> 'w NatsConnection \<Rightarrow> 'w \<Rightarrow> nats_error option outcome \<times> 'w" where
  "PublishAsync nl subject data s w =
     (if \<not> nc_useStream s then Publish nl subject data s w
      else if nc_js s = None then (Panicked, w)
      else let (err, w) = nl_js_PublishAsync nl subject data w in (Returned err, w))"

subsection \<open>The connection manager\<close>

type_synonym 'w NatsConnManager = "string \<rightharpoonup> 'w NatsConnection"

definition addClient ::
  "log_state \<Rightarrow> 'w nats_lib \<Rightarrow> string \<Rightarrow> NatsConfig option \<Rightarrow> 'w NatsConnManager \<Rightarrow> 'w \<Rightarrow>
     nats_error option outcome \<times> 'w NatsConnManager \<times> 'w" where
  "addClient ls nl key config m w =
     (if m key \<noteq> None then (Returned None, m, w)
      else case NewNatsConnect ls nl key config w of
             (Panicked, w) \<Rightarrow> (Panicked, m, w)
           | (Returned (Inl err), w) \<Rightarrow> (Returned (Some err), m, w)
           | (Returned (Inr nc), w) \<Rightarrow> (Returned None, m(key \<mapsto> nc), w))"

text \<open>The singleton: the decoded configuration, whether the once is spent, and the manager. A nil entry of
  the configuration panics when its name is read.\<close>

record 'w nats_singleton =
  ns_config :: "NatsConfig option list"
  ns_once :: bool
  ns_manager :: "'w NatsConnManager option"

definition nats_Init :: "NatsConfig option list option \<Rightarrow> 'w nats_singleton \<Rightarrow> unit outcome \<times> 'w nats_singleton" where
  "nats_Init parsed st = (case parsed of None \<Rightarrow> (Panicked, st) | Some cs \<Rightarrow> (Returned (), st\<lparr>ns_config := cs\<rparr>))"

fun add_all ::
  "log_state \<Rightarrow> 'w nats_lib \<Rightarrow> NatsConfig option list \<Rightarrow> 'w NatsConnManager \<Rightarrow> 'w \<Rightarrow> unit outcome \<times> 'w NatsConnManager \<times> 'w" where
  "add_all ls nl [] m w = (Returned (), m, w)"
| "add_all ls nl (None # cfgs) m w = (Panicked, m, w)"
| "add_all ls nl (Some cfg # cfgs) m w =
     (case addClient ls nl (nf_Name cfg) (Some cfg) m w of
        (Returned None, m, w) \<Rightarrow> add_all ls nl cfgs m w
      | (_, m, w) \<Rightarrow> (Panicked, m, w))"

definition GetNatsManager ::
  "log_state \<Rightarrow> 'w nats_lib \<Rightarrow> 'w nats_singleton \<Rightarrow> 'w \<Rightarrow> 'w NatsConnManager option outcome \<times> 'w nats_singleton \<times> 'w" where
  "GetNatsManager ls nl st w =
     (if ns_once st then (Returned (ns_manager st), st, w)
      else case add_all ls nl (ns_config st) Map.empty w of
             (r, m, w) \<Rightarrow>
               (case r of Returned _ \<Rightarrow> Returned (Some m) | Panicked \<Rightarrow> Panicked,
                st\<lparr>ns_once := True, ns_manager := Some m\<rparr>, w))"

definition GetClient :: "string \<Rightarrow> 'w NatsConnManager \<Rightarrow> 'w NatsConnection option" where
  "GetClient key m = m key"

text \<open>\<open>order\<close> is the iteration order over the keys. The connections stopped are pointers that callers
  may still hold: they are answered too.\<close>

fun CloseAll ::
  "'w nats_lib \<Rightarrow> string list \<Rightarrow> 'w NatsConnManager \<Rightarrow> 'w \<Rightarrow> 'w NatsConnection list \<times> 'w NatsConnManager \<times> 'w" where
  "CloseAll nl [] m w = ([], m, w)"
| "CloseAll nl (k # order) m w =
     (case m k of
        None \<Rightarrow> CloseAll nl order m w
      | Some c \<Rightarrow>
          (let (c, w) = Stop nl c w; (cs, m, w) = CloseAll nl order (m(k := None)) w in (c # cs, m, w)))"


text \<open>\<open>StartAll\<close> starts one goroutine per connection, in the order of the iteration; a nil entry is skipped. The result lists
  the goroutines, each of which runs \<open>Start\<close>.\<close>

definition StartAll :: "string list \<Rightarrow> 'w NatsConnManager \<Rightarrow> 'w NatsConnection list" where
  "StartAll order m = List.map_filter m order"

section \<open>Lemmas\<close>

text \<open>What is used of the Go run-time: a loop over a map visits every key once.\<close>

definition iter_law :: "(string set \<Rightarrow> string list) \<Rightarrow> bool" where
  "iter_law iter \<longleftrightarrow> (\<forall>S. finite S \<longrightarrow> distinct (iter S) \<and> set (iter S) = S)"

text \<open>What is used of JetStream: asking for a stream or a consumer changes nothing and answers what is
  stored, or an error; a successful update stores the subjects it is given; a successful creation stores
  them too and takes none away; consumers are stored and deleted under their durable name.\<close>

definition jetstream_laws ::
  "'w nats_lib \<Rightarrow> ('w \<Rightarrow> string \<rightharpoonup> StreamConfig) \<Rightarrow> ('w \<Rightarrow> string \<times> string \<rightharpoonup> ConsumerConfig) \<Rightarrow> bool" where
  "jetstream_laws nl streams consumers \<longleftrightarrow>
     (\<forall>n w r w'. nl_StreamInfo nl n w = (r, w') \<longrightarrow>
        streams w' = streams w \<and> consumers w' = consumers w \<and> r \<noteq> (None, None) \<and>
        (\<forall>c. r = (Some c, None) \<longrightarrow> streams w n = Some c \<and> sc_Name c = n)) \<and>
     (\<forall>c w i w'. nl_AddStream nl c w = ((i, None), w') \<longrightarrow>
        consumers w' = consumers w \<and>
        (\<exists>c'. streams w' = (streams w)(sc_Name c \<mapsto> c') \<and> set (sc_Subjects c) \<subseteq> set (sc_Subjects c') \<and>
           (\<forall>c0. streams w (sc_Name c) = Some c0 \<longrightarrow> set (sc_Subjects c0) \<subseteq> set (sc_Subjects c')))) \<and>
     (\<forall>c w w'. nl_UpdateStream nl c w = (None, w') \<longrightarrow>
        consumers w' = consumers w \<and>
        (\<exists>c'. streams w' = (streams w)(sc_Name c \<mapsto> c') \<and> set (sc_Subjects c') = set (sc_Subjects c))) \<and>
     (\<forall>n d w r w'. nl_ConsumerInfo nl n d w = (r, w') \<longrightarrow>
        streams w' = streams w \<and> consumers w' = consumers w \<and>
        (\<forall>c. r = (Some c, None) \<longrightarrow> consumers w (n, d) = Some c)) \<and>
     (\<forall>n d w w'. nl_DeleteConsumer nl n d w = (None, w') \<longrightarrow>
        streams w' = streams w \<and> consumers w' = (consumers w)((n, d) := None)) \<and>
     (\<forall>n c w w'. nl_AddConsumer nl n c w = (None, w') \<longrightarrow>
        streams w' = streams w \<and> consumers w' = (consumers w)((n, cc_Durable c) \<mapsto> c)) \<and>
     (\<forall>sj d n w r w'. nl_PullSubscribe nl sj d n w = (r, w') \<longrightarrow>
        streams w' = streams w \<and> consumers w' = consumers w)"

lemma jetstream_lawsD:
  assumes "jetstream_laws nl streams consumers"
  shows "nl_StreamInfo nl n w = (r, w') \<Longrightarrow> streams w' = streams w \<and> consumers w' = consumers w \<and> r \<noteq> (None, None)"
    and "nl_StreamInfo nl n w = ((Some c, None), w') \<Longrightarrow> streams w n = Some c \<and> sc_Name c = n"
    and "nl_AddStream nl c w = ((i, None), w') \<Longrightarrow> consumers w' = consumers w \<and>
        (\<exists>c'. streams w' = (streams w)(sc_Name c \<mapsto> c') \<and> set (sc_Subjects c) \<subseteq> set (sc_Subjects c') \<and>
           (\<forall>c0. streams w (sc_Name c) = Some c0 \<longrightarrow> set (sc_Subjects c0) \<subseteq> set (sc_Subjects c')))"
    and "nl_UpdateStream nl c w = (None, w') \<Longrightarrow> consumers w' = consumers w \<and>
        (\<exists>c'. streams w' = (streams w)(sc_Name c \<mapsto> c') \<and> set (sc_Subjects c') = set (sc_Subjects c))"
    and "nl_ConsumerInfo nl n d w = (ci, w') \<Longrightarrow> streams w' = streams w \<and> consumers w' = consumers w \<and>
        (\<forall>c. ci = (Some c, None) \<longrightarrow> consumers w (n, d) = Some c)"
    and "nl_DeleteConsumer nl n d w = (None, w') \<Longrightarrow>
        streams w' = streams w \<and> consumers w' = (consumers w)((n, d) := None)"
    and "nl_AddConsumer nl n cc w = (None, w') \<Longrightarrow>
        streams w' = streams w \<and> consumers w' = (consumers w)((n, cc_Durable cc) \<mapsto> cc)"
    and "nl_PullSubscribe nl sj d n w = (ps, w') \<Longrightarrow> streams w' = streams w \<and> consumers w' = consumers w"
proof -
  note L = assms[unfolded jetstream_laws_def]
  note L1 = L[THEN conjunct1, rule_format] and R1 = L[THEN conjunct2]
  note L2 = R1[THEN conjunct1, rule_format] and R2 = R1[THEN conjunct2]
  note L3 = R2[THEN conjunct1, rule_format] and R3 = R2[THEN conjunct2]
  note L4 = R3[THEN conjunct1, rule_format] and R4 = R3[THEN conjunct2]
  note L5 = R4[THEN conjunct1, rule_format] and R5 = R4[THEN conjunct2]
  note L6 = R5[THEN conjunct1, rule_format] and L7 = R5[THEN conjunct2, rule_format]
  show "nl_StreamInfo nl n w = (r, w') \<Longrightarrow> streams w' = streams w \<and> consumers w' = consumers w \<and> r \<noteq> (None, None)"
    and "nl_StreamInfo nl n w = ((Some c, None), w') \<Longrightarrow> streams w n = Some c \<and> sc_Name c = n"
    using L1 by blast+
  show "nl_AddStream nl c w = ((i, None), w') \<Longrightarrow> consumers w' = consumers w \<and>
      (\<exists>c'. streams w' = (streams w)(sc_Name c \<mapsto> c') \<and> set (sc_Subjects c) \<subseteq> set (sc_Subjects c') \<and>
         (\<forall>c0. streams w (sc_Name c) = Some c0 \<longrightarrow> set (sc_Subjects c0) \<subseteq> set (sc_Subjects c')))"
    by (rule L2)
  show "nl_UpdateStream nl c w = (None, w') \<Longrightarrow> consumers w' = consumers w \<and>
      (\<exists>c'. streams w' = (streams w)(sc_Name c \<mapsto> c') \<and> set (sc_Subjects c') = set (sc_Subjects c))"
    by (rule L3)
  show "nl_ConsumerInfo nl n d w = (ci, w') \<Longrightarrow> streams w' = streams w \<and> consumers w' = consumers w \<and>
      (\<forall>c. ci = (Some c, None) \<longrightarrow> consumers w (n, d) = Some c)"
    using L4 by blast
  show "nl_DeleteConsumer nl n d w = (None, w') \<Longrightarrow>
      streams w' = streams w \<and> consumers w' = (consumers w)((n, d) := None)"
    by (rule L5)
  show "nl_AddConsumer nl n cc w = (None, w') \<Longrightarrow>
      streams w' = streams w \<and> consumers w' = (consumers w)((n, cc_Durable cc) \<mapsto> cc)"
    by (rule L6)
  show "nl_PullSubscribe nl sj d n w = (ps, w') \<Longrightarrow> streams w' = streams w \<and> consumers w' = consumers w"
    by (rule L7)
qed

subsection \<open>Subjects of a stream\<close>

lemma add_subjects_set: "add_subjects xs S = S \<union> (set xs - {''''})"
  by (induction xs arbitrary: S) auto

lemma mergeSubjects_spec:
  assumes "iter_law iter"
  shows "mergeSubjects iter existing desired =
    (sorted_list_of_set ((set existing \<union> set desired) - {''''}), \<not> set desired - {''''} \<subseteq> set existing)"
proof -
  let ?A = "set existing - {''''}" and ?B = "set desired - {''''}"
  have "distinct (iter (?A \<union> ?B))" "set (iter (?A \<union> ?B)) = ?A \<union> ?B"
    using assms by (auto simp: iter_law_def)
  then have s: "sort (iter (?A \<union> ?B)) = sorted_list_of_set (?A \<union> ?B)"
    by (metis sorted_list_of_set_sort_remdups distinct_remdups_id)
  have "card (?A \<union> ?B) \<noteq> card ?A \<longleftrightarrow> \<not> ?B \<subseteq> set existing"
  proof -
    have "?B \<subseteq> set existing \<Longrightarrow> ?A \<union> ?B = ?A" by auto
    moreover have "\<not> ?B \<subseteq> set existing \<Longrightarrow> card ?A < card (?A \<union> ?B)"
      by (intro psubset_card_mono) auto
    ultimately show ?thesis by fastforce
  qed
  with s show ?thesis
    unfolding mergeSubjects_def Let_def add_subjects_set by (simp add: Un_Diff)
qed

lemma EnsureStream_ok:
  assumes laws: "jetstream_laws nl streams consumers" "iter_law iter"
    and "nc_useStream s" "EnsureStream nl iter s w = (None, w')"
  shows "consumers w' = consumers w \<and>
    (\<exists>c. streams w' = (streams w)(nf_StreamName (nc_config s) \<mapsto> c) \<and>
       set (nf_Subject (nc_config s)) - {''''} \<subseteq> set (sc_Subjects c) \<and>
       (\<forall>c0. streams w (nf_StreamName (nc_config s)) = Some c0 \<longrightarrow> set (sc_Subjects c0) - {''''} \<subseteq> set (sc_Subjects c)))"
    (is "_ \<and> (\<exists>c. ?P w' c)")
proof -
  note D = jetstream_lawsD[OF laws(1)]
  let ?n = "nf_StreamName (nc_config s)"
  obtain st e w1 where i: "nl_StreamInfo nl ?n w = ((st, e), w1)" by (metis surj_pair)
  note w1 = D(1)[OF i]
  have js: "nc_js s \<noteq> None" using assms(3,4) unfolding EnsureStream_def by (metis option.distinct(1) prod.inject)
  consider (create) e0 where "st = None" "e = Some e0" | (stored) c where "st = Some c" "e = None"
    using w1 assms(3,4) i js by (cases st; cases e) (auto simp: EnsureStream_def)
  then show ?thesis
  proof cases
    case create
    let ?c = "\<lparr>sc_Name = ?n, sc_Subjects = nf_Subject (nc_config s), sc_Retention = WorkQueuePolicy, sc_others = []\<rparr>"
    obtain x where "nl_AddStream nl ?c w1 = ((x, None), w')"
      using assms(3,4) i js create by (auto simp: EnsureStream_def split: prod.splits option.splits)
    from D(3)[OF this] w1 show ?thesis by auto
  next
    case (stored c)
    note c = D(2)[OF i[unfolded stored]]
    show ?thesis
    proof (cases "set (nf_Subject (nc_config s)) - {''''} \<subseteq> set (sc_Subjects c)")
      case True
      then have "w' = w1" using assms(3,4) i js stored by (simp add: EnsureStream_def mergeSubjects_spec[OF laws(2)])
      moreover have "streams w = (streams w)(?n \<mapsto> c)" using c by auto
      ultimately show ?thesis using w1 c True by auto
    next
      case False
      let ?m = "sorted_list_of_set (set (sc_Subjects c) \<union> set (nf_Subject (nc_config s)) - {''''})"
      have "nl_UpdateStream nl (c\<lparr>sc_Subjects := ?m\<rparr>) w1 = (None, w')"
        using assms(3,4) i js stored False by (simp add: EnsureStream_def mergeSubjects_spec[OF laws(2)])
      from D(4)[OF this] w1 c show ?thesis by auto
    qed
  qed
qed

lemma EnsureStream_again:
  assumes "iter_law iter" "nl_StreamInfo nl (nf_StreamName (nc_config s)) w = ((Some c, None), w')"
    "set (nf_Subject (nc_config s)) - {''''} \<subseteq> set (sc_Subjects c)" "nc_js s \<noteq> None" "nc_useStream s"
  shows "EnsureStream nl iter s w = (None, w')"
  using assms by (simp add: EnsureStream_def mergeSubjects_spec)

lemma EnsureStream_frame [simp]:
  "EnsureStream nl iter (s\<lparr>nc_handlers := x\<rparr>) w = EnsureStream nl iter s w"
  "EnsureStream nl iter (s\<lparr>nc_subject := y\<rparr>) w = EnsureStream nl iter s w"
proof -
  have f: "nc_config (s\<lparr>nc_handlers := x\<rparr>) = nc_config s" "nc_useStream (s\<lparr>nc_handlers := x\<rparr>) = nc_useStream s"
    "nc_js (s\<lparr>nc_handlers := x\<rparr>) = nc_js s" "nc_config (s\<lparr>nc_subject := y\<rparr>) = nc_config s"
    "nc_useStream (s\<lparr>nc_subject := y\<rparr>) = nc_useStream s" "nc_js (s\<lparr>nc_subject := y\<rparr>) = nc_js s" by simp_all
  show "EnsureStream nl iter (s\<lparr>nc_handlers := x\<rparr>) w = EnsureStream nl iter s w"
    "EnsureStream nl iter (s\<lparr>nc_subject := y\<rparr>) w = EnsureStream nl iter s w"
    unfolding EnsureStream_def f by (rule refl)+
qed

subsection \<open>Consumers\<close>

lemma consumer_config_durable [simp]: "cc_Durable (consumer_config d xs) = d"
  by (simp add: consumer_config_def Let_def)

lemma consumer_config_matches: "consumerFilterMatches (consumer_config d xs) xs"
  by (cases xs rule: remdups_adj.cases) (simp_all add: consumer_config_def consumerFilterMatches_def list_all_iff)

lemma AddConsumer_ok:
  assumes "jetstream_laws nl streams consumers" "AddConsumer nl n d xs s w = (None, w')"
  shows "streams w' = streams w \<and> (\<exists>cfg. consumers w' (n, d) = Some cfg \<and> consumerFilterMatches cfg xs)"
proof -
  note D = jetstream_lawsD[OF assms(1)]
  obtain ci e w1 where i: "nl_ConsumerInfo nl n d w = ((ci, e), w1)" by (metis surj_pair)
  note w1 = D(5)[OF i]
  have new: "streams w' = streams w2 \<and> (\<exists>cfg. consumers w' (n, d) = Some cfg \<and> consumerFilterMatches cfg xs)"
    if "nl_AddConsumer nl n (consumer_config d xs) w2 = (None, w')" for w2
    using D(7)[OF that] consumer_config_matches by auto
  show ?thesis
  proof (cases e)
    case (Some e0)
    with assms(2) i have "nl_AddConsumer nl n (consumer_config d xs) w1 = (None, w')"
      by (auto simp: AddConsumer_def Let_def split: if_splits)
    with new w1 show ?thesis by auto
  next
    case None
    show ?thesis
    proof (cases ci)
      case None
      with \<open>e = None\<close> assms(2) i have "nl_AddConsumer nl n (consumer_config d xs) w1 = (None, w')"
        by (auto simp: AddConsumer_def Let_def split: if_splits)
      with new w1 show ?thesis by auto
    next
      case (Some cfg)
      with \<open>e = None\<close> w1 have c: "consumers w (n, d) = Some cfg" by auto
      show ?thesis
      proof (cases "consumerFilterMatches cfg xs")
        case True
        with Some \<open>e = None\<close> assms(2) i have "w' = w1" by (auto simp: AddConsumer_def Let_def split: if_splits)
        with c w1 True show ?thesis by auto
      next
        case False
        with Some \<open>e = None\<close> assms(2) i obtain w2 where d: "nl_DeleteConsumer nl n d w1 = (None, w2)"
          "nl_AddConsumer nl n (consumer_config d xs) w2 = (None, w')"
          by (auto simp: AddConsumer_def Let_def split: if_splits prod.splits option.splits)
        with new[OF d(2)] D(6)[OF d(1)] w1 show ?thesis by auto
      qed
    qed
  qed
qed

subsection \<open>Subscriptions\<close>

lemma handle_msgs_filter:
  "handle_msgs nl h subject msgs w = handle_msgs nl h subject (filter (\<lambda>m. m_Subject m = subject) msgs) w"
  by (induction msgs arbitrary: w) (auto split: prod.splits outcome.splits)

lemma handle_msgs_fold:
  assumes "\<And>m w. fst (h m w) = Returned ()" "\<forall>m \<in> set msgs. m_Subject m = subject"
  shows "handle_msgs nl h subject msgs w = (Returned (), foldl (\<lambda>w m. snd (nl_Ack nl m (snd (h m w)))) w msgs)"
  using assms(2)
proof (induction msgs arbitrary: w)
  case (Cons m msgs)
  obtain w1 where "h m w = (Returned (), w1)" using assms(1)[of m w] by (cases "h m w") auto
  with Cons show ?case by (auto simp: split_beta)
qed simp

lemma self_heal_subs:
  assumes "self_heal nl iter subject d sub s w = (st, s', w')"
  shows "\<exists>ids. nc_subject s' = nc_subject s @ map (Subscription.make subject) ids \<and> st = Fetching (last (sub # ids))"
proof -
  have "(st = Fetching sub \<and> s' = s) \<or>
    (\<exists>x. st = Fetching x \<and> nc_subject s' = nc_subject s @ map (Subscription.make subject) [x])"
    using assms unfolding self_heal_def Subscription.make_def
    by (auto simp: Let_def split: prod.splits option.splits sum.splits)
  then show ?thesis
  proof
    assume "st = Fetching sub \<and> s' = s"
    then show ?thesis by (intro exI[of _ "[]"]) simp
  next
    assume "\<exists>x. st = Fetching x \<and> nc_subject s' = nc_subject s @ map (Subscription.make subject) [x]"
    then obtain x where "st = Fetching x" "nc_subject s' = nc_subject s @ map (Subscription.make subject) [x]" by blast
    then show ?thesis by (intro exI[of _ "[x]"]) simp
  qed
qed

lemma fetch_round_subs:
  assumes "fetch_round nl iter h subject d sub s w = (Fetching x, s', w')"
  shows "\<exists>ids. nc_subject s' = nc_subject s @ map (Subscription.make subject) ids \<and> x = last (sub # ids)"
proof -
  obtain r w1 where f: "nl_Fetch nl sub 10 w = (r, w1)" by fastforce
  consider "s' = s" "x = sub" | "self_heal nl iter subject d sub s w1 = (Fetching x, s', w')"
    using assms f unfolding fetch_round_def
    by (auto split: if_splits sum.splits prod.splits outcome.splits)
  then show ?thesis
  proof cases
    case 1
    then show ?thesis by (intro exI[of _ "[]"]) simp
  next
    case 2
    from self_heal_subs[OF this] show ?thesis by auto
  qed
qed

lemma fetch_loop_subs:
  assumes "fetch_loop nl iter h subject d envs sub s w = (Fetching x, s', w')"
    "\<forall>env \<in> set envs. \<forall>s w. nc_subject (fst (env (s, w))) = nc_subject s"
  shows "\<exists>ids. nc_subject s' = nc_subject s @ map (Subscription.make subject) ids \<and> x = last (sub # ids)"
  using assms
proof (induction envs arbitrary: sub s w)
  case Nil
  then show ?case by (intro exI[of _ "[]"]) simp
next
  case (Cons env envs)
  obtain s1 w1 where e: "env (s, w) = (s1, w1)" by fastforce
  with Cons.prems(2) have s1: "nc_subject s1 = nc_subject s" by (metis fst_conv list.set_intros(1))
  obtain y s2 w2 where r: "fetch_round nl iter h subject d sub s1 w1 = (Fetching y, s2, w2)"
    "fetch_loop nl iter h subject d envs y s2 w2 = (Fetching x, s', w')"
    using Cons.prems(1) e by (auto split: prod.splits fetch_status.splits)
  obtain a where "nc_subject s2 = nc_subject s1 @ map (Subscription.make subject) a" "y = last (sub # a)"
    using fetch_round_subs[OF r(1)] by blast
  moreover obtain b where "nc_subject s' = nc_subject s2 @ map (Subscription.make subject) b" "x = last (y # b)"
    using Cons.IH[OF r(2)] Cons.prems(2) by auto
  ultimately show ?case using s1 by (intro exI[of _ "a @ b"]) auto
qed

lemma stop_loop_first:
  assumes "\<forall>x \<in> set pre. sub_Subject x \<noteq> subject" "sub_Subject x = subject"
  shows "stop_loop nl subject acc (pre @ x # post) w =
    (case nl_Unsubscribe nl (sub_id x) w of
       (Some err, w) \<Rightarrow> (Some err, acc @ pre @ x # post, w) | (None, w) \<Rightarrow> (None, acc @ pre @ post, w))"
  using assms by (induction pre arbitrary: acc) (auto split: prod.splits option.splits)

lemma StartSubscription_subs:
  assumes "StartSubscription nl iter subject d (Some h) s w = (Inr sub, s', w')"
  shows "nc_subject s' = nc_subject s @ [Subscription.make subject sub]"
  using assms unfolding StartSubscription_def Subscription.make_def
  by (auto simp: Let_def split: if_splits prod.splits option.splits sum.splits)


subsection \<open>The singleton\<close>

text \<open>The call on the singleton and the server state.\<close>

definition nats_attempt :: "log_state \<Rightarrow> 'w nats_lib \<Rightarrow> 'w nats_singleton \<times> 'w \<Rightarrow> 'w NatsConnManager option outcome \<times> 'w nats_singleton \<times> 'w" where
  "nats_attempt ls nl = (\<lambda>(st, w). GetNatsManager ls nl st w)"

interpretation nats_once: once_quiet "\<lambda>(st, w). ns_once st" "nats_attempt ls nl" for ls and nl :: "'w nats_lib"
  by unfold_locales
    (auto simp: nats_attempt_def GetNatsManager_def split: prod.splits outcome.splits if_splits)

section \<open>Properties\<close>

text \<open>C23: The subjects of a stream are reconciled: when \<open>EnsureStream\<close> succeeds the stream exists and has every
  non-empty configured subject and every subject it had before, no other stream and no consumer is
  touched, and once the stream is there the next call only looks it up.\<close>

theorem ensure_stream_reconciles:
  assumes "jetstream_laws nl streams consumers" "iter_law iter" "nc_useStream s"
    "EnsureStream nl iter s w = (None, w')"
    "nl_StreamInfo nl (nf_StreamName (nc_config s)) w' = ((Some c, None), w'')"
  shows "consumers w' = consumers w \<and> streams w' = (streams w)(nf_StreamName (nc_config s) \<mapsto> c) \<and>
    set (nf_Subject (nc_config s)) - {''''} \<subseteq> set (sc_Subjects c) \<and>
    set (case streams w (nf_StreamName (nc_config s)) of None \<Rightarrow> [] | Some c0 \<Rightarrow> sc_Subjects c0) - {''''}
      \<subseteq> set (sc_Subjects c) \<and>
    EnsureStream nl iter s w' = (None, w'')"
proof -
  note ok = EnsureStream_ok[OF assms(1-4)]
  note c = jetstream_lawsD(2)[OF assms(1,5)]
  have js: "nc_js s \<noteq> None" using assms(3,4) unfolding EnsureStream_def by (metis option.distinct(1) prod.inject)
  from ok c have cover: "set (nf_Subject (nc_config s)) - {''''} \<subseteq> set (sc_Subjects c)" by auto
  from EnsureStream_again[OF assms(2,5) cover js assms(3)] ok c cover show ?thesis
    by (cases "streams w (nf_StreamName (nc_config s))") auto
qed

text \<open>C24: A subscription that starts on a stream is complete: the stream has the configured subjects, the
  durable consumer exists and filters on exactly the subscribed subject (a consumer with another filter has been
  replaced), the subscription is appended to the list and the handler is registered. \<open>mergeSubjects\<close> and so
  the result do not depend on the iteration order of the map.\<close>

theorem start_subscription_complete:
  assumes "jetstream_laws nl streams consumers" "iter_law iter" "nc_useStream s"
    "StartSubscription nl iter subject durableName (Some h) s w = (Inr sub, s', w')"
  shows "(\<exists>c. streams w' (nf_StreamName (nc_config s)) = Some c \<and>
       set (nf_Subject (nc_config s)) - {''''} \<subseteq> set (sc_Subjects c)) \<and>
    (\<exists>cfg. consumers w' (nf_StreamName (nc_config s), durableName) = Some cfg \<and>
       (cc_FilterSubject cfg = subject \<or> cc_FilterSubjects cfg = [subject])) \<and>
    nc_subject s' = nc_subject s @ [\<lparr>sub_Subject = subject, sub_id = sub\<rparr>] \<and> nc_handlers s' subject = Some h"
proof -
  let ?s = "s\<lparr>nc_handlers := (nc_handlers s)(subject \<mapsto> h)\<rparr>" and ?n = "nf_StreamName (nc_config s)"
  obtain w1 w2 where w: "EnsureStream nl iter ?s w = (None, w1)"
    "AddConsumer nl ?n durableName [subject] ?s w1 = (None, w2)"
    "nl_PullSubscribe nl subject durableName ?n w2 = (Inr sub, w')"
    "s' = ?s\<lparr>nc_subject := nc_subject s @ [\<lparr>sub_Subject = subject, sub_id = sub\<rparr>]\<rparr>"
    using assms(3,4) unfolding StartSubscription_def
    by (auto simp: Let_def split: if_splits prod.splits option.splits sum.splits)
  have "streams w' = streams w2 \<and> consumers w' = consumers w2" using jetstream_lawsD(8)[OF assms(1) w(3)] .
  moreover obtain cfg where "streams w2 = streams w1" "consumers w2 (?n, durableName) = Some cfg"
    "consumerFilterMatches cfg [subject]"
    using AddConsumer_ok[OF assms(1) w(2)] by auto
  moreover obtain c where "streams w1 ?n = Some c" "set (nf_Subject (nc_config s)) - {''''} \<subseteq> set (sc_Subjects c)"
    using EnsureStream_ok[OF assms(1,2) _ w(1)] assms(3) by auto
  moreover from \<open>consumerFilterMatches cfg [subject]\<close> have "cc_FilterSubject cfg = subject \<or> cc_FilterSubjects cfg = [subject]"
    by (cases "cc_FilterSubjects cfg") (auto simp: consumerFilterMatches_def)
  ultimately show ?thesis using w(4) by auto
qed

text \<open>An in-memory server: streams and consumers as maps, subscriptions numbered, acknowledged messages listed.\<close>

record nats_server =
  ms_streams :: "string \<rightharpoonup> StreamConfig"
  ms_consumers :: "string \<times> string \<rightharpoonup> ConsumerConfig"
  ms_next :: nat
  ms_open :: "nat list"
  ms_acked :: "nat list"

definition mem_nats :: "nats_server nats_lib" where
  "mem_nats = \<lparr>
     nl_Connect = (\<lambda>u n d o' w. (None, w)), nl_Close = id, nl_IsConnected = (\<lambda>w. True),
     nl_JetStream = (\<lambda>n w. (Inr 0, w)),
     nl_StreamInfo = (\<lambda>n w. (case ms_streams w n of
        Some c \<Rightarrow> if sc_Name c = n then (Some c, None) else (None, Some (NatsErr ''bad name'' []))
      | None \<Rightarrow> (None, Some (NatsErr ''stream not found'' [])), w)),
     nl_AddStream = (\<lambda>c w. case ms_streams w (sc_Name c) of
        None \<Rightarrow> ((Some c, None), w\<lparr>ms_streams := (ms_streams w)(sc_Name c \<mapsto> c)\<rparr>)
      | Some _ \<Rightarrow> ((None, Some (NatsErr ''stream name already in use'' [])), w)),
     nl_UpdateStream = (\<lambda>c w. (None, w\<lparr>ms_streams := (ms_streams w)(sc_Name c \<mapsto> c)\<rparr>)),
     nl_ConsumerInfo = (\<lambda>n d w. (case ms_consumers w (n, d) of
        Some c \<Rightarrow> (Some c, None) | None \<Rightarrow> (None, Some (NatsErr ''consumer not found'' [])), w)),
     nl_DeleteConsumer = (\<lambda>n d w. (None, w\<lparr>ms_consumers := (ms_consumers w)((n, d) := None)\<rparr>)),
     nl_AddConsumer = (\<lambda>n c w. (None, w\<lparr>ms_consumers := (ms_consumers w)((n, cc_Durable c) \<mapsto> c)\<rparr>)),
     nl_PullSubscribe = (\<lambda>sj d n w. (Inr (ms_next w), w\<lparr>ms_next := Suc (ms_next w), ms_open := ms_open w @ [ms_next w]\<rparr>)),
     nl_QueueSubscribe = (\<lambda>sj d w. (Inr (ms_next w), w\<lparr>ms_next := Suc (ms_next w), ms_open := ms_open w @ [ms_next w]\<rparr>)),
     nl_Unsubscribe = (\<lambda>n w. (None, w\<lparr>ms_open := removeAll n (ms_open w)\<rparr>)),
     nl_Fetch = (\<lambda>n k w. (Inl ErrNoResponders, w)),
     nl_Ack = (\<lambda>m w. (None, w\<lparr>ms_acked := ms_acked w @ [m_seq m]\<rparr>)),
     nl_js_Publish = (\<lambda>sj d w. (None, w)), nl_js_PublishAsync = (\<lambda>sj d w. (None, w)), nl_Publish = (\<lambda>sj d w. (None, w)),
     nl_Error = (\<lambda>e. case e of NatsErr t _ \<Rightarrow> t | _ \<Rightarrow> ''nats'')\<rparr>"

lemma mem_nats_laws: "jetstream_laws mem_nats ms_streams ms_consumers"
  by (auto simp: jetstream_laws_def mem_nats_def split: option.splits if_splits)

lemma iter_law_sorted: "iter_law sorted_list_of_set"
  by (simp add: iter_law_def)

definition mem_start :: nats_server where
  "mem_start = \<lparr>ms_streams = [''S'' \<mapsto> \<lparr>sc_Name = ''S'', sc_Subjects = [''a''], sc_Retention = WorkQueuePolicy, sc_others = []\<rparr>],
     ms_consumers = [(''S'', ''d'') \<mapsto> consumer_config ''d'' [''old'']], ms_next = 0, ms_open = [], ms_acked = []\<rparr>"

definition stream_conn :: "nats_server NatsConnection" where
  "stream_conn = \<lparr>nc_name = ''n'',
     nc_config = \<lparr>nf_Name = ''n'', nf_Url = ''u'', nf_UseStream = True, nf_StreamName = ''S'', nf_Type = '''',
       nf_Subject = [''b'', '''', ''a''], nf_Username = '''', nf_Password = ''''\<rparr>,
     nc_js = Some 0, nc_streamInfo = None, nc_subject = [], nc_useStream = True, nc_url = ''u'', nc_ctx_done = False,
     nc_handlers = Map.empty\<rparr>"

definition mem_ensured :: nats_server where
  "mem_ensured = mem_start\<lparr>ms_streams := [''S'' \<mapsto>
     \<lparr>sc_Name = ''S'', sc_Subjects = sorted_list_of_set {''a'', ''b''}, sc_Retention = WorkQueuePolicy, sc_others = []\<rparr>]\<rparr>"

lemma stream_conn_simps [simp]:
  "nc_useStream stream_conn" "nc_js stream_conn = Some 0" "nc_subject stream_conn = []" "\<not> nc_ctx_done stream_conn"
  "nf_StreamName (nc_config stream_conn) = ''S''" "nf_Subject (nc_config stream_conn) = [''b'', '''', ''a'']"
  by (simp_all add: stream_conn_def)

lemma mem_nats_simps [simp]:
  "ms_streams w n = Some c \<Longrightarrow> sc_Name c = n \<Longrightarrow> nl_StreamInfo mem_nats n w = ((Some c, None), w)"
  "nl_PullSubscribe mem_nats sj d n w = (Inr (ms_next w), w\<lparr>ms_next := Suc (ms_next w), ms_open := ms_open w @ [ms_next w]\<rparr>)"
  "nl_Unsubscribe mem_nats i w = (None, w\<lparr>ms_open := removeAll i (ms_open w)\<rparr>)"
  "nl_Fetch mem_nats i k w = (Inl ErrNoResponders, w)"
  by (simp_all add: mem_nats_def)

lemma EnsureStream_example:
  "EnsureStream mem_nats sorted_list_of_set stream_conn mem_start = (None, mem_ensured)"
proof -
  have "insert ''a'' {''b''} = {''a'', ''b''}" "{''a'', ''b'', '''', ''a''} - {''''} = {''a'', ''b''}" by auto
  then show ?thesis
    by (simp add: EnsureStream_def mergeSubjects_spec[OF iter_law_sorted] stream_conn_def mem_nats_def mem_start_def
        mem_ensured_def insert_commute)
qed

lemma EnsureStream_example_again:
  assumes "ms_streams w = ms_streams mem_ensured"
  shows "EnsureStream mem_nats sorted_list_of_set stream_conn w = (None, w)"
  by (rule EnsureStream_again[OF iter_law_sorted, where c = "the (ms_streams w ''S'')"])
    (use assms in \<open>auto simp: mem_ensured_def\<close>)

lemma AddConsumer_example:
  assumes "nc_useStream s" "nc_js s \<noteq> None" "ms_consumers w (''S'', ''d'') = Some (consumer_config ''d'' [x])"
    "y \<noteq> ''''"
  shows "AddConsumer mem_nats ''S'' ''d'' [y] s w =
    (None, if x = y then w else w\<lparr>ms_consumers := (ms_consumers w)((''S'', ''d'') \<mapsto> consumer_config ''d'' [y])\<rparr>)"
  using assms by (simp add: AddConsumer_def mem_nats_def consumerFilterMatches_def consumer_config_def Let_def)

lemma StartSubscription_example:
  "StartSubscription mem_nats sorted_list_of_set ''b'' ''d'' (Some h) stream_conn mem_start =
     (Inr 0, stream_conn\<lparr>nc_handlers := (nc_handlers stream_conn)(''b'' \<mapsto> h), nc_subject := [\<lparr>sub_Subject = ''b'', sub_id = 0\<rparr>]\<rparr>,
      mem_ensured\<lparr>ms_consumers := [(''S'', ''d'') \<mapsto> consumer_config ''d'' [''b'']], ms_next := 1, ms_open := [0]\<rparr>)"
proof -
  have "ms_consumers mem_ensured = [(''S'', ''d'') \<mapsto> consumer_config ''d'' [''old'']]" "ms_next mem_ensured = 0"
    "ms_open mem_ensured = []" by (simp_all add: mem_ensured_def mem_start_def)
  then show ?thesis
    by (simp add: StartSubscription_def EnsureStream_example AddConsumer_example[where x = "''old''"])
qed

theorem ensure_stream_reconciles_witness:
  "set (sc_Subjects (the (ms_streams mem_ensured ''S''))) = {''a'', ''b''} \<and>
   EnsureStream mem_nats sorted_list_of_set stream_conn mem_start = (None, mem_ensured) \<and>
   EnsureStream mem_nats sorted_list_of_set stream_conn mem_ensured = (None, mem_ensured)"
proof -
  obtain c where c: "ms_streams mem_ensured ''S'' = Some c" "sc_Name c = ''S''" by (simp add: mem_ensured_def)
  have i: "nl_StreamInfo mem_nats (nf_StreamName (nc_config stream_conn)) mem_ensured = ((Some c, None), mem_ensured)"
    using c by simp
  from ensure_stream_reconciles[OF mem_nats_laws iter_law_sorted _ EnsureStream_example i]
  have "EnsureStream mem_nats sorted_list_of_set stream_conn mem_ensured = (None, mem_ensured)" by simp
  moreover have "set (sc_Subjects (the (ms_streams mem_ensured ''S''))) = {''a'', ''b''}" by (simp add: mem_ensured_def)
  ultimately show ?thesis using EnsureStream_example by blast
qed

theorem start_subscription_complete_witness:
  "\<exists>s' w' cfg. StartSubscription mem_nats sorted_list_of_set ''b'' ''d'' (Some (\<lambda>m w. (Returned (), w))) stream_conn mem_start
       = (Inr 0, s', w') \<and>
     ms_consumers w' (''S'', ''d'') = Some cfg \<and> (cc_FilterSubject cfg = ''b'' \<or> cc_FilterSubjects cfg = [''b''])"
  using start_subscription_complete[OF mem_nats_laws iter_law_sorted _ StartSubscription_example[of "\<lambda>m w. (Returned (), w)"]]
  by (simp add: StartSubscription_example)

text \<open>After the fetch loop has rebuilt its subscription, \<open>StopSubscription\<close> stops the wrong one: the list
  keeps the dead subscription in front of the live one, the call unsubscribes the first entry of the subject,
  which is the one \<open>StartSubscription\<close> made, and the subscription the loop fetches from stays open and listed.
  Without a rebuild it stops the live one and the list is as it was before.\<close>

theorem stop_after_rebuild:
  assumes "\<forall>x \<in> set (nc_subject s). sub_Subject x \<noteq> subject"
    "StartSubscription nl iter subject durableName (Some h) s w = (Inr first, s1, w1)"
    "\<forall>env \<in> set envs. \<forall>s w. nc_subject (fst (env (s, w))) = nc_subject s"
    "fetch_loop nl iter h subject durableName envs first s1 w1 = (Fetching live, s2, w2)"
    "nl_Unsubscribe nl first w2 = (None, w3)"
  shows "\<exists>s3. StopSubscription nl subject s2 w2 = (None, s3, w3) \<and>
    (if length (nc_subject s2) = length (nc_subject s1)
     then live = first \<and> nc_subject s3 = nc_subject s
     else \<lparr>sub_Subject = subject, sub_id = live\<rparr> \<in> set (nc_subject s3))"
proof -
  obtain ids where ids: "nc_subject s2 = nc_subject s1 @ map (Subscription.make subject) ids" "live = last (first # ids)"
    using fetch_loop_subs[OF assms(4,3)] by blast
  have s1: "nc_subject s1 = nc_subject s @ [Subscription.make subject first]"
    using StartSubscription_subs[OF assms(2)] .
  have "stop_loop nl subject [] (nc_subject s @ Subscription.make subject first # map (Subscription.make subject) ids) w2 =
      (None, nc_subject s @ map (Subscription.make subject) ids, w3)"
    by (subst stop_loop_first[OF assms(1)]) (simp_all add: assms(5) Subscription.make_def)
  then have "StopSubscription nl subject s2 w2 = (None, s2\<lparr>nc_subject := nc_subject s @ map (Subscription.make subject) ids\<rparr>, w3)"
    unfolding StopSubscription_def ids(1) s1 by simp
  moreover have "ids \<noteq> [] \<Longrightarrow> live \<in> set ids" using ids(2) by simp
  ultimately show ?thesis using ids s1 by (cases "ids = []") (auto simp: Subscription.make_def)
qed

theorem stop_after_rebuild_witness:
  "\<exists>s1 w1 s2 w2 s3 w3. StartSubscription mem_nats sorted_list_of_set ''b'' ''d'' (Some (\<lambda>m w. (Returned (), w))) stream_conn mem_start
       = (Inr 0, s1, w1) \<and>
     fetch_loop mem_nats sorted_list_of_set (\<lambda>m w. (Returned (), w)) ''b'' ''d'' [id] 0 s1 w1 = (Fetching 1, s2, w2) \<and>
     StopSubscription mem_nats ''b'' s2 w2 = (None, s3, w3) \<and>
     \<lparr>sub_Subject = ''b'', sub_id = 1\<rparr> \<in> set (nc_subject s3) \<and> ms_open w3 = [1]"
proof -
  let ?h = "\<lambda>(m :: Msg) (w :: nats_server). (Returned (), w)"
  let ?x = "\<lambda>i. \<lparr>sub_Subject = ''b'', sub_id = i\<rparr>"
  let ?s1 = "stream_conn\<lparr>nc_handlers := (nc_handlers stream_conn)(''b'' \<mapsto> ?h), nc_subject := [?x 0]\<rparr>"
  let ?s2 = "?s1\<lparr>nc_subject := [?x 0, ?x 1]\<rparr>"
  let ?w1 = "mem_ensured\<lparr>ms_consumers := [(''S'', ''d'') \<mapsto> consumer_config ''d'' [''b'']], ms_next := 1, ms_open := [0]\<rparr>"
  let ?w2 = "?w1\<lparr>ms_next := 2, ms_open := [0, 1]\<rparr>"
  have b: "fetch_loop mem_nats sorted_list_of_set ?h ''b'' ''d'' [id] 0 ?s1 ?w1 = (Fetching 1, ?s2, ?w2)"
    by (simp add: fetch_round_def self_heal_def EnsureStream_example_again AddConsumer_example[where x = "''b''"])
  have u: "nl_Unsubscribe mem_nats 0 ?w2 = (None, ?w2\<lparr>ms_open := [1]\<rparr>)" by simp
  obtain s3 where s3: "StopSubscription mem_nats ''b'' ?s2 ?w2 = (None, s3, ?w2\<lparr>ms_open := [1]\<rparr>)" "?x 1 \<in> set (nc_subject s3)"
    using stop_after_rebuild[OF _ StartSubscription_example _ b u] by auto
  show ?thesis
    by (rule exI[of _ ?s1], rule exI[of _ ?w1], rule exI[of _ ?s2], rule exI[of _ ?w2], rule exI[of _ s3],
        rule exI[of _ "?w2\<lparr>ms_open := [1]\<rparr>"], intro conjI, rule StartSubscription_example, rule b, rule s3(1), rule s3(2), simp)
qed

text \<open>The fetch loop serves exactly the messages whose subject is, byte for byte, the subscribed one: when
  the handler does not panic each of them is handled and then acknowledged, in order, and nothing happens for any
  other message. A subscription with a wildcard subject therefore handles and acknowledges nothing.\<close>

theorem only_exact_subjects_served:
  assumes "\<And>m w. fst (h m w) = Returned ()"
  shows "handle_msgs nl h subject msgs w =
    (Returned (), foldl (\<lambda>w m. snd (nl_Ack nl m (snd (h m w)))) w (filter (\<lambda>m. m_Subject m = subject) msgs))"
proof -
  have "\<forall>m \<in> set (filter (\<lambda>m. m_Subject m = subject) msgs). m_Subject m = subject" by simp
  from handle_msgs_fold[of h, OF assms this] show ?thesis by (subst handle_msgs_filter) blast
qed

theorem only_exact_subjects_served_witness:
  "handle_msgs mem_nats (\<lambda>m w. (Returned (), w)) ''orders.*'' [\<lparr>m_Subject = ''orders.eu'', m_Data = ''x'', m_seq = 1\<rparr>] mem_start
     = (Returned (), mem_start)"
  using only_exact_subjects_served[of "\<lambda>m w. (Returned (), w)" mem_nats "''orders.*''"
      "[\<lparr>m_Subject = ''orders.eu'', m_Data = ''x'', m_seq = 1\<rparr>]" mem_start] by simp

text \<open>\<open>consumerFilterMatches\<close> compares the lengths and one inclusion: for distinct subjects this is equality of
  the sets, with a repeated subject it accepts a consumer that filters on more.\<close>

lemma consumerFilterMatches_sets:
  assumes "1 < length subjects"
  shows "distinct subjects \<Longrightarrow> consumerFilterMatches cfg subjects \<Longrightarrow> set (cc_FilterSubjects cfg) = set subjects"
    and "consumerFilterMatches (consumer_config ''d'' [''a'', ''b'']) [''a'', ''a'']"
proof -
  assume "distinct subjects" "consumerFilterMatches cfg subjects"
  with assms have "set subjects \<subseteq> set (cc_FilterSubjects cfg)" "length (cc_FilterSubjects cfg) = card (set subjects)"
    by (auto simp: consumerFilterMatches_def list_all_iff distinct_card split: if_splits)
  then show "set (cc_FilterSubjects cfg) = set subjects"
    by (metis List.finite_set card_length card_seteq)
qed (simp add: consumerFilterMatches_def consumer_config_def)

text \<open>When one unsubscription fails, \<open>StopAllSubscriptions\<close> keeps the whole list, closed subscriptions included.\<close>

lemma StopAll_keeps_list_on_error:
  "StopAllSubscriptions nl s w = (Some err, s', w') \<Longrightarrow> nc_subject s' = nc_subject s"
  by (auto simp: StopAllSubscriptions_def split: prod.splits option.splits)

end
