(* ===== verification/Rolling.thy ===== *)
theory Rolling
  imports Go_Prelude "HOL-Library.Multiset"
begin

section \<open>Rings of time slots\<close>

text \<open>
  Two components keep a ring of buckets that a clock advances: \<open>rollingWindow\<close> of
  \<open>breaker/googlebreaker.go\<close> and \<open>rollingCounter\<close> of \<open>load/shedder.go\<close>. This theory holds
  what they share: the ring read from its newest slot to its oldest (\<open>ring_view\<close>), the
  effect of one turn on that view, and the contract of such a window as two locales. A
  window promises that advancing it never panics and shifts its view by the number of
  slots that passed; a counting window promises in addition what recording a value does.
\<close>

definition ring_view :: "'b list \<Rightarrow> int \<Rightarrow> 'b list" where
  "ring_view bs off = rev (take (Suc (nat off)) bs) @ rev (drop (Suc (nat off)) bs)"

text \<open>A shift register of fixed length: \<open>k\<close> empty slots enter, the oldest leave.\<close>

definition shift_in :: "nat \<Rightarrow> 'b \<Rightarrow> 'b list \<Rightarrow> 'b list" where
  "shift_in k z v = take (length v) (replicate k z @ v)"

lemma length_ring_view [simp]: "length (ring_view bs off) = length bs"
  by (simp add: ring_view_def)

lemma length_shift_in [simp]: "length (shift_in k z v) = length v"
  by (simp add: shift_in_def)

lemma shift_in_0 [simp]: "shift_in 0 z v = v"
  by (simp add: shift_in_def)

lemma shift_in_Suc: "shift_in (Suc k) z v = shift_in k z (take (length v) (z # v))"
proof -
  have "replicate (Suc k) z @ v = replicate k z @ z # v"
    by (simp add: replicate_app_Cons_same)
  then show ?thesis by (simp add: shift_in_def take_append del: replicate_Suc)
qed

lemma shift_in_all: "length v \<le> k \<Longrightarrow> shift_in k z v = replicate (length v) z"
  by (simp add: shift_in_def)

text \<open>Capping the number of turns at the ring's size changes nothing: a full turn already
  clears every slot.\<close>

lemma shift_in_cap: "shift_in (min k (length v)) z v = shift_in k z v"
  by (cases "k \<le> length v") (simp_all add: shift_in_all min_def)

lemma shift_in_nth: "i + k < length v \<Longrightarrow> shift_in k z v ! (i + k) = v ! i"
  by (simp add: shift_in_def nth_append)

lemma mset_ring_view [simp]: "mset (ring_view bs off) = mset bs"
  unfolding ring_view_def by (metis append_take_drop_id mset_append mset_rev)

lemma set_ring_view [simp]: "set (ring_view bs off) = set bs"
  by (metis mset_ring_view set_mset_mset)

lemma sum_ring_view [simp]:
  fixes f :: "'b \<Rightarrow> 'm :: comm_monoid_add"
  shows "sum_list (map f (ring_view bs off)) = sum_list (map f bs)"
  by (metis mset_map mset_ring_view sum_mset_sum_list)

lemma ring_view_hd: "0 \<le> off \<Longrightarrow> off < int (length bs) \<Longrightarrow> hd (ring_view bs off) = bs ! nat off"
  by (simp add: ring_view_def hd_append hd_rev take_Suc_conv_app_nth nat_less_iff)

text \<open>One turn of the ring: the offset moves on and the slot it reaches is cleared.\<close>

lemma ring_view_turn:
  assumes "0 \<le> off" "off < int (length bs)"
  shows "ring_view (bs[nat ((off + 1) mod int (length bs)) := z]) ((off + 1) mod int (length bs))
    = take (length bs) (z # ring_view bs off)"
proof (cases "off + 1 < int (length bs)")
  case True
  define k where "k = Suc (nat off)"
  have k: "k < length bs" "nat (off + 1) = k" using True assms by (auto simp: k_def)
  obtain a x b where bs: "bs = a @ x # b" "length a = k"
    using k id_take_nth_drop[of k bs] by (metis length_take min.absorb4)
  have "ring_view bs off = rev a @ rev b @ [x]"
    using bs by (simp add: ring_view_def flip: k_def)
  moreover have "ring_view (bs[k := z]) (off + 1) = z # rev a @ rev b"
    unfolding ring_view_def k(2) bs(2)[symmetric] bs(1) by simp
  moreover have "(off + 1) mod int (length bs) = off + 1" using True assms by simp
  ultimately show ?thesis using k bs by simp
next
  case False
  then have n: "int (length bs) = off + 1" using assms by simp
  then obtain x b where bs: "bs = x # b" by (cases bs) (use assms in auto)
  have "Suc (nat off) = length bs" using n assms by simp
  then have "ring_view bs off = rev b @ [x]" by (simp add: ring_view_def bs)
  moreover have "(off + 1) mod int (length bs) = 0" using n by simp
  moreover have "ring_view (bs[0 := z]) 0 = z # rev b" by (simp add: ring_view_def bs)
  ultimately show ?thesis by (simp add: bs)
qed

text \<open>Writing the current slot changes the newest element of the view.\<close>

lemma ring_view_write:
  assumes "0 \<le> off" "off < int (length bs)"
  shows "ring_view (bs[nat off := v]) off = v # tl (ring_view bs off)"
proof -
  have k: "nat off < length bs" using assms by simp
  then have "take (Suc (nat off)) bs = take (nat off) bs @ [bs ! nat off]"
    by (simp add: take_Suc_conv_app_nth)
  moreover have "take (Suc (nat off)) (bs[nat off := v]) = take (nat off) bs @ [v]"
    using k by (simp add: take_Suc_conv_app_nth)
  ultimately show ?thesis using k by (simp add: ring_view_def)
qed

subsection \<open>The contract of a window\<close>

locale slot_window =
  fixes zero :: "'b"
    and slots :: "'w \<Rightarrow> 'b list"
    and invar :: "'w \<Rightarrow> bool"
    and passed :: "go_time \<Rightarrow> 'w \<Rightarrow> nat"
    and move_to :: "go_time \<Rightarrow> 'w \<Rightarrow> 'w option"
  assumes move_to_shifts:
    "invar w \<Longrightarrow> \<exists>w'. move_to now w = Some w' \<and> invar w' \<and>
       slots w' = shift_in (passed now w) zero (slots w)"
begin

lemma move_to_total: "invar w \<Longrightarrow> \<exists>w'. move_to now w = Some w' \<and> invar w'"
  using move_to_shifts by blast

lemma move_to_slots:
  assumes "invar w" "move_to now w = Some w'"
  shows "invar w'" "slots w' = shift_in (passed now w) zero (slots w)"
  using move_to_shifts[OF assms(1), of now] assms(2) by auto

lemma move_to_length: "invar w \<Longrightarrow> move_to now w = Some w' \<Longrightarrow> length (slots w') = length (slots w)"
  by (simp add: move_to_slots)

text \<open>After a silence of the whole window nothing old is left.\<close>

lemma move_to_silent:
  assumes "invar w" "move_to now w = Some w'" "length (slots w) \<le> passed now w"
  shows "slots w' = replicate (length (slots w)) zero"
  using assms by (simp add: move_to_slots shift_in_all)

text \<open>What is recorded in a slot stays until it leaves at the far end.\<close>

lemma move_to_keeps:
  assumes "invar w" "move_to now w = Some w'" "i + passed now w < length (slots w)"
  shows "slots w' ! (i + passed now w) = slots w ! i"
  using assms by (simp add: move_to_slots shift_in_nth)

lemma move_to_subset:
  assumes "invar w" "move_to now w = Some w'"
  shows "set (slots w') \<subseteq> insert zero (set (slots w))"
  using assms by (auto simp: move_to_slots shift_in_def dest: in_set_takeD split: if_splits)

end

text \<open>A window whose slots carry a weight and whose current slot can be added to.\<close>

locale counting_window = slot_window zero slots invar passed move_to
  for zero :: "'b"
    and slots :: "'w \<Rightarrow> 'b list"
    and invar :: "'w \<Rightarrow> bool"
    and passed :: "go_time \<Rightarrow> 'w \<Rightarrow> nat"
    and move_to :: "go_time \<Rightarrow> 'w \<Rightarrow> 'w option" +
  fixes weight :: "'b \<Rightarrow> 'm :: ordered_comm_monoid_add"
    and amount :: "'x \<Rightarrow> 'm"
    and record_at :: "go_time \<Rightarrow> 'x \<Rightarrow> 'w \<Rightarrow> 'w option"
  assumes weight_zero: "weight zero = 0"
    and record_at_adds:
      "invar w \<Longrightarrow> move_to now w = Some v \<Longrightarrow>
         \<exists>w'. record_at now x w = Some w' \<and> invar w' \<and> slots v \<noteq> [] \<and>
           (\<exists>b. slots w' = b # tl (slots v) \<and> weight b = weight (hd (slots v)) + amount x)"
begin

lemma weight_replicate_zero: "sum_list (replicate n (weight zero)) = 0"
  by (induction n) (simp_all add: weight_zero)

lemma record_at_total: "invar w \<Longrightarrow> \<exists>w'. record_at now x w = Some w' \<and> invar w'"
  using move_to_total record_at_adds by blast

text \<open>Recording adds exactly its amount to what the moved window holds.\<close>

lemma record_at_weight:
  assumes "invar w" "move_to now w = Some v" "record_at now x w = Some w'"
  shows "sum_list (map weight (slots w')) = sum_list (map weight (slots v)) + amount x"
proof -
  from record_at_adds[OF assms(1,2), of x] assms(3) obtain b where
    b: "slots w' = b # tl (slots v)" "weight b = weight (hd (slots v)) + amount x" "slots v \<noteq> []"
    by auto
  then have "slots v = hd (slots v) # tl (slots v)" by simp
  then have "sum_list (map weight (slots v)) = weight (hd (slots v)) + sum_list (map weight (tl (slots v)))"
    by (metis list.simps(9) sum_list.Cons)
  with b show ?thesis by (simp add: ac_simps)
qed

text \<open>Moving never adds weight when no slot has a negative one.\<close>

lemma move_to_weight_le:
  assumes "invar w" "move_to now w = Some v" "\<forall>b \<in> set (slots w). 0 \<le> weight b"
  shows "sum_list (map weight (slots v)) \<le> sum_list (map weight (slots w))"
proof -
  let ?n = "length (slots w)" and ?k = "passed now w"
  have s: "slots v = shift_in ?k zero (slots w)" using move_to_slots assms by blast
  have "sum_list (map weight (slots v)) = sum_list (map weight (take (?n - ?k) (slots w)))"
    by (simp add: s shift_in_def sum_list_append weight_replicate_zero)
  moreover have "sum_list (map weight (slots w)) =
      sum_list (map weight (take (?n - ?k) (slots w))) + sum_list (map weight (drop (?n - ?k) (slots w)))"
    by (metis append_take_drop_id map_append sum_list_append)
  moreover have "0 \<le> sum_list (map weight (drop (?n - ?k) (slots w)))"
    using assms(3) by (intro sum_list_nonneg) (auto dest: in_set_dropD)
  ultimately show ?thesis by (simp add: add_increasing2)
qed

lemma move_to_silent_weight:
  assumes "invar w" "move_to now w = Some v" "length (slots w) \<le> passed now w"
  shows "sum_list (map weight (slots v)) = 0"
  using move_to_silent[OF assms] by (simp add: weight_replicate_zero)

end

end
