(* ===== verification/Breaker.thy ===== *)
theory Breaker
  imports Rolling
begin

section \<open>The circuit breaker\<close>

text \<open>
  Models \<open>breaker/googlebreaker.go\<close>: the rolling window of buckets, the configuration and
  its normalisation, and \<open>GoogleBreaker\<close> with \<open>Allow\<close>, the promise's \<open>Accept\<close> and \<open>Reject\<close>,
  \<open>Do\<close> and \<open>DoWithAcceptable\<close>. Each reading of \<open>time.Now()\<close> and of \<open>rand.Float64()\<close> is an
  argument. The mutex makes every window operation atomic, so each is one definition.
\<close>

subsection \<open>Configuration\<close>

record GoogleBreakerConfig =
  gbc_K :: float64
  gbc_Buckets :: int
  gbc_BucketTimeMs :: int
  gbc_MinReqs :: int

definition DefaultGoogleBreakerConfig :: GoogleBreakerConfig where
  "DefaultGoogleBreakerConfig =
     \<lparr>gbc_K = 3 / 2, gbc_Buckets = 40, gbc_BucketTimeMs = 250, gbc_MinReqs = 100\<rparr>"

definition normalizeGoogleBreakerConfig :: "GoogleBreakerConfig \<Rightarrow> GoogleBreakerConfig" where
  "normalizeGoogleBreakerConfig config =
     (let defaults = DefaultGoogleBreakerConfig;
          config = (if gbc_K config \<le> 0 then config\<lparr>gbc_K := gbc_K defaults\<rparr> else config);
          config = (if gbc_Buckets config \<le> 0
                    then config\<lparr>gbc_Buckets := gbc_Buckets defaults\<rparr> else config);
          config = (if gbc_BucketTimeMs config \<le> 0
                    then config\<lparr>gbc_BucketTimeMs := gbc_BucketTimeMs defaults\<rparr> else config);
          config = (if gbc_MinReqs config \<le> 0
                    then config\<lparr>gbc_MinReqs := gbc_MinReqs defaults\<rparr> else config)
      in config)"

subsection \<open>The rolling window\<close>

record bucket =
  bk_accepts :: int
  bk_total :: int

definition empty_bucket :: bucket where
  "empty_bucket = \<lparr>bk_accepts = 0, bk_total = 0\<rparr>"

record rollingWindow =
  rw_buckets :: "bucket list"
  rw_size :: int
  rw_bucketTime :: duration
  rw_offset :: int
  rw_lastTime :: go_time

definition newRollingWindow :: "int \<Rightarrow> duration \<Rightarrow> go_time \<Rightarrow> rollingWindow option" where
  "newRollingWindow sz bucketTime now = do {
     bs \<leftarrow> make_slice empty_bucket sz;
     Some \<lparr>rw_buckets = bs, rw_size = sz, rw_bucketTime = bucketTime, rw_offset = 0,
           rw_lastTime = now\<rparr> }"

text \<open>The loop of \<open>advance\<close>: \<open>elapsed\<close> turns of the ring.\<close>

fun rollingWindow_turns :: "nat \<Rightarrow> rollingWindow \<Rightarrow> rollingWindow option" where
  "rollingWindow_turns 0 rw = Some rw"
| "rollingWindow_turns (Suc n) rw = do {
     off \<leftarrow> go_mod (rw_offset rw + 1) (rw_size rw);
     bs \<leftarrow> go_store (rw_buckets rw) off empty_bucket;
     rollingWindow_turns n (rw\<lparr>rw_offset := off, rw_buckets := bs\<rparr>) }"

definition rollingWindow_advance :: "go_time \<Rightarrow> rollingWindow \<Rightarrow> rollingWindow option" where
  "rollingWindow_advance now rw = do {
     elapsed \<leftarrow> go_div (now - rw_lastTime rw) (rw_bucketTime rw);
     if elapsed \<le> 0 then Some rw
     else do {
       let elapsed = (if elapsed > rw_size rw then rw_size rw else elapsed);
       rw' \<leftarrow> rollingWindow_turns (nat elapsed) rw;
       Some (rw'\<lparr>rw_lastTime := now\<rparr>) } }"

definition rollingWindow_add ::
  "go_time \<Rightarrow> int \<times> int \<Rightarrow> rollingWindow \<Rightarrow> rollingWindow option" where
  "rollingWindow_add now d rw = do {
     rw \<leftarrow> rollingWindow_advance now rw;
     b \<leftarrow> go_index (rw_buckets rw) (rw_offset rw);
     bs \<leftarrow> go_store (rw_buckets rw) (rw_offset rw)
             (b\<lparr>bk_accepts := bk_accepts b + fst d, bk_total := bk_total b + snd d\<rparr>);
     Some (rw\<lparr>rw_buckets := bs\<rparr>) }"

definition rollingWindow_sum ::
  "go_time \<Rightarrow> rollingWindow \<Rightarrow> ((int \<times> int) \<times> rollingWindow) option" where
  "rollingWindow_sum now rw = do {
     rw \<leftarrow> rollingWindow_advance now rw;
     Some ((foldl (\<lambda>a b. a + bk_accepts b) 0 (rw_buckets rw),
            foldl (\<lambda>a b. a + bk_total b) 0 (rw_buckets rw)), rw) }"

subsection \<open>The breaker\<close>

record GoogleBreaker =
  gb_window :: rollingWindow
  gb_k :: float64
  gb_minReqs :: int

datatype breaker_error = ErrServiceUnavailable

definition NewGoogleBreakerWithConfig :: "GoogleBreakerConfig \<Rightarrow> go_time \<Rightarrow> GoogleBreaker option" where
  "NewGoogleBreakerWithConfig config now = do {
     let config = normalizeGoogleBreakerConfig config;
     w \<leftarrow> newRollingWindow (gbc_Buckets config)
            (duration_of (gbc_BucketTimeMs config) Millisecond) now;
     Some \<lparr>gb_window = w, gb_k = gbc_K config, gb_minReqs = gbc_MinReqs config\<rparr> }"

definition NewGoogleBreaker :: "go_time \<Rightarrow> GoogleBreaker option" where
  "NewGoogleBreaker now = NewGoogleBreakerWithConfig DefaultGoogleBreakerConfig now"

definition dropRatio :: "GoogleBreaker \<Rightarrow> int \<Rightarrow> int \<Rightarrow> float64" where
  "dropRatio gb accepts tot =
     max 0 ((of_int tot - gb_k gb * of_int accepts) / of_int (tot + 1))"

text \<open>\<open>accept()\<close>: \<^term>\<open>True\<close> when it returns nil, \<^term>\<open>False\<close> for \<open>ErrServiceUnavailable\<close>.\<close>

definition breaker_accept :: "go_time \<Rightarrow> float64 \<Rightarrow> GoogleBreaker \<Rightarrow> (bool \<times> GoogleBreaker) option" where
  "breaker_accept now rnd gb = do {
     ((accepts, tot), w) \<leftarrow> rollingWindow_sum now (gb_window gb);
     let gb = gb\<lparr>gb_window := w\<rparr>;
     if tot < gb_minReqs gb then Some (True, gb)
     else let r = dropRatio gb accepts tot in
       if r \<le> 0 then Some (True, gb)
       else if rnd < r then Some (False, gb)
       else Some (True, gb) }"

definition Allow ::
  "go_time \<Rightarrow> float64 \<Rightarrow> GoogleBreaker \<Rightarrow> (breaker_error option \<times> GoogleBreaker) option" where
  "Allow now rnd gb = do {
     (ok, gb) \<leftarrow> breaker_accept now rnd gb;
     Some (if ok then None else Some ErrServiceUnavailable, gb) }"

definition markSuccess :: "go_time \<Rightarrow> GoogleBreaker \<Rightarrow> GoogleBreaker option" where
  "markSuccess now gb = do {
     w \<leftarrow> rollingWindow_add now (1, 1) (gb_window gb);
     Some (gb\<lparr>gb_window := w\<rparr>) }"

definition markFailure :: "go_time \<Rightarrow> GoogleBreaker \<Rightarrow> GoogleBreaker option" where
  "markFailure now gb = do {
     w \<leftarrow> rollingWindow_add now (0, 1) (gb_window gb);
     Some (gb\<lparr>gb_window := w\<rparr>) }"

definition promise_Accept :: "go_time \<Rightarrow> GoogleBreaker \<Rightarrow> GoogleBreaker option" where
  "promise_Accept = markSuccess"

definition promise_Reject :: "go_time \<Rightarrow> GoogleBreaker \<Rightarrow> GoogleBreaker option" where
  "promise_Reject = markFailure"

text \<open>
  \<open>req\<close> is the caller's function over a state of its own; it returns an error or nil, or it
  panics, and then neither \<open>Accept\<close> nor \<open>Reject\<close> runs. \<open>t1\<close> and \<open>t2\<close> are the clock at
  \<open>Allow\<close> and at the mark.
\<close>

definition DoWithAcceptable ::
  "go_time \<Rightarrow> go_time \<Rightarrow> float64 \<Rightarrow> ('w \<Rightarrow> 'e option outcome \<times> 'w) \<Rightarrow> ('e \<Rightarrow> bool) \<Rightarrow>
   GoogleBreaker \<Rightarrow> 'w \<Rightarrow> ((breaker_error + 'e) option outcome \<times> GoogleBreaker \<times> 'w) option" where
  "DoWithAcceptable t1 t2 rnd req acceptable gb w = do {
     (err, gb) \<leftarrow> Allow t1 rnd gb;
     case err of
       Some e \<Rightarrow> Some (Returned (Some (Inl e)), gb, w)
     | None \<Rightarrow>
         (case req w of
            (Panicked, w) \<Rightarrow> Some (Panicked, gb, w)
          | (Returned res, w) \<Rightarrow> do {
              gb \<leftarrow> (if (case res of None \<Rightarrow> True | Some e \<Rightarrow> acceptable e)
                     then promise_Accept t2 gb else promise_Reject t2 gb);
              Some (Returned (map_option Inr res), gb, w) }) }"

definition Do ::
  "go_time \<Rightarrow> go_time \<Rightarrow> float64 \<Rightarrow> ('w \<Rightarrow> 'e option outcome \<times> 'w) \<Rightarrow>
   GoogleBreaker \<Rightarrow> 'w \<Rightarrow> ((breaker_error + 'e) option outcome \<times> GoogleBreaker \<times> 'w) option" where
  "Do t1 t2 rnd req gb w = DoWithAcceptable t1 t2 rnd req (\<lambda>_. False) gb w"

text \<open>A run of the breaker: what its clients call, in the order the mutex serialises it.\<close>

datatype breaker_op = OpAllow go_time float64 | OpAccept go_time | OpReject go_time

fun breaker_step :: "breaker_op \<Rightarrow> GoogleBreaker \<Rightarrow> (bool \<times> GoogleBreaker) option" where
  "breaker_step (OpAllow t rnd) gb = breaker_accept t rnd gb"
| "breaker_step (OpAccept t) gb = map_option (Pair True) (promise_Accept t gb)"
| "breaker_step (OpReject t) gb = map_option (Pair True) (promise_Reject t gb)"

fun breaker_run :: "breaker_op list \<Rightarrow> GoogleBreaker \<Rightarrow> (bool list \<times> GoogleBreaker) option" where
  "breaker_run [] gb = Some ([], gb)"
| "breaker_run (op # ops) gb = do {
     (ok, gb) \<leftarrow> breaker_step op gb;
     (oks, gb) \<leftarrow> breaker_run ops gb;
     Some (ok # oks, gb) }"

subsection \<open>Invariants and abstraction\<close>

definition wf_window :: "rollingWindow \<Rightarrow> bool" where
  "wf_window rw \<longleftrightarrow> 0 < rw_size rw \<and> 0 < rw_bucketTime rw \<and>
     int (length (rw_buckets rw)) = rw_size rw \<and> 0 \<le> rw_offset rw \<and> rw_offset rw < rw_size rw"

text \<open>The window as its clients see it: the buckets from the newest to the oldest.\<close>

definition window_view :: "rollingWindow \<Rightarrow> bucket list" where
  "window_view rw = ring_view (rw_buckets rw) (rw_offset rw)"

definition slots_passed :: "go_time \<Rightarrow> rollingWindow \<Rightarrow> nat" where
  "slots_passed now rw = nat (trunc_div (now - rw_lastTime rw) (rw_bucketTime rw))"

definition bump :: "int \<times> int \<Rightarrow> bucket \<Rightarrow> bucket" where
  "bump d b = b\<lparr>bk_accepts := bk_accepts b + fst d, bk_total := bk_total b + snd d\<rparr>"

definition bucket_ok :: "bucket \<Rightarrow> bool" where
  "bucket_ok b \<longleftrightarrow> 0 \<le> bk_accepts b \<and> bk_accepts b \<le> bk_total b"

definition breaker_inv :: "GoogleBreaker \<Rightarrow> bool" where
  "breaker_inv gb \<longleftrightarrow> wf_window (gb_window gb) \<and> list_all bucket_ok (window_view (gb_window gb)) \<and>
     0 < gb_k gb \<and> 0 < gb_minReqs gb"

section \<open>Lemmas\<close>

subsection \<open>The window as a shift register\<close>

lemma turns_shift:
  "wf_window rw \<Longrightarrow> \<exists>rw'. rollingWindow_turns n rw = Some rw' \<and> wf_window rw' \<and>
     window_view rw' = shift_in n empty_bucket (window_view rw) \<and>
     rw_bucketTime rw' = rw_bucketTime rw \<and> rw_size rw' = rw_size rw"
proof (induction n arbitrary: rw)
  case 0
  then show ?case by simp
next
  case (Suc n)
  let ?o = "(rw_offset rw + 1) mod rw_size rw"
  let ?bs = "(rw_buckets rw)[nat ?o := empty_bucket]"
  let ?rw = "rw\<lparr>rw_offset := ?o, rw_buckets := ?bs\<rparr>"
  from Suc.prems have wf: "0 < rw_size rw" "0 \<le> rw_offset rw" "rw_offset rw < rw_size rw"
      "int (length (rw_buckets rw)) = rw_size rw" "0 < rw_bucketTime rw"
    by (simp_all add: wf_window_def)
  then have o: "0 \<le> ?o" "?o < int (length (rw_buckets rw))" by simp_all
  have "wf_window ?rw" using wf o by (simp add: wf_window_def)
  from Suc.IH[OF this] obtain rw' where
    rw': "rollingWindow_turns n ?rw = Some rw'" "wf_window rw'"
      "window_view rw' = shift_in n empty_bucket (window_view ?rw)"
      "rw_bucketTime rw' = rw_bucketTime rw" "rw_size rw' = rw_size rw"
    by auto
  have "window_view ?rw = take (length (window_view rw)) (empty_bucket # window_view rw)"
    using ring_view_turn[of "rw_offset rw" "rw_buckets rw" empty_bucket] wf
    by (simp add: window_view_def)
  with rw' show ?case using wf o
    by (simp add: go_simps shift_in_Suc)
qed

lemma window_view_length: "wf_window rw \<Longrightarrow> int (length (window_view rw)) = rw_size rw"
  by (simp add: window_view_def wf_window_def)

lemma advance_shift:
  assumes "wf_window rw"
  shows "\<exists>rw'. rollingWindow_advance now rw = Some rw' \<and> wf_window rw' \<and>
    window_view rw' = shift_in (slots_passed now rw) empty_bucket (window_view rw)"
proof -
  let ?q = "trunc_div (now - rw_lastTime rw) (rw_bucketTime rw)"
  have q: "go_div (now - rw_lastTime rw) (rw_bucketTime rw) = Some ?q"
    using assms by (simp add: wf_window_def go_simps)
  show ?thesis
  proof (cases "?q \<le> 0")
    case True
    then show ?thesis using assms q by (simp add: rollingWindow_advance_def slots_passed_def)
  next
    case False
    let ?e = "if ?q > rw_size rw then rw_size rw else ?q"
    from turns_shift[OF assms, of "nat ?e"] obtain rw' where
      rw': "rollingWindow_turns (nat ?e) rw = Some rw'" "wf_window rw'"
        "window_view rw' = shift_in (nat ?e) empty_bucket (window_view rw)"
      by blast
    have "nat ?e = min (slots_passed now rw) (length (window_view rw))"
      using window_view_length[OF assms] by (auto simp: slots_passed_def min_def)
    with rw' have "window_view rw' = shift_in (slots_passed now rw) empty_bucket (window_view rw)"
      by (simp only: shift_in_cap)
    moreover have "wf_window (rw'\<lparr>rw_lastTime := now\<rparr>)"
      "window_view (rw'\<lparr>rw_lastTime := now\<rparr>) = window_view rw'"
      using rw'(2) by (simp_all add: wf_window_def window_view_def)
    ultimately show ?thesis using q False rw'(1)
      by (simp add: rollingWindow_advance_def Let_def)
  qed
qed

lemma add_after_advance:
  assumes "wf_window rw" "rollingWindow_advance now rw = Some v"
  shows "\<exists>rw'. rollingWindow_add now d rw = Some rw' \<and> wf_window rw' \<and> window_view v \<noteq> [] \<and>
    window_view rw' = bump d (hd (window_view v)) # tl (window_view v)"
proof -
  have v: "wf_window v" using advance_shift[OF assms(1), of now] assms(2) by auto
  then have o: "0 \<le> rw_offset v" "rw_offset v < int (length (rw_buckets v))"
    by (simp_all add: wf_window_def)
  let ?b = "bump d (rw_buckets v ! nat (rw_offset v))"
  let ?w = "v\<lparr>rw_buckets := (rw_buckets v)[nat (rw_offset v) := ?b]\<rparr>"
  have "rollingWindow_add now d rw = Some ?w"
    using assms(2) o by (simp add: rollingWindow_add_def go_simps bump_def)
  moreover have "wf_window ?w" using v by (simp add: wf_window_def)
  moreover have "window_view ?w = bump d (hd (window_view v)) # tl (window_view v)"
    using ring_view_write[OF o, of ?b] ring_view_hd[OF o] by (simp add: window_view_def)
  moreover have "window_view v \<noteq> []" using o by (auto simp: window_view_def ring_view_def)
  ultimately show ?thesis by blast
qed

lemma foldl_sum: "foldl (\<lambda>a b. a + f b) (c :: int) xs = c + sum_list (map f xs)"
  by (induction xs arbitrary: c) (simp_all add: ac_simps)

lemma sum_view:
  "rollingWindow_sum now rw = map_option (\<lambda>v.
     ((sum_list (map bk_accepts (window_view v)), sum_list (map bk_total (window_view v))), v))
     (rollingWindow_advance now rw)"
  by (cases "rollingWindow_advance now rw") (simp_all add: rollingWindow_sum_def foldl_sum window_view_def)

text \<open>The window provides the contract of \<open>Rolling\<close>, counting requests and counting successes.\<close>

interpretation rw_totals: counting_window empty_bucket window_view wf_window slots_passed
    rollingWindow_advance bk_total snd rollingWindow_add
proof unfold_locales
  fix now rw
  assume "wf_window rw"
  then show "\<exists>w'. rollingWindow_advance now rw = Some w' \<and> wf_window w' \<and>
      window_view w' = shift_in (slots_passed now rw) empty_bucket (window_view rw)"
    by (rule advance_shift)
next
  show "bk_total empty_bucket = 0" by (simp add: empty_bucket_def)
next
  fix now rw v d
  assume "wf_window rw" "rollingWindow_advance now rw = Some v"
  from add_after_advance[OF this, of d] show "\<exists>w'. rollingWindow_add now d rw = Some w' \<and> wf_window w' \<and>
      window_view v \<noteq> [] \<and> (\<exists>b. window_view w' = b # tl (window_view v) \<and>
        bk_total b = bk_total (hd (window_view v)) + snd d)"
    by (auto simp: bump_def)
qed

interpretation rw_accepts: counting_window empty_bucket window_view wf_window slots_passed
    rollingWindow_advance bk_accepts fst rollingWindow_add
proof unfold_locales
  show "bk_accepts empty_bucket = 0" by (simp add: empty_bucket_def)
next
  fix now rw v d
  assume "wf_window rw" "rollingWindow_advance now rw = Some v"
  from add_after_advance[OF this, of d] show "\<exists>w'. rollingWindow_add now d rw = Some w' \<and> wf_window w' \<and>
      window_view v \<noteq> [] \<and> (\<exists>b. window_view w' = b # tl (window_view v) \<and>
        bk_accepts b = bk_accepts (hd (window_view v)) + fst d)"
    by (auto simp: bump_def)
qed

subsection \<open>The breaker's decision and its invariant\<close>

abbreviation window_accepts :: "rollingWindow \<Rightarrow> int" where
  "window_accepts w \<equiv> sum_list (map bk_accepts (window_view w))"

abbreviation window_total :: "rollingWindow \<Rightarrow> int" where
  "window_total w \<equiv> sum_list (map bk_total (window_view w))"

lemma bucket_ok_empty [simp]: "bucket_ok empty_bucket"
  by (simp add: bucket_ok_def empty_bucket_def)

lemma list_all_shift_in: "P z \<Longrightarrow> list_all P v \<Longrightarrow> list_all P (shift_in k z v)"
  by (auto simp: shift_in_def list_all_iff dest: in_set_takeD split: if_splits)

lemma sums_ordered:
  "list_all bucket_ok bs \<Longrightarrow>
     0 \<le> sum_list (map bk_accepts bs) \<and> sum_list (map bk_accepts bs) \<le> sum_list (map bk_total bs)"
  by (induction bs) (auto simp: bucket_ok_def)

lemma breaker_advance:
  assumes "breaker_inv gb"
  obtains v where "rollingWindow_advance now (gb_window gb) = Some v" "wf_window v"
    "window_view v = shift_in (slots_passed now (gb_window gb)) empty_bucket (window_view (gb_window gb))"
    "breaker_inv (gb\<lparr>gb_window := v\<rparr>)"
  using assms rw_totals.move_to_shifts[of "gb_window gb" now]
  by (auto simp: breaker_inv_def list_all_shift_in)

lemma breaker_advanced:
  assumes "breaker_inv gb" "rollingWindow_advance now (gb_window gb) = Some v"
  shows "breaker_inv (gb\<lparr>gb_window := v\<rparr>)" "list_all bucket_ok (window_view v)"
    "window_view v = shift_in (slots_passed now (gb_window gb)) empty_bucket (window_view (gb_window gb))"
proof -
  obtain u where u: "rollingWindow_advance now (gb_window gb) = Some u"
    "window_view u = shift_in (slots_passed now (gb_window gb)) empty_bucket (window_view (gb_window gb))"
    "breaker_inv (gb\<lparr>gb_window := u\<rparr>)"
    using breaker_advance[OF assms(1)] by metis
  with assms(2) have "u = v" by simp
  with u show "breaker_inv (gb\<lparr>gb_window := v\<rparr>)"
    "window_view v = shift_in (slots_passed now (gb_window gb)) empty_bucket (window_view (gb_window gb))"
    by simp_all
  then show "list_all bucket_ok (window_view v)" by (simp add: breaker_inv_def)
qed

lemma breaker_accept_decides:
  assumes "rollingWindow_advance now (gb_window gb) = Some v"
  shows "breaker_accept now rnd gb =
    Some (\<not> (gb_minReqs gb \<le> window_total v \<and> 0 < dropRatio gb (window_accepts v) (window_total v)
             \<and> rnd < dropRatio gb (window_accepts v) (window_total v)), gb\<lparr>gb_window := v\<rparr>)"
  using assms by (auto simp: breaker_accept_def sum_view Let_def dropRatio_def)

lemma breaker_accept_inv [inv_intros]:
  "breaker_inv gb \<Longrightarrow> \<exists>ok gb'. breaker_accept now rnd gb = Some (ok, gb') \<and> breaker_inv gb'"
  by (metis breaker_advance breaker_accept_decides)

lemma breaker_mark:
  assumes "breaker_inv gb" "rollingWindow_advance now (gb_window gb) = Some v"
    "0 \<le> fst d" "fst d \<le> snd d"
  shows "\<exists>w. rollingWindow_add now d (gb_window gb) = Some w \<and> breaker_inv (gb\<lparr>gb_window := w\<rparr>) \<and>
    window_total w = window_total v + snd d \<and> window_accepts w = window_accepts v + fst d"
proof -
  from assms(1) have wf: "wf_window (gb_window gb)" by (simp add: breaker_inv_def)
  from breaker_advanced(2)[OF assms(1,2)] have ok: "list_all bucket_ok (window_view v)" .
  from add_after_advance[OF wf assms(2), of d] obtain w where
    w: "rollingWindow_add now d (gb_window gb) = Some w" "wf_window w" "window_view v \<noteq> []"
      "window_view w = bump d (hd (window_view v)) # tl (window_view v)"
    by blast
  from ok w(3) have "bucket_ok (hd (window_view v))" "list_all bucket_ok (tl (window_view v))"
    by (cases "window_view v"; simp)+
  with assms(3,4) have "list_all bucket_ok (window_view w)"
    by (simp add: w(4)) (simp add: bucket_ok_def bump_def)
  with w assms(1) have "breaker_inv (gb\<lparr>gb_window := w\<rparr>)" by (simp add: breaker_inv_def)
  then show ?thesis
    using w(1) rw_totals.record_at_weight[OF wf assms(2) w(1)]
      rw_accepts.record_at_weight[OF wf assms(2) w(1)] by blast
qed

lemma mark_inv [inv_intros]:
  assumes "breaker_inv gb"
  shows "\<exists>gb'. promise_Accept now gb = Some gb' \<and> breaker_inv gb'"
    and "\<exists>gb'. promise_Reject now gb = Some gb' \<and> breaker_inv gb'"
proof -
  obtain v where v: "rollingWindow_advance now (gb_window gb) = Some v"
    using breaker_advance[OF assms] by blast
  show "\<exists>gb'. promise_Accept now gb = Some gb' \<and> breaker_inv gb'"
    using breaker_mark[OF assms v, of "(1, 1)"] by (auto simp: promise_Accept_def markSuccess_def)
  show "\<exists>gb'. promise_Reject now gb = Some gb' \<and> breaker_inv gb'"
    using breaker_mark[OF assms v, of "(0, 1)"] by (auto simp: promise_Reject_def markFailure_def)
qed

lemma breaker_step_inv [inv_intros]:
  "breaker_inv gb \<Longrightarrow> \<exists>ok gb'. breaker_step op gb = Some (ok, gb') \<and> breaker_inv gb'"
  using breaker_accept_inv mark_inv by (cases op) fastforce+

lemma breaker_run_inv [inv_intros]:
  "breaker_inv gb \<Longrightarrow> \<exists>oks gb'. breaker_run ops gb = Some (oks, gb') \<and> breaker_inv gb'"
proof (induction ops arbitrary: gb)
  case (Cons op ops)
  from breaker_step_inv[OF Cons.prems, of op] obtain ok gb1 where
    1: "breaker_step op gb = Some (ok, gb1)" "breaker_inv gb1" by blast
  from Cons.IH[OF 1(2)] 1(1) show ?case by auto
qed simp

lemma normalize_positive:
  "0 < gbc_K (normalizeGoogleBreakerConfig c)" "0 < gbc_Buckets (normalizeGoogleBreakerConfig c)"
  "0 < gbc_BucketTimeMs (normalizeGoogleBreakerConfig c)" "0 < gbc_MinReqs (normalizeGoogleBreakerConfig c)"
  by (simp_all add: normalizeGoogleBreakerConfig_def DefaultGoogleBreakerConfig_def Let_def)

lemma normalize_bucket_time_le:
  "gbc_BucketTimeMs c \<le> 9223372036854 \<Longrightarrow> gbc_BucketTimeMs (normalizeGoogleBreakerConfig c) \<le> 9223372036854"
  by (simp add: normalizeGoogleBreakerConfig_def DefaultGoogleBreakerConfig_def Let_def)

lemma new_breaker:
  assumes "gbc_BucketTimeMs c \<le> 9223372036854"
  shows "\<exists>gb. NewGoogleBreakerWithConfig c t0 = Some gb \<and> breaker_inv gb \<and>
    set (window_view (gb_window gb)) = {empty_bucket} \<and>
    gb_k gb = gbc_K (normalizeGoogleBreakerConfig c)"
proof -
  let ?c = "normalizeGoogleBreakerConfig c"
  let ?d = "duration_of (gbc_BucketTimeMs ?c) Millisecond"
  have d: "0 < ?d"
    using normalize_positive(3)[of c] normalize_bucket_time_le[OF assms]
    by (subst duration_of_id) (simp_all add: Millisecond_def)
  let ?w = "\<lparr>rw_buckets = replicate (nat (gbc_Buckets ?c)) empty_bucket, rw_size = gbc_Buckets ?c,
    rw_bucketTime = ?d, rw_offset = 0, rw_lastTime = t0\<rparr>"
  have "NewGoogleBreakerWithConfig c t0 =
      Some \<lparr>gb_window = ?w, gb_k = gbc_K ?c, gb_minReqs = gbc_MinReqs ?c\<rparr>"
    using normalize_positive[of c]
    by (simp add: NewGoogleBreakerWithConfig_def newRollingWindow_def go_simps Let_def)
  moreover have "wf_window ?w" "set (window_view ?w) = {empty_bucket}"
    using normalize_positive[of c] d by (simp_all add: wf_window_def window_view_def)
  ultimately show ?thesis
    using normalize_positive[of c] by (simp add: breaker_inv_def list_all_iff)
qed

subsection \<open>Runs without a rejected request\<close>

definition only_successes :: "GoogleBreaker \<Rightarrow> bool" where
  "only_successes gb \<longleftrightarrow> breaker_inv gb \<and> 1 \<le> gb_k gb \<and>
     list_all (\<lambda>b. bk_accepts b = bk_total b) (window_view (gb_window gb))"

fun is_reject :: "breaker_op \<Rightarrow> bool" where
  "is_reject (OpReject _) = True"
| "is_reject _ = False"

lemma dropRatio_healthy:
  "1 \<le> gb_k gb \<Longrightarrow> 0 \<le> n \<Longrightarrow> dropRatio gb n n = 0"
proof -
  assume "1 \<le> gb_k gb" "0 \<le> n"
  then have "of_int n - gb_k gb * of_int n \<le> (0 :: rat)"
    using mult_right_mono[of 1 "gb_k gb" "of_int n"] by simp
  with \<open>0 \<le> n\<close> show ?thesis by (simp add: dropRatio_def divide_nonpos_pos)
qed

lemma only_successes_step:
  assumes "only_successes gb" "\<not> is_reject op"
  shows "\<exists>gb'. breaker_step op gb = Some (True, gb') \<and> only_successes gb'"
proof -
  have inv: "breaker_inv gb" using assms(1) by (simp add: only_successes_def)
  have wf: "wf_window (gb_window gb)" using inv by (simp add: breaker_inv_def)
  let ?eq = "\<lambda>b. bk_accepts b = bk_total b"
  have adv: "list_all ?eq (window_view v)"
    if "rollingWindow_advance t (gb_window gb) = Some v" for t v
    unfolding breaker_advanced(3)[OF inv that]
    by (rule list_all_shift_in) (use assms(1) in \<open>simp_all add: only_successes_def empty_bucket_def\<close>)
  show ?thesis
  proof (cases op)
    case (OpAllow t rnd)
    from breaker_advance[OF inv, of t] obtain v where
      v: "rollingWindow_advance t (gb_window gb) = Some v" "breaker_inv (gb\<lparr>gb_window := v\<rparr>)" by blast
    from adv[OF v(1)] have "window_accepts v = window_total v"
      by (induction "window_view v") (auto simp: list_all_iff intro: arg_cong[where f = sum_list])
    moreover from v(2) have "0 \<le> window_accepts v"
      using sums_ordered by (auto simp: breaker_inv_def)
    ultimately have "dropRatio gb (window_accepts v) (window_total v) = 0"
      using assms(1) by (simp add: only_successes_def dropRatio_healthy)
    then show ?thesis
      using OpAllow v adv[OF v(1)] breaker_accept_decides[OF v(1), of rnd] assms(1)
      by (auto simp: only_successes_def)
  next
    case (OpAccept t)
    from breaker_advance[OF inv, of t] obtain v where
      v: "rollingWindow_advance t (gb_window gb) = Some v" by blast
    from breaker_mark[OF inv v, of "(1, 1)"] obtain w where
      w: "rollingWindow_add t (1, 1) (gb_window gb) = Some w" "breaker_inv (gb\<lparr>gb_window := w\<rparr>)" by auto
    have "window_view v \<noteq> []" "window_view w = bump (1, 1) (hd (window_view v)) # tl (window_view v)"
      using add_after_advance[OF wf v, of "(1, 1)"] w(1) by auto
    with adv[OF v] have "list_all ?eq (window_view w)"
      by (cases "window_view v") (auto simp: bump_def)
    then show ?thesis using OpAccept w assms(1)
      by (auto simp: only_successes_def promise_Accept_def markSuccess_def)
  next
    case (OpReject t)
    with assms(2) show ?thesis by simp
  qed
qed

lemma only_successes_run:
  assumes "only_successes gb" "\<forall>op \<in> set ops. \<not> is_reject op"
  shows "\<exists>gb'. breaker_run ops gb = Some (replicate (length ops) True, gb') \<and> only_successes gb'"
  using assms
proof (induction ops arbitrary: gb)
  case (Cons op ops)
  from only_successes_step[OF Cons.prems(1), of op] Cons.prems(2) obtain gb1 where
    1: "breaker_step op gb = Some (True, gb1)" "only_successes gb1" by auto
  from Cons.IH[OF 1(2)] Cons.prems(2) 1(1) show ?case by auto
qed simp

subsection \<open>Bounds and silence\<close>

lemma dropRatio_bounds:
  assumes "0 \<le> a" "a \<le> n" "0 < gb_k gb"
  shows "0 \<le> dropRatio gb a n" "dropRatio gb a n < 1" "0 < dropRatio gb a n \<longleftrightarrow> gb_k gb * of_int a < of_int n"
proof -
  have n: "0 < (of_int (n + 1) :: rat)" using assms by simp
  have "0 \<le> gb_k gb * of_int a" using assms by simp
  then have "(of_int n - gb_k gb * of_int a) / of_int (n + 1) < 1"
    using n by (simp add: divide_less_eq)
  then show "0 \<le> dropRatio gb a n" "dropRatio gb a n < 1" by (simp_all add: dropRatio_def)
  show "0 < dropRatio gb a n \<longleftrightarrow> gb_k gb * of_int a < of_int n"
    using n by (auto simp: dropRatio_def less_max_iff_disj zero_less_divide_iff)
qed

lemma slots_passed_ge:
  assumes "wf_window rw" "rw_size rw * rw_bucketTime rw \<le> now - rw_lastTime rw"
  shows "length (window_view rw) \<le> slots_passed now rw"
proof -
  have p: "0 < rw_bucketTime rw" "0 < rw_size rw" using assms(1) by (simp_all add: wf_window_def)
  then have "0 \<le> now - rw_lastTime rw" using assms(2) by (smt (verit) mult_pos_pos)
  moreover have "rw_size rw \<le> (now - rw_lastTime rw) div rw_bucketTime rw"
    using zdiv_mono1[OF assms(2) p(1)] p by simp
  ultimately show ?thesis
    using p window_view_length[OF assms(1)] by (simp add: slots_passed_def)
qed

section \<open>Properties\<close>

text \<open>C1: A breaker built from any configuration whose bucket time fits a 64-bit duration
  (the normalisation replaces the non-positive fields) serves every sequence of \<open>Allow\<close>,
  \<open>Accept\<close> and \<open>Reject\<close> calls at any clock readings without a run-time panic: no division by
  zero, no index out of the ring; the ring stays well formed and every bucket keeps
  \<open>0 \<le> accepts \<le> total\<close>.\<close>

theorem breaker_never_panics:
  assumes "gbc_BucketTimeMs config \<le> 9223372036854"
  shows "\<exists>gb oks gb'. NewGoogleBreakerWithConfig config t0 = Some gb \<and>
    breaker_run ops gb = Some (oks, gb') \<and> breaker_inv gb'"
  using new_breaker[OF assms, of t0] breaker_run_inv by metis

theorem breaker_never_panics_witness:
  "gbc_BucketTimeMs DefaultGoogleBreakerConfig \<le> 9223372036854 \<and>
   (\<exists>gb oks gb'. NewGoogleBreakerWithConfig DefaultGoogleBreakerConfig 0 = Some gb \<and>
      breaker_run [OpReject 5, OpAllow 300000000 0, OpAccept 300000001] gb = Some (oks, gb') \<and>
      breaker_inv gb')"
proof -
  have h: "gbc_BucketTimeMs DefaultGoogleBreakerConfig \<le> 9223372036854"
    by (simp add: DefaultGoogleBreakerConfig_def)
  show ?thesis using h breaker_never_panics[OF h] by blast
qed

text \<open>C2: The ring with its offset implements a shift register of time slots. Reading it
  from the newest to the oldest slot, \<open>advance\<close> shifts in one empty bucket per elapsed
  bucket time (the cap at the ring's size loses nothing), \<open>sum\<close> returns the totals of that
  register, and \<open>add\<close> changes its newest slot only.\<close>

theorem window_refines_shift_register:
  assumes "wf_window rw"
  shows "\<exists>v w. rollingWindow_advance now rw = Some v \<and> wf_window v \<and>
    window_view v = shift_in (slots_passed now rw) empty_bucket (window_view rw) \<and>
    rollingWindow_sum now rw = Some ((window_accepts v, window_total v), v) \<and>
    rollingWindow_add now d rw = Some w \<and> wf_window w \<and>
    window_view w = bump d (hd (window_view v)) # tl (window_view v)"
proof -
  from advance_shift[OF assms, of now] obtain v where
    v: "rollingWindow_advance now rw = Some v" "wf_window v"
      "window_view v = shift_in (slots_passed now rw) empty_bucket (window_view rw)" by blast
  from add_after_advance[OF assms v(1), of d] v show ?thesis by (auto simp: sum_view)
qed

theorem window_refines_shift_register_witness:
  "let rw = \<lparr>rw_buckets = [\<lparr>bk_accepts = 1, bk_total = 2\<rparr>, \<lparr>bk_accepts = 3, bk_total = 4\<rparr>], rw_size = 2,
              rw_bucketTime = 10, rw_offset = 1, rw_lastTime = 0\<rparr>
   in wf_window rw \<and>
     (\<exists>v w. rollingWindow_advance 15 rw = Some v \<and> wf_window v \<and>
        window_view v = shift_in (slots_passed 15 rw) empty_bucket (window_view rw) \<and>
        rollingWindow_sum 15 rw = Some ((window_accepts v, window_total v), v) \<and>
        rollingWindow_add 15 (1, 1) rw = Some w \<and> wf_window w \<and>
        window_view w = bump (1, 1) (hd (window_view v)) # tl (window_view v))"
proof -
  let ?rw = "\<lparr>rw_buckets = [\<lparr>bk_accepts = 1, bk_total = 2\<rparr>, \<lparr>bk_accepts = 3, bk_total = 4\<rparr>], rw_size = 2,
    rw_bucketTime = 10, rw_offset = 1, rw_lastTime = 0\<rparr>"
  have h: "wf_window ?rw" by (simp add: wf_window_def)
  show ?thesis unfolding Let_def using h window_refines_shift_register[OF h, of 15 "(1, 1)"] by blast
qed

text \<open>C3: \<open>Allow\<close> decides as the SRE formula says. On the window after the advance, with
  \<open>T\<close> requests of which \<open>A\<close> succeeded, it refuses exactly when \<open>T\<close> reaches the minimum
  and the random number is below \<open>max(0, (T - K * A) / (T + 1))\<close>; that ratio is in
  \<open>[0, 1)\<close>, so the breaker never drops every request, and it is positive exactly when
  \<open>K * A < T\<close>.\<close>

theorem breaker_decision:
  assumes "breaker_inv gb" "rollingWindow_advance now (gb_window gb) = Some v" "0 \<le> rnd"
  defines "A \<equiv> window_accepts v" and "T \<equiv> window_total v"
  shows "Allow now rnd gb =
      Some (if gb_minReqs gb \<le> T \<and> rnd < max 0 ((of_int T - gb_k gb * of_int A) / of_int (T + 1))
            then Some ErrServiceUnavailable else None, gb\<lparr>gb_window := v\<rparr>) \<and>
    0 \<le> dropRatio gb A T \<and> dropRatio gb A T < 1 \<and>
    (0 < dropRatio gb A T \<longleftrightarrow> gb_k gb * of_int A < of_int T)"
proof -
  have "0 < gb_k gb" using assms(1) by (simp add: breaker_inv_def)
  moreover have "0 \<le> A \<and> A \<le> T" unfolding A_def T_def
    by (rule sums_ordered[OF breaker_advanced(2)[OF assms(1,2)]])
  ultimately have "0 \<le> dropRatio gb A T" "dropRatio gb A T < 1"
    "0 < dropRatio gb A T \<longleftrightarrow> gb_k gb * of_int A < of_int T"
    using dropRatio_bounds by blast+
  moreover have "Allow now rnd gb = Some (if gb_minReqs gb \<le> T \<and> rnd < dropRatio gb A T
      then Some ErrServiceUnavailable else None, gb\<lparr>gb_window := v\<rparr>)"
    using breaker_accept_decides[OF assms(2), of rnd] assms(3) by (auto simp: Allow_def A_def T_def)
  ultimately show ?thesis by (simp add: dropRatio_def)
qed

definition sample_breaker :: "int \<Rightarrow> int \<Rightarrow> GoogleBreaker" where
  "sample_breaker a n = \<lparr>gb_window = \<lparr>rw_buckets = [\<lparr>bk_accepts = a, bk_total = n\<rparr>], rw_size = 1,
     rw_bucketTime = 250000000, rw_offset = 0, rw_lastTime = 0\<rparr>, gb_k = 3 / 2, gb_minReqs = 100\<rparr>"

lemma sample_breaker_inv: "0 \<le> a \<Longrightarrow> a \<le> n \<Longrightarrow> breaker_inv (sample_breaker a n)"
  by (simp add: breaker_inv_def sample_breaker_def wf_window_def window_view_def ring_view_def bucket_ok_def)

lemma sample_breaker_advance:
  "rollingWindow_advance 7 (gb_window (sample_breaker a n)) = Some (gb_window (sample_breaker a n))"
  by (simp add: rollingWindow_advance_def sample_breaker_def go_simps)

theorem breaker_decision_witness:
  "breaker_inv (sample_breaker 0 110) \<and>
   (Allow 7 (1 / 2) (sample_breaker 0 110))
     = Some (Some ErrServiceUnavailable, sample_breaker 0 110)"
  using breaker_decision[OF sample_breaker_inv[of 0 110] sample_breaker_advance[of 0 110], of "1 / 2"]
    sample_breaker_inv[of 0 110]
  by (simp add: sample_breaker_def window_view_def ring_view_def)

text \<open>With \<open>K \<ge> 1\<close> (the default is 1.5) a breaker that has recorded successes only
  never opens: every \<open>Allow\<close> of a run without \<open>Reject\<close> is granted, whatever the clock and the
  random numbers are.\<close>

theorem breaker_stays_closed_without_failures:
  assumes "gbc_BucketTimeMs config \<le> 9223372036854" "1 \<le> gbc_K config"
    "\<forall>op \<in> set ops. \<not> is_reject op"
  shows "\<exists>gb gb'. NewGoogleBreakerWithConfig config t0 = Some gb \<and>
    breaker_run ops gb = Some (replicate (length ops) True, gb')"
proof -
  from new_breaker[OF assms(1), of t0] obtain gb where
    gb: "NewGoogleBreakerWithConfig config t0 = Some gb" "breaker_inv gb"
      "set (window_view (gb_window gb)) = {empty_bucket}"
      "gb_k gb = gbc_K (normalizeGoogleBreakerConfig config)" by blast
  have "gbc_K (normalizeGoogleBreakerConfig config) = gbc_K config"
    using assms(2) by (simp add: normalizeGoogleBreakerConfig_def Let_def)
  with gb assms(2) have "only_successes gb"
    by (simp add: only_successes_def list_all_iff empty_bucket_def)
  from only_successes_run[OF this assms(3)] gb(1) show ?thesis by blast
qed

theorem breaker_stays_closed_without_failures_witness:
  "\<exists>gb gb'. NewGoogleBreakerWithConfig DefaultGoogleBreakerConfig 0 = Some gb \<and>
     breaker_run [OpAllow 1 0, OpAccept 2, OpAllow 3 0] gb =
       Some (replicate (length [OpAllow 1 0, OpAccept 2, OpAllow 3 0]) True, gb')"
  by (rule breaker_stays_closed_without_failures) (simp_all add: DefaultGoogleBreakerConfig_def)

text \<open>C4: An open breaker recovers by itself: once the whole window has passed without a
  call, the next \<open>Allow\<close> is granted whatever was recorded before, and the window is empty.\<close>

theorem breaker_recovers_after_silence:
  assumes "breaker_inv gb"
    "rw_size (gb_window gb) * rw_bucketTime (gb_window gb) \<le> now - rw_lastTime (gb_window gb)"
  shows "\<exists>gb'. Allow now rnd gb = Some (None, gb') \<and> breaker_inv gb' \<and> window_total (gb_window gb') = 0"
proof -
  from assms(1) have wf: "wf_window (gb_window gb)" by (simp add: breaker_inv_def)
  from breaker_advance[OF assms(1), of now] obtain v where
    v: "rollingWindow_advance now (gb_window gb) = Some v" "breaker_inv (gb\<lparr>gb_window := v\<rparr>)" by blast
  from rw_totals.move_to_silent_weight[OF wf v(1) slots_passed_ge[OF wf assms(2)]]
  have "window_total v = 0" .
  moreover have "0 < gb_minReqs gb" using assms(1) by (simp add: breaker_inv_def)
  ultimately show ?thesis using breaker_accept_decides[OF v(1), of rnd] v(2) by (simp add: Allow_def)
qed

theorem breaker_recovers_after_silence_witness:
  "\<exists>gb'. Allow 250000000 0 (sample_breaker 0 110) = Some (None, gb') \<and>
     breaker_inv gb' \<and> window_total (gb_window gb') = 0"
  using breaker_recovers_after_silence[OF sample_breaker_inv[of 0 110], of 250000000 0]
  by (simp add: sample_breaker_def)

text \<open>\<open>DoWithAcceptable\<close> runs the request exactly when the breaker admits it, hands back
  the request's own error, and records the outcome once: the window's total grows by one and
  its successes by one exactly when the error is nil or acceptable. A refused call leaves the
  caller's state untouched.\<close>

theorem DoWithAcceptable_accounts:
  assumes "breaker_inv gb" "Allow t1 rnd gb = Some (err, gb1)"
  shows "(err = Some ErrServiceUnavailable \<and>
          DoWithAcceptable t1 t2 rnd req acceptable gb w = Some (Returned (Some (Inl ErrServiceUnavailable)), gb1, w)) \<or>
         (err = None \<and>
          (case req w of
             (Panicked, w') \<Rightarrow> DoWithAcceptable t1 t2 rnd req acceptable gb w = Some (Panicked, gb1, w')
           | (Returned res, w') \<Rightarrow>
               \<exists>v gb2. rollingWindow_advance t2 (gb_window gb1) = Some v \<and>
                 DoWithAcceptable t1 t2 rnd req acceptable gb w =
                   Some (Returned (map_option Inr res), gb2, w') \<and> breaker_inv gb2 \<and>
                 window_total (gb_window gb2) = window_total v + 1 \<and>
                 window_accepts (gb_window gb2) = window_accepts v +
                   (if res = None \<or> acceptable (the res) then 1 else 0)))"
proof -
  obtain ok where ok: "breaker_accept t1 rnd gb = Some (ok, gb1)"
    "err = (if ok then None else Some ErrServiceUnavailable)"
    using assms(2) by (auto simp: Allow_def split: Option.bind_splits)
  have inv1: "breaker_inv gb1" using breaker_accept_inv[OF assms(1), of t1 rnd] ok(1) by auto
  obtain v where v: "rollingWindow_advance t2 (gb_window gb1) = Some v"
    using breaker_advance[OF inv1] by blast
  show ?thesis
  proof (cases ok)
    case False
    with ok assms(2) show ?thesis by (simp add: DoWithAcceptable_def)
  next
    case True
    note mark = breaker_mark[OF inv1 v, of "(1, 1)"] breaker_mark[OF inv1 v, of "(0, 1)"]
    obtain r w' where r: "req w = (r, w')" by (cases "req w")
    show ?thesis
    proof (cases r)
      case (Returned res)
      with True ok assms(2) r v mark show ?thesis
        by (cases res) (auto simp: DoWithAcceptable_def promise_Accept_def promise_Reject_def
            markSuccess_def markFailure_def)
    next
      case Panicked
      with True ok assms(2) r show ?thesis by (simp add: DoWithAcceptable_def)
    qed
  qed
qed

theorem DoWithAcceptable_accounts_witness:
  "\<exists>v gb2. rollingWindow_advance 7 (gb_window (sample_breaker 0 0)) = Some v \<and>
     DoWithAcceptable 7 7 0 (\<lambda>n. (Returned (Some ''timeout''), Suc n)) (\<lambda>_. False) (sample_breaker 0 0) 4 =
       Some (Returned (Some (Inr ''timeout'')), gb2, 5) \<and> breaker_inv gb2 \<and>
     window_total (gb_window gb2) = window_total v + 1 \<and>
     window_accepts (gb_window gb2) = window_accepts v"
proof -
  have a: "Allow 7 0 (sample_breaker 0 0) = Some (None, sample_breaker 0 0)"
    using breaker_accept_decides[OF sample_breaker_advance, of 0 0 0]
    by (simp add: Allow_def sample_breaker_def window_view_def ring_view_def)
  show ?thesis
    using DoWithAcceptable_accounts[OF sample_breaker_inv[of 0 0] a, of 7 "\<lambda>n. (Returned (Some ''timeout''), Suc n)"
        "\<lambda>_. False" 4] by simp
qed

end
