(* ===== verification/Shedder.thy ===== *)
theory Shedder
  imports Rolling
begin

section \<open>The adaptive load shedder\<close>

text \<open>
  Models \<open>load/shedder.go\<close>: the rolling counter, the options, \<open>NewAdaptiveShedder\<close>, the CPU
  probe, \<open>Allow\<close> and the promise's \<open>Pass\<close> and \<open>Fail\<close>. The clock readings of one \<open>Allow\<close>
  call, the metric samples and \<open>GOMAXPROCS\<close> come in as a record; \<open>flying\<close> is an atomic
  counter, so every call is one step on the state.
\<close>

subsection \<open>The rolling counter\<close>

record rollingCounter =
  rc_buckets :: "float64 list"
  rc_size :: int
  rc_offset :: int
  rc_lastTime :: go_time
  rc_interval :: duration

definition newRollingCounter :: "int \<Rightarrow> duration \<Rightarrow> go_time \<Rightarrow> rollingCounter option" where
  "newRollingCounter sz interval now = do {
     bs \<leftarrow> make_slice 0 sz;
     Some \<lparr>rc_buckets = bs, rc_size = sz, rc_offset = 0, rc_lastTime = now, rc_interval = interval\<rparr> }"

fun rollingCounter_turns :: "nat \<Rightarrow> rollingCounter \<Rightarrow> rollingCounter option" where
  "rollingCounter_turns 0 rc = Some rc"
| "rollingCounter_turns (Suc n) rc = do {
     off \<leftarrow> go_mod (rc_offset rc + 1) (rc_size rc);
     bs \<leftarrow> go_store (rc_buckets rc) off 0;
     rollingCounter_turns n (rc\<lparr>rc_offset := off, rc_buckets := bs\<rparr>) }"

definition rollingCounter_advance :: "go_time \<Rightarrow> rollingCounter \<Rightarrow> rollingCounter option" where
  "rollingCounter_advance now rc = do {
     elapsed \<leftarrow> go_div (now - rc_lastTime rc) (rc_interval rc);
     if elapsed \<le> 0 then Some rc
     else do {
       let elapsed = (if elapsed > rc_size rc then rc_size rc else elapsed);
       rc' \<leftarrow> rollingCounter_turns (nat elapsed) rc;
       Some (rc'\<lparr>rc_lastTime := now\<rparr>) } }"

definition rollingCounter_Add :: "go_time \<Rightarrow> float64 \<Rightarrow> rollingCounter \<Rightarrow> rollingCounter option" where
  "rollingCounter_Add now val rc = do {
     rc \<leftarrow> rollingCounter_advance now rc;
     b \<leftarrow> go_index (rc_buckets rc) (rc_offset rc);
     bs \<leftarrow> go_store (rc_buckets rc) (rc_offset rc) (b + val);
     Some (rc\<lparr>rc_buckets := bs\<rparr>) }"

text \<open>The loops of \<open>Avg\<close> and \<open>Max\<close> over the buckets.\<close>

fun avg_loop :: "float64 \<Rightarrow> int \<Rightarrow> float64 list \<Rightarrow> float64" where
  "avg_loop acc n [] = (if n = 0 then 0 else acc / of_int n)"
| "avg_loop acc n (b # bs) =
     (if b > 0 then avg_loop (acc + b) (n + 1) bs else avg_loop acc n bs)"

definition rollingCounter_Avg :: "go_time \<Rightarrow> rollingCounter \<Rightarrow> (float64 \<times> rollingCounter) option" where
  "rollingCounter_Avg now rc = do {
     rc \<leftarrow> rollingCounter_advance now rc;
     Some (avg_loop 0 0 (rc_buckets rc), rc) }"

fun max_loop :: "float64 \<Rightarrow> float64 list \<Rightarrow> float64" where
  "max_loop m [] = m"
| "max_loop m (b # bs) = (if b > m then max_loop b bs else max_loop m bs)"

definition rollingCounter_Max :: "go_time \<Rightarrow> rollingCounter \<Rightarrow> (float64 \<times> rollingCounter) option" where
  "rollingCounter_Max now rc = do {
     rc \<leftarrow> rollingCounter_advance now rc;
     Some (max_loop 0 (rc_buckets rc), rc) }"

subsection \<open>The CPU probe\<close>

text \<open>\<open>metrics.All()\<close> and \<open>metrics.Read\<close> are the run-time system's: the descriptions (name and
  whether the kind is float64) and the sampled values are arguments.\<close>

definition cpu_class_prefix :: string where
  "cpu_class_prefix = ''/cpu/classes/''"

definition discoverCPUMetrics :: "(string \<times> bool) list \<Rightarrow> string list" where
  "discoverCPUMetrics descs =
     map fst (filter (\<lambda>(name, is_float64). is_float64 \<and>
       length name \<ge> length cpu_class_prefix \<and>
       take (length cpu_class_prefix) name = cpu_class_prefix) descs)"

definition readCPUSeconds :: "(string \<Rightarrow> float64) \<Rightarrow> string list \<Rightarrow> float64" where
  "readCPUSeconds sample metricNames =
     (if length metricNames = 0 then 0 else foldl (\<lambda>acc name. acc + sample name) 0 metricNames)"

subsection \<open>The shedder\<close>

record AdaptiveShedder =
  as_cpuThreshold :: int
  as_windowSize :: duration
  as_bucketNum :: int
  as_flying :: int
  as_dropTime :: go_time
  as_droppedRecently :: bool
  as_passCounter :: rollingCounter
  as_rtCounter :: rollingCounter
  as_cpuMetrics :: "string list"
  as_lastCPUSeconds :: float64
  as_lastCPUCheck :: go_time

datatype shedder_option = WithBuckets int | WithWindow duration | WithCpuThreshold int

record shedder_settings =
  ss_cpuThreshold :: int
  ss_windowSize :: duration
  ss_bucketNum :: int

fun apply_option :: "shedder_settings \<Rightarrow> shedder_option \<Rightarrow> shedder_settings" where
  "apply_option s (WithBuckets n) = s\<lparr>ss_bucketNum := n\<rparr>"
| "apply_option s (WithWindow d) = s\<lparr>ss_windowSize := d\<rparr>"
| "apply_option s (WithCpuThreshold n) = s\<lparr>ss_cpuThreshold := n\<rparr>"

definition default_settings :: shedder_settings where
  "default_settings = \<lparr>ss_cpuThreshold = 900, ss_windowSize = Second * 5, ss_bucketNum = 50\<rparr>"

text \<open>The zero \<open>time.Time\<close> that \<open>dropTime\<close> starts with is far before any clock reading; it is
  only read after \<open>droppedRecently\<close> has been set.\<close>

definition NewAdaptiveShedder ::
  "shedder_option list \<Rightarrow> go_time \<Rightarrow> go_time \<Rightarrow> go_time \<Rightarrow> (string \<times> bool) list \<Rightarrow> (string \<Rightarrow> float64) \<Rightarrow> AdaptiveShedder option" where
  "NewAdaptiveShedder opts tPass tRt tCPU descs sample = do {
     let s = foldl apply_option default_settings opts;
     bucketDuration \<leftarrow> go_div (ss_windowSize s) (ss_bucketNum s);
     pc \<leftarrow> newRollingCounter (ss_bucketNum s) bucketDuration tPass;
     rt \<leftarrow> newRollingCounter (ss_bucketNum s) bucketDuration tRt;
     let names = discoverCPUMetrics descs;
     Some \<lparr>as_cpuThreshold = ss_cpuThreshold s, as_windowSize = ss_windowSize s,
           as_bucketNum = ss_bucketNum s, as_flying = 0, as_dropTime = 0,
           as_droppedRecently = False, as_passCounter = pc, as_rtCounter = rt,
           as_cpuMetrics = names, as_lastCPUSeconds = readCPUSeconds sample names,
           as_lastCPUCheck = tCPU\<rparr> }"

text \<open>What one call of \<open>Allow\<close> reads from outside: the clock in the order of the readings,
  the metric samples and \<open>runtime.GOMAXPROCS(0)\<close>.\<close>

record allow_env =
  env_tCPU :: go_time
  env_tSince :: go_time
  env_tPass :: go_time
  env_tRt :: go_time
  env_tEnd :: go_time
  env_sample :: "string \<Rightarrow> float64"
  env_gomaxprocs :: int

definition currentCPU :: "allow_env \<Rightarrow> AdaptiveShedder \<Rightarrow> int \<times> AdaptiveShedder" where
  "currentCPU env as =
     (let now = env_tCPU env;
          current = readCPUSeconds (env_sample env) (as_cpuMetrics as);
          elapsed = now - as_lastCPUCheck as;
          delta = current - as_lastCPUSeconds as;
          as' = as\<lparr>as_lastCPUCheck := now, as_lastCPUSeconds := current\<rparr>
      in if elapsed \<le> 0 then (0, as')
         else if delta \<le> 0 then (0, as')
         else let gomaxprocs = (if env_gomaxprocs env \<le> 0 then 1 else env_gomaxprocs env);
                  usage = delta / (of_int elapsed / of_int Second) / of_int gomaxprocs * 1000
              in if usage < 0 then (0, as') else if usage > 1000 then (1000, as') else (\<lfloor>usage\<rfloor>, as'))"

definition systemOverloaded :: "allow_env \<Rightarrow> AdaptiveShedder \<Rightarrow> bool \<times> AdaptiveShedder" where
  "systemOverloaded env as =
     (let (hot, as) = (if as_cpuThreshold as > 0
                       then (let (cpu, as') = currentCPU env as in (cpu \<ge> as_cpuThreshold as, as'))
                       else (False, as))
      in if hot then (True, as)
         else if as_droppedRecently as then
           (if env_tSince env - as_dropTime as < Second then (True, as)
            else (False, as\<lparr>as_droppedRecently := False\<rparr>))
         else (False, as))"

definition maxFlight :: "allow_env \<Rightarrow> AdaptiveShedder \<Rightarrow> (float64 \<times> AdaptiveShedder) option" where
  "maxFlight env as = do {
     (maxPass, pc) \<leftarrow> rollingCounter_Max (env_tPass env) (as_passCounter as);
     (avgRt, rt) \<leftarrow> rollingCounter_Avg (env_tRt env) (as_rtCounter as);
     let minRt = max avgRt 1;
     Some (maxPass * minRt / 1000 * of_int (as_bucketNum as),
           as\<lparr>as_passCounter := pc, as_rtCounter := rt\<rparr>) }"

definition shouldDrop :: "allow_env \<Rightarrow> AdaptiveShedder \<Rightarrow> (bool \<times> AdaptiveShedder) option" where
  "shouldDrop env as =
     (let (over, as) = systemOverloaded env as
      in if over then do {
           (mf, as) \<leftarrow> maxFlight env as;
           Some (of_int (as_flying as) > mf, as) }
         else Some (False, as))"

datatype shedder_error = ErrServiceOverloaded

text \<open>A granted call returns the promise, which carries its start time.\<close>

definition shedder_Allow ::
  "allow_env \<Rightarrow> AdaptiveShedder \<Rightarrow> ((shedder_error + go_time) \<times> AdaptiveShedder) option" where
  "shedder_Allow env as = do {
     (dropped, as) \<leftarrow> shouldDrop env as;
     if dropped
     then Some (Inl ErrServiceOverloaded, as\<lparr>as_dropTime := env_tEnd env, as_droppedRecently := True\<rparr>)
     else Some (Inr (env_tEnd env), as\<lparr>as_flying := as_flying as + 1\<rparr>) }"

definition promise_Pass ::
  "go_time \<Rightarrow> go_time \<Rightarrow> go_time \<Rightarrow> go_time \<Rightarrow> AdaptiveShedder \<Rightarrow> AdaptiveShedder option" where
  "promise_Pass start tSince tPass tRt as = do {
     let rt = of_int (trunc_div (tSince - start) Millisecond);
     let as = as\<lparr>as_flying := as_flying as - 1\<rparr>;
     pc \<leftarrow> rollingCounter_Add tPass 1 (as_passCounter as);
     rc \<leftarrow> rollingCounter_Add tRt rt (as_rtCounter as);
     Some (as\<lparr>as_passCounter := pc, as_rtCounter := rc\<rparr>) }"

definition promise_Fail :: "AdaptiveShedder \<Rightarrow> AdaptiveShedder" where
  "promise_Fail as = as\<lparr>as_flying := as_flying as - 1\<rparr>"

subsection \<open>Clients of the shedder\<close>

text \<open>What callers may do: ask for admission, and settle one promise they hold by \<open>Pass\<close> or
  \<open>Fail\<close>. The state pairs the shedder with the start times of the promises still held; an index
  beyond them settles nothing.\<close>

datatype shed_op = ShAllow allow_env | ShPass nat go_time go_time go_time | ShFail nat

definition remove_at :: "nat \<Rightarrow> 'a list \<Rightarrow> 'a list" where
  "remove_at i xs = take i xs @ drop (Suc i) xs"

fun shed_step :: "shed_op \<Rightarrow> AdaptiveShedder \<times> go_time list \<Rightarrow> (AdaptiveShedder \<times> go_time list) option" where
  "shed_step (ShAllow env) (as, held) = do {
     (r, as) \<leftarrow> shedder_Allow env as;
     Some (as, case r of Inl _ \<Rightarrow> held | Inr start \<Rightarrow> start # held) }"
| "shed_step (ShPass i t1 t2 t3) (as, held) =
     (if i < length held
      then do { as \<leftarrow> promise_Pass (held ! i) t1 t2 t3 as; Some (as, remove_at i held) }
      else Some (as, held))"
| "shed_step (ShFail i) (as, held) =
     (if i < length held then Some (promise_Fail as, remove_at i held) else Some (as, held))"

fun shed_run :: "shed_op list \<Rightarrow> AdaptiveShedder \<times> go_time list \<Rightarrow> (AdaptiveShedder \<times> go_time list) option" where
  "shed_run [] s = Some s"
| "shed_run (op # ops) s = do { s \<leftarrow> shed_step op s; shed_run ops s }"

subsection \<open>Invariants\<close>

definition wf_counter :: "rollingCounter \<Rightarrow> bool" where
  "wf_counter rc \<longleftrightarrow> 0 < rc_size rc \<and> 0 < rc_interval rc \<and>
     int (length (rc_buckets rc)) = rc_size rc \<and> 0 \<le> rc_offset rc \<and> rc_offset rc < rc_size rc"

definition counter_view :: "rollingCounter \<Rightarrow> float64 list" where
  "counter_view rc = ring_view (rc_buckets rc) (rc_offset rc)"

definition counter_passed :: "go_time \<Rightarrow> rollingCounter \<Rightarrow> nat" where
  "counter_passed now rc = nat (trunc_div (now - rc_lastTime rc) (rc_interval rc))"

definition shedder_inv :: "AdaptiveShedder \<Rightarrow> bool" where
  "shedder_inv as \<longleftrightarrow> wf_counter (as_passCounter as) \<and> wf_counter (as_rtCounter as) \<and> 0 < as_bucketNum as"

section \<open>Lemmas\<close>

subsection \<open>The counter keeps the window contract\<close>

lemma counter_turns_shift:
  "wf_counter rc \<Longrightarrow> \<exists>rc'. rollingCounter_turns n rc = Some rc' \<and> wf_counter rc' \<and>
     counter_view rc' = shift_in n 0 (counter_view rc)"
proof (induction n arbitrary: rc)
  case 0
  then show ?case by simp
next
  case (Suc n)
  let ?o = "(rc_offset rc + 1) mod rc_size rc"
  let ?rc = "rc\<lparr>rc_offset := ?o, rc_buckets := (rc_buckets rc)[nat ?o := 0]\<rparr>"
  from Suc.prems have wf: "0 < rc_size rc" "0 \<le> rc_offset rc" "rc_offset rc < rc_size rc"
      "int (length (rc_buckets rc)) = rc_size rc" "0 < rc_interval rc"
    by (simp_all add: wf_counter_def)
  then have o: "0 \<le> ?o" "?o < int (length (rc_buckets rc))" by simp_all
  have "wf_counter ?rc" using wf o by (simp add: wf_counter_def)
  moreover have "counter_view ?rc = take (length (counter_view rc)) (0 # counter_view rc)"
    using ring_view_turn[of "rc_offset rc" "rc_buckets rc" 0] wf by (simp add: counter_view_def)
  ultimately show ?case using Suc.IH[of ?rc] wf o
    by (simp add: go_simps shift_in_Suc)
qed

lemma counter_view_length: "wf_counter rc \<Longrightarrow> int (length (counter_view rc)) = rc_size rc"
  by (simp add: counter_view_def wf_counter_def)

lemma counter_advance_shift:
  assumes "wf_counter rc"
  shows "\<exists>rc'. rollingCounter_advance now rc = Some rc' \<and> wf_counter rc' \<and>
    counter_view rc' = shift_in (counter_passed now rc) 0 (counter_view rc)"
proof -
  let ?q = "trunc_div (now - rc_lastTime rc) (rc_interval rc)"
  have q: "go_div (now - rc_lastTime rc) (rc_interval rc) = Some ?q"
    using assms by (simp add: wf_counter_def go_simps)
  show ?thesis
  proof (cases "?q \<le> 0")
    case True
    then show ?thesis using assms q by (simp add: rollingCounter_advance_def counter_passed_def)
  next
    case False
    let ?e = "if ?q > rc_size rc then rc_size rc else ?q"
    from counter_turns_shift[OF assms, of "nat ?e"] obtain rc' where
      rc': "rollingCounter_turns (nat ?e) rc = Some rc'" "wf_counter rc'"
        "counter_view rc' = shift_in (nat ?e) 0 (counter_view rc)" by blast
    have "nat ?e = min (counter_passed now rc) (length (counter_view rc))"
      using counter_view_length[OF assms] by (auto simp: counter_passed_def min_def)
    with rc' have "counter_view rc' = shift_in (counter_passed now rc) 0 (counter_view rc)"
      by (simp only: shift_in_cap)
    moreover have "wf_counter (rc'\<lparr>rc_lastTime := now\<rparr>)"
      "counter_view (rc'\<lparr>rc_lastTime := now\<rparr>) = counter_view rc'"
      using rc'(2) by (simp_all add: wf_counter_def counter_view_def)
    ultimately show ?thesis using q False rc'(1)
      by (simp add: rollingCounter_advance_def Let_def)
  qed
qed

lemma counter_add_after_advance:
  assumes "wf_counter rc" "rollingCounter_advance now rc = Some v"
  shows "\<exists>rc'. rollingCounter_Add now x rc = Some rc' \<and> wf_counter rc' \<and> counter_view v \<noteq> [] \<and>
    counter_view rc' = (hd (counter_view v) + x) # tl (counter_view v)"
proof -
  have v: "wf_counter v" using counter_advance_shift[OF assms(1), of now] assms(2) by auto
  then have o: "0 \<le> rc_offset v" "rc_offset v < int (length (rc_buckets v))"
    by (simp_all add: wf_counter_def)
  let ?b = "rc_buckets v ! nat (rc_offset v) + x"
  let ?w = "v\<lparr>rc_buckets := (rc_buckets v)[nat (rc_offset v) := ?b]\<rparr>"
  have "rollingCounter_Add now x rc = Some ?w"
    using assms(2) o by (simp add: rollingCounter_Add_def go_simps)
  moreover have "wf_counter ?w" using v by (simp add: wf_counter_def)
  moreover have "counter_view ?w = (hd (counter_view v) + x) # tl (counter_view v)"
    using ring_view_write[OF o, of ?b] ring_view_hd[OF o] by (simp add: counter_view_def)
  moreover have "counter_view v \<noteq> []" using o by (auto simp: counter_view_def ring_view_def)
  ultimately show ?thesis by blast
qed

interpretation rc: counting_window "0 :: float64" counter_view wf_counter counter_passed
    rollingCounter_advance id id rollingCounter_Add
proof unfold_locales
  fix now rc
  assume "wf_counter rc"
  then show "\<exists>w'. rollingCounter_advance now rc = Some w' \<and> wf_counter w' \<and>
      counter_view w' = shift_in (counter_passed now rc) 0 (counter_view rc)"
    by (rule counter_advance_shift)
next
  show "id (0 :: float64) = 0" by simp
next
  fix now rc v and x :: float64
  assume "wf_counter rc" "rollingCounter_advance now rc = Some v"
  from counter_add_after_advance[OF this, of x] show "\<exists>w'. rollingCounter_Add now x rc = Some w' \<and> wf_counter w' \<and>
      counter_view v \<noteq> [] \<and> (\<exists>b. counter_view w' = b # tl (counter_view v) \<and>
        id b = id (hd (counter_view v)) + id x)"
    by auto
qed

subsection \<open>Decisions\<close>

lemma counter_advance_total: "wf_counter rc \<Longrightarrow> \<exists>rc'. rollingCounter_advance now rc = Some rc' \<and> wf_counter rc'"
  by (rule rc.move_to_total)

lemma max_loop_eq: "max_loop m bs = foldl max m bs"
  by (induction bs arbitrary: m) (auto simp: max_def)

lemma foldl_max_ge: "(m :: float64) \<le> foldl max m bs"
  by (induction bs arbitrary: m) (auto intro: order_trans[OF max.cobounded1])

lemma foldl_max_upper: "b \<in> set bs \<Longrightarrow> (b :: float64) \<le> foldl max m bs"
proof (induction bs arbitrary: m)
  case (Cons c bs)
  then show ?case using order_trans[OF max.cobounded2 foldl_max_ge] by auto
qed simp

lemma max_loop_set: "max_loop m bs = Max (insert m (set bs))"
proof (rule sym, rule Max_eqI)
  show "max_loop m bs \<in> insert m (set bs)" by (induction bs arbitrary: m) auto
qed (auto simp: max_loop_eq foldl_max_ge foldl_max_upper)

lemma avg_loop_eq:
  "avg_loop acc n bs =
     (let ps = filter (\<lambda>b. 0 < b) bs
      in if n + int (length ps) = 0 then 0 else (acc + sum_list ps) / of_int (n + int (length ps)))"
  by (induction bs arbitrary: acc n) (auto simp: Let_def algebra_simps)

lemma systemOverloaded_frame:
  assumes "systemOverloaded env as = (over, as')"
  shows "as_flying as' = as_flying as" "as_passCounter as' = as_passCounter as"
    "as_rtCounter as' = as_rtCounter as" "as_bucketNum as' = as_bucketNum as"
  using assms by (auto simp: systemOverloaded_def currentCPU_def Let_def split: if_splits prod.splits)

text \<open>The limit of Little's law, as a function of the two views.\<close>

definition flight_limit :: "float64 list \<Rightarrow> float64 list \<Rightarrow> int \<Rightarrow> float64" where
  "flight_limit passes rts n =
     (let ps = filter (\<lambda>b. 0 < b) rts;
          avg = (if ps = [] then 0 else sum_list ps / of_nat (length ps))
      in Max (insert 0 (set passes)) * max avg 1 / 1000 * of_int n)"

lemma flight_limit_nonneg: "0 \<le> n \<Longrightarrow> 0 \<le> flight_limit ps rts n"
proof -
  assume "0 \<le> n"
  moreover have "0 \<le> Max (insert 0 (set ps))" by (rule Max_ge) simp_all
  ultimately show ?thesis unfolding flight_limit_def Let_def
    by (intro mult_nonneg_nonneg divide_nonneg_pos) (simp_all add: le_max_iff_disj)
qed

lemma sum_filter_ring_view:
  "sum_list (filter P (ring_view bs off)) = sum_list (filter P bs)"
  "length (filter P (ring_view bs off)) = length (filter P bs)"
  for bs :: "float64 list"
  by (metis mset_filter mset_ring_view sum_mset_sum_list, metis mset_filter mset_ring_view size_mset)

lemma maxFlight_limit:
  assumes "shedder_inv as"
    "rollingCounter_advance (env_tPass env) (as_passCounter as) = Some pc"
    "rollingCounter_advance (env_tRt env) (as_rtCounter as) = Some rt"
  shows "maxFlight env as = Some (flight_limit (counter_view pc) (counter_view rt) (as_bucketNum as),
    as\<lparr>as_passCounter := pc, as_rtCounter := rt\<rparr>)"
proof -
  have "avg_loop 0 0 (rc_buckets rt) = (let ps = filter (\<lambda>b. 0 < b) (counter_view rt)
      in if ps = [] then 0 else sum_list ps / of_nat (length ps))"
    using sum_filter_ring_view[of "\<lambda>b. 0 < b" "rc_buckets rt" "rc_offset rt"]
    by (auto simp add: avg_loop_eq Let_def counter_view_def filter_empty_conv)
  then show ?thesis using assms(2,3)
    by (simp add: maxFlight_def rollingCounter_Max_def rollingCounter_Avg_def flight_limit_def Let_def
        max_loop_set counter_view_def)
qed

lemma shedder_inv_counters:
  "shedder_inv as \<Longrightarrow> wf_counter (as_passCounter as)" "shedder_inv as \<Longrightarrow> wf_counter (as_rtCounter as)"
  "shedder_inv as \<Longrightarrow> 0 < as_bucketNum as"
  by (simp_all add: shedder_inv_def)

lemma shedder_inv_frame:
  "shedder_inv as \<Longrightarrow> wf_counter (as_passCounter as') \<Longrightarrow> wf_counter (as_rtCounter as') \<Longrightarrow>
   as_bucketNum as' = as_bucketNum as \<Longrightarrow> shedder_inv as'"
  by (simp add: shedder_inv_def)

lemma shedder_Allow_cases:
  assumes inv: "shedder_inv as" and so: "systemOverloaded env as = (over, as1)"
    and pc: "rollingCounter_advance (env_tPass env) (as_passCounter as) = Some pc"
    and rt: "rollingCounter_advance (env_tRt env) (as_rtCounter as) = Some rt"
  shows "shedder_Allow env as =
    (let as2 = (if over then as1\<lparr>as_passCounter := pc, as_rtCounter := rt\<rparr> else as1) in
     if over \<and> of_int (as_flying as) > flight_limit (counter_view pc) (counter_view rt) (as_bucketNum as)
     then Some (Inl ErrServiceOverloaded, as2\<lparr>as_dropTime := env_tEnd env, as_droppedRecently := True\<rparr>)
     else Some (Inr (env_tEnd env), as2\<lparr>as_flying := as_flying as + 1\<rparr>))"
proof -
  note fr = systemOverloaded_frame[OF so]
  have "shedder_inv as1" using inv fr by (simp add: shedder_inv_def)
  from maxFlight_limit[OF this, of env pc rt] pc rt fr
  show ?thesis by (simp add: shedder_Allow_def shouldDrop_def so Let_def)
qed

lemma shedder_Allow_inv [inv_intros]:
  assumes "shedder_inv as"
  shows "\<exists>r as'. shedder_Allow env as = Some (r, as') \<and> shedder_inv as' \<and>
    as_flying as' = as_flying as + (case r of Inl _ \<Rightarrow> 0 | Inr _ \<Rightarrow> 1)"
proof -
  obtain over as1 where so: "systemOverloaded env as = (over, as1)" by fastforce
  obtain pc rt where adv: "rollingCounter_advance (env_tPass env) (as_passCounter as) = Some pc" "wf_counter pc"
      "rollingCounter_advance (env_tRt env) (as_rtCounter as) = Some rt" "wf_counter rt"
    using counter_advance_total shedder_inv_counters[OF assms] by metis
  show ?thesis
    using shedder_Allow_cases[OF assms so adv(1,3)] systemOverloaded_frame[OF so] assms adv(2,4)
    by (simp add: Let_def shedder_inv_def)
qed

lemma promise_Pass_inv [inv_intros]:
  assumes "shedder_inv as"
  shows "\<exists>as'. promise_Pass start t1 t2 t3 as = Some as' \<and> shedder_inv as' \<and> as_flying as' = as_flying as - 1"
proof -
  obtain pc where "rollingCounter_Add t2 1 (as_passCounter as) = Some pc" "wf_counter pc"
    using rc.record_at_total shedder_inv_counters(1)[OF assms] by metis
  moreover obtain rt where
    "rollingCounter_Add t3 (of_int (trunc_div (t1 - start) Millisecond)) (as_rtCounter as) = Some rt" "wf_counter rt"
    using rc.record_at_total shedder_inv_counters(2)[OF assms] by metis
  ultimately show ?thesis using assms by (simp add: promise_Pass_def Let_def shedder_inv_def)
qed

lemma promise_Fail_inv [inv_intros]: "shedder_inv as \<Longrightarrow> shedder_inv (promise_Fail as)"
  by (simp add: promise_Fail_def shedder_inv_def)

lemma length_remove_at [simp]: "i < length xs \<Longrightarrow> length (remove_at i xs) = length xs - 1"
  by (simp add: remove_at_def)

lemma shed_step_inv:
  assumes "shedder_inv as" "as_flying as = int (length held)"
  shows "\<exists>as' held'. shed_step op (as, held) = Some (as', held') \<and> shedder_inv as' \<and>
    as_flying as' = int (length held')"
proof (cases op)
  case (ShAllow env)
  from shedder_Allow_inv[OF assms(1), of env] obtain r as' where
    "shedder_Allow env as = Some (r, as')" "shedder_inv as'"
    "as_flying as' = as_flying as + (case r of Inl _ \<Rightarrow> 0 | Inr _ \<Rightarrow> 1)" by blast
  with ShAllow assms show ?thesis by (cases r) simp_all
next
  case (ShPass i t1 t2 t3)
  from promise_Pass_inv[OF assms(1), of "held ! i" t1 t2 t3] obtain as' where
    "promise_Pass (held ! i) t1 t2 t3 as = Some as'" "shedder_inv as'" "as_flying as' = as_flying as - 1" by blast
  with ShPass assms show ?thesis by (cases "i < length held") (simp_all add: of_nat_diff)
next
  case (ShFail i)
  with assms promise_Fail_inv[OF assms(1)] show ?thesis
    by (cases "i < length held") (simp_all add: promise_Fail_def of_nat_diff)
qed

lemma shed_run_inv:
  "shedder_inv as \<Longrightarrow> as_flying as = int (length held) \<Longrightarrow>
   \<exists>as' held'. shed_run ops (as, held) = Some (as', held') \<and> shedder_inv as' \<and> as_flying as' = int (length held')"
proof (induction ops arbitrary: as held)
  case (Cons op ops)
  from shed_step_inv[OF Cons.prems, of op] Cons.IH show ?case by fastforce
qed simp

lemma new_shedder:
  assumes "foldl apply_option default_settings opts = s" "0 < ss_bucketNum s" "ss_bucketNum s \<le> ss_windowSize s"
  shows "\<exists>as. NewAdaptiveShedder opts t1 t2 t3 descs sample = Some as \<and> shedder_inv as \<and> as_flying as = 0"
proof -
  have "0 < ss_windowSize s div ss_bucketNum s" using assms(2,3) by (simp add: pos_imp_zdiv_pos_iff)
  with assms show ?thesis
    by (simp add: NewAdaptiveShedder_def newRollingCounter_def go_simps Let_def shedder_inv_def wf_counter_def)
qed

lemma currentCPU_range: "0 \<le> fst (currentCPU env as) \<and> fst (currentCPU env as) \<le> 1000"
  by (auto simp: currentCPU_def Let_def floor_le_iff not_less)

lemma readCPUSeconds_sum: "readCPUSeconds sample names = sum_list (map sample names)"
proof -
  have "foldl (\<lambda>acc name. acc + sample name) a names = a + sum_list (map sample names)" for a
    by (induction names arbitrary: a) (simp_all add: algebra_simps)
  then show ?thesis by (auto simp: readCPUSeconds_def)
qed

lemma readCPUSeconds_grows:
  assumes "n \<in> set names" "\<forall>m \<in> set names. old m \<le> new m"
  shows "new n - old n \<le> readCPUSeconds new names - readCPUSeconds old names"
proof -
  have le: "sum_list (map old ms) \<le> sum_list (map new ms)" if "set ms \<subseteq> set names" for ms
    using that assms(2) by (intro sum_list_mono) auto
  obtain xs ys where "names = xs @ n # ys" using assms(1) by (auto simp: in_set_conv_decomp)
  moreover from this have "sum_list (map old xs) \<le> sum_list (map new xs)"
    "sum_list (map old ys) \<le> sum_list (map new ys)" by (auto intro!: le)
  ultimately show ?thesis by (simp add: readCPUSeconds_sum)
qed

section \<open>Properties\<close>


definition idle_env :: "go_time \<Rightarrow> allow_env" where
  "idle_env t = \<lparr>env_tCPU = t, env_tSince = t, env_tPass = t, env_tRt = t, env_tEnd = t,
     env_sample = (\<lambda>_. 0), env_gomaxprocs = 4\<rparr>"


text \<open>C5: \<open>Allow\<close> refuses exactly when the system counts as overloaded and the requests in
  flight exceed the limit of Little's law: the greatest number of completions in a bucket, times
  the mean positive response time of the buckets (at least 1 ms), over 1000, times the number of
  buckets, both read after the slots that passed were cleared. In particular the first request
  of an idle service is always admitted. A refusal stamps the drop time; a grant counts one more
  request in flight.\<close>

theorem shedder_decision:
  assumes "shedder_inv as" "systemOverloaded env as = (over, as1)"
  shows "\<exists>as'. let passes = shift_in (counter_passed (env_tPass env) (as_passCounter as)) 0 (counter_view (as_passCounter as));
             rts = shift_in (counter_passed (env_tRt env) (as_rtCounter as)) 0 (counter_view (as_rtCounter as));
             full = (over \<and> of_int (as_flying as) > flight_limit passes rts (as_bucketNum as))
         in shedder_Allow env as = Some (if full then Inl ErrServiceOverloaded else Inr (env_tEnd env), as') \<and>
            as_flying as' = (if full then as_flying as else as_flying as + 1) \<and>
            (full \<longrightarrow> as_droppedRecently as' \<and> as_dropTime as' = env_tEnd env \<and> 0 < as_flying as)"
proof -
  obtain pc where pc: "rollingCounter_advance (env_tPass env) (as_passCounter as) = Some pc"
    using counter_advance_total shedder_inv_counters(1)[OF assms(1)] by blast
  obtain rt where rt: "rollingCounter_advance (env_tRt env) (as_rtCounter as) = Some rt"
    using counter_advance_total shedder_inv_counters(2)[OF assms(1)] by blast
  let ?l = "flight_limit (counter_view pc) (counter_view rt) (as_bucketNum as)"
  have "0 \<le> ?l" using shedder_inv_counters(3)[OF assms(1)] by (simp add: flight_limit_nonneg)
  then have "of_int (as_flying as) > ?l \<Longrightarrow> 0 < as_flying as"
    by (metis of_int_0_less_iff order_le_less_trans)
  moreover note rc.move_to_slots(2)[OF shedder_inv_counters(1)[OF assms(1)] pc, symmetric]
    rc.move_to_slots(2)[OF shedder_inv_counters(2)[OF assms(1)] rt, symmetric]
  ultimately show ?thesis
    using shedder_Allow_cases[OF assms pc rt] systemOverloaded_frame[OF assms(2)]
    by (cases "over \<and> ?l < of_int (as_flying as)") (auto simp: Let_def)
qed

definition busy_shedder :: AdaptiveShedder where
  "busy_shedder = \<lparr>as_cpuThreshold = 0, as_windowSize = 100, as_bucketNum = 1, as_flying = 3,
     as_dropTime = 0, as_droppedRecently = True,
     as_passCounter = \<lparr>rc_buckets = [2], rc_size = 1, rc_offset = 0, rc_lastTime = 0, rc_interval = 100\<rparr>,
     as_rtCounter = \<lparr>rc_buckets = [40], rc_size = 1, rc_offset = 0, rc_lastTime = 0, rc_interval = 100\<rparr>,
     as_cpuMetrics = [], as_lastCPUSeconds = 0, as_lastCPUCheck = 0\<rparr>"

theorem shedder_decision_witness:
  "\<exists>as'. shedder_Allow (idle_env 7) busy_shedder = Some (Inl ErrServiceOverloaded, as') \<and> as_flying as' = 3"
proof -
  have "shedder_inv busy_shedder" by (simp add: shedder_inv_def busy_shedder_def wf_counter_def)
  moreover have "systemOverloaded (idle_env 7) busy_shedder = (True, busy_shedder)"
    by (simp add: systemOverloaded_def busy_shedder_def idle_env_def Second_def)
  moreover have "counter_passed 7 (as_passCounter busy_shedder) = 0" "counter_passed 7 (as_rtCounter busy_shedder) = 0"
    "counter_view (as_passCounter busy_shedder) = [2]" "counter_view (as_rtCounter busy_shedder) = [40]"
    "as_flying busy_shedder = 3" "as_bucketNum busy_shedder = 1"
    by (simp_all add: busy_shedder_def counter_passed_def counter_view_def ring_view_def)
  ultimately show ?thesis
    using shedder_decision[of busy_shedder "idle_env 7" True busy_shedder]
    by (simp add: idle_env_def flight_limit_def Let_def) blast
qed

text \<open>The CPU probe reads full load whatever the process does, as soon as the discovered
  metrics contain a series that grows by \<open>GOMAXPROCS\<close> seconds per second, as
  \<open>/cpu/classes/total:cpu-seconds\<close> is documented to, and no series decreases: the probe sums
  every \<open>/cpu/classes/\<close> series, the total and the idle class included. It then returns 1000, so
  any threshold up to 1000 counts the system as overloaded.\<close>

theorem cpu_probe_saturates:
  assumes "as_lastCPUSeconds as = readCPUSeconds old (as_cpuMetrics as)"
    "total_name \<in> set (as_cpuMetrics as)" "\<forall>n \<in> set (as_cpuMetrics as). old n \<le> env_sample env n"
    "0 < env_gomaxprocs env" "as_lastCPUCheck as < env_tCPU env"
    "old total_name + of_int (env_gomaxprocs env) * (of_int (env_tCPU env - as_lastCPUCheck as) / of_int Second)
       \<le> env_sample env total_name"
    "0 < as_cpuThreshold as" "as_cpuThreshold as \<le> 1000"
  shows "fst (currentCPU env as) = 1000 \<and> fst (systemOverloaded env as)"
proof -
  let ?e = "of_int (env_tCPU env - as_lastCPUCheck as) / of_int Second :: float64"
  let ?p = "of_int (env_gomaxprocs env) :: float64"
  let ?d = "readCPUSeconds (env_sample env) (as_cpuMetrics as) - as_lastCPUSeconds as"
  have e: "0 < ?e" and p: "0 < ?p" using assms(4,5) by (simp_all add: Second_def)
  have d: "?p * ?e \<le> ?d"
    using readCPUSeconds_grows[OF assms(2,3)] assms(1,6) by simp
  then have "0 < ?d" using mult_pos_pos[OF p e] by linarith
  moreover have "1 \<le> ?d / (?p * ?e)" using d mult_pos_pos[OF p e] by (subst le_divide_eq_1_pos)
  then have "1 * 1000 \<le> ?d / (?p * ?e) * 1000" by (rule mult_right_mono) simp
  then have "1000 \<le> ?d / ?e / ?p * 1000" by (simp add: mult.commute)
  ultimately have "fst (currentCPU env as) = 1000"
    using assms(4,5) by (auto simp: currentCPU_def Let_def not_less)
  then show ?thesis using assms(7,8) by (auto simp: systemOverloaded_def Let_def split: prod.splits)
qed

definition tick_env :: "go_time \<Rightarrow> allow_env" where
  "tick_env t = (idle_env t)\<lparr>env_sample := (\<lambda>n. if n = ''/cpu/classes/total:cpu-seconds'' then 8 else 0)\<rparr>"

theorem cpu_probe_saturates_witness:
  "\<exists>as. as_cpuMetrics as = [''/cpu/classes/total:cpu-seconds'', ''/cpu/classes/user:cpu-seconds''] \<and>
     fst (currentCPU (tick_env (2 * Second)) as) = 1000 \<and> fst (systemOverloaded (tick_env (2 * Second)) as)"
proof -
  let ?as = "busy_shedder\<lparr>as_cpuThreshold := 900,
    as_cpuMetrics := [''/cpu/classes/total:cpu-seconds'', ''/cpu/classes/user:cpu-seconds'']\<rparr>"
  have "fst (currentCPU (tick_env (2 * Second)) ?as) = 1000 \<and> fst (systemOverloaded (tick_env (2 * Second)) ?as)"
    by (rule cpu_probe_saturates[where old = "\<lambda>_. 0" and total_name = "''/cpu/classes/total:cpu-seconds''"])
      (simp_all add: readCPUSeconds_def tick_env_def idle_env_def busy_shedder_def Second_def)
  then show ?thesis by (intro exI[of _ ?as]) simp
qed

end
