(* ===== verification/Limiters.thy ===== *)
theory Limiters
  imports Go_Prelude
begin

section \<open>The rate limiters\<close>

text \<open>
  Models \<open>limit/periodlimit.go\<close> and \<open>limit/tokenlimit.go\<close>: the local counters and the local
  bucket with every operation, the clean-up tick, the two Lua scripts, and \<open>Take\<close> and \<open>AllowN\<close>
  with their fallback. Redis itself is a parameter: the scripts take the commands they call
  (\<open>INCR\<close>, \<open>EXPIRE\<close>, \<open>GET\<close>, \<open>SETEX\<close>) as functions on an abstract store, and \<open>Take\<close> and
  \<open>reserveN\<close> take what evaluating the script does, \<^term>\<open>None\<close> standing for a nil client.
\<close>

subsection \<open>The period limiter\<close>

datatype LimitStatus = AllowedStatus | OverQuotaStatus | UnknownStatus

record localCounter =
  lc_count :: int
  lc_expireAt :: go_time

record PeriodLimiter =
  pl_period :: int
  pl_quota :: int
  pl_prefix :: string
  pl_localCount :: "string \<rightharpoonup> localCounter"

definition NewPeriodLimiter :: "int \<Rightarrow> int \<Rightarrow> string \<Rightarrow> PeriodLimiter" where
  "NewPeriodLimiter period quota pre =
     \<lparr>pl_period = period, pl_quota = quota, pl_prefix = pre, pl_localCount = Map.empty\<rparr>"

text \<open>\<open>time.NewTicker\<close> in the clean-up goroutine panics on a non-positive period.\<close>

definition cleanup_period :: "PeriodLimiter \<Rightarrow> duration option" where
  "cleanup_period pl = (let d = wrap64 (duration_of (pl_period pl) Second * 2) in if d \<le> 0 then None else Some d)"

text \<open>One tick of the clean-up loop: every expired counter goes.\<close>

definition cleanup_tick :: "go_time \<Rightarrow> PeriodLimiter \<Rightarrow> PeriodLimiter" where
  "cleanup_tick now pl = pl\<lparr>pl_localCount := (\<lambda>k. case pl_localCount pl k of
     None \<Rightarrow> None | Some v \<Rightarrow> if now > lc_expireAt v then None else Some v)\<rparr>"

definition localTake :: "go_time \<Rightarrow> string \<Rightarrow> PeriodLimiter \<Rightarrow> LimitStatus \<times> PeriodLimiter" where
  "localTake now key pl =
     (let fresh = (AllowedStatus, pl\<lparr>pl_localCount := (pl_localCount pl)(key \<mapsto>
            \<lparr>lc_count = 1, lc_expireAt = now + duration_of (pl_period pl) Second\<rparr>)\<rparr>)
      in case pl_localCount pl key of
           None \<Rightarrow> fresh
         | Some counter \<Rightarrow>
             if now > lc_expireAt counter then fresh
             else let counter = counter\<lparr>lc_count := lc_count counter + 1\<rparr>;
                      pl' = pl\<lparr>pl_localCount := (pl_localCount pl)(key \<mapsto> counter)\<rparr>
                  in if lc_count counter > pl_quota pl then (OverQuotaStatus, pl') else (AllowedStatus, pl'))"

text \<open>The Lua script over the commands it calls.\<close>

definition periodLimitScript ::
  "(string \<Rightarrow> 's \<Rightarrow> int \<times> 's) \<Rightarrow> (string \<Rightarrow> int \<Rightarrow> 's \<Rightarrow> 's) \<Rightarrow> string \<Rightarrow> int \<Rightarrow> int \<Rightarrow> 's \<Rightarrow> int \<times> 's" where
  "periodLimitScript INCR EXPIRE key quota window s =
     (let (current, s) = INCR key s;
          s = (if current = 1 then EXPIRE key window s else s)
      in if current > quota then (0, s) else (1, s))"

text \<open>\<open>rdb\<close> is \<^term>\<open>None\<close> for a nil client; otherwise it runs the script on the key, the quota and
  the period and answers a number, or \<^term>\<open>None\<close> for an error.\<close>

definition Take ::
  "(string \<Rightarrow> int \<Rightarrow> int \<Rightarrow> 's \<Rightarrow> int option \<times> 's) option \<Rightarrow> go_time \<Rightarrow> string \<Rightarrow> PeriodLimiter \<Rightarrow> 's \<Rightarrow>
     LimitStatus \<times> PeriodLimiter \<times> 's" where
  "Take rdb now key pl s =
     (case rdb of
        None \<Rightarrow> (let (st, pl) = localTake now key pl in (st, pl, s))
      | Some eval_script \<Rightarrow>
          (let fullKey = pl_prefix pl @ '':'' @ key;
               (result, s) = eval_script fullKey (pl_quota pl) (pl_period pl) s
           in case result of
                None \<Rightarrow> (let (st, pl) = localTake now key pl in (st, pl, s))
              | Some r \<Rightarrow> if r = 1 then (AllowedStatus, pl, s) else (OverQuotaStatus, pl, s)))"

subsection \<open>The token limiter\<close>

record TokenLimiter =
  tl_rate :: int
  tl_burst :: int
  tl_key :: string
  tl_localTokens :: float64
  tl_localLast :: go_time

definition NewTokenLimiter :: "int \<Rightarrow> int \<Rightarrow> string \<Rightarrow> go_time \<Rightarrow> TokenLimiter" where
  "NewTokenLimiter rate burst key now =
     \<lparr>tl_rate = rate, tl_burst = burst, tl_key = key, tl_localTokens = of_int burst, tl_localLast = now\<rparr>"

definition seconds :: "duration \<Rightarrow> float64" where
  "seconds d = of_int d / of_int Second"

definition localAllow :: "go_time \<Rightarrow> int \<Rightarrow> TokenLimiter \<Rightarrow> bool \<times> TokenLimiter" where
  "localAllow now n tb =
     (let elapsed = seconds (now - tl_localLast tb);
          tokens = tl_localTokens tb + elapsed * of_int (tl_rate tb);
          tokens = (if tokens > of_int (tl_burst tb) then of_int (tl_burst tb) else tokens);
          tb = tb\<lparr>tl_localLast := now\<rparr>
      in if tokens \<ge> of_int n then (True, tb\<lparr>tl_localTokens := tokens - of_int n\<rparr>)
         else (False, tb\<lparr>tl_localTokens := tokens\<rparr>))"

text \<open>The Lua script. \<open>GET\<close> already applies \<open>tonumber\<close>; \<open>SETEX\<close> answers \<^term>\<open>None\<close> for an error,
  which aborts the script.\<close>

definition tokenLimitScript ::
  "(string \<Rightarrow> 's \<Rightarrow> float64 option) \<Rightarrow> (string \<Rightarrow> int \<Rightarrow> float64 \<Rightarrow> 's \<Rightarrow> 's option) \<Rightarrow>
     string \<Rightarrow> string \<Rightarrow> int \<Rightarrow> int \<Rightarrow> float64 \<Rightarrow> int \<Rightarrow> 's \<Rightarrow> (int \<times> 's) option" where
  "tokenLimitScript GET SETEX key1 key2 rate capacity now requested s =
     (let fill_time = (of_int capacity / of_int rate :: float64);
          ttl = \<lfloor>fill_time * 2\<rfloor>;
          last_tokens = (case GET key1 s of None \<Rightarrow> of_int capacity | Some v \<Rightarrow> v);
          last_refreshed = (case GET key2 s of None \<Rightarrow> 0 | Some v \<Rightarrow> v);
          delta = max 0 (now - last_refreshed);
          filled_tokens = min (of_int capacity) (last_tokens + delta * of_int rate);
          allowed = (filled_tokens \<ge> of_int requested);
          new_tokens = (if allowed then filled_tokens - of_int requested else filled_tokens)
      in do {
           s \<leftarrow> SETEX key1 ttl new_tokens s;
           s \<leftarrow> SETEX key2 ttl now s;
           Some (if allowed then 1 else 0, s) })"

text \<open>\<open>Eval\<close> of that script: an error leaves the store as it was.\<close>

definition eval_token_script ::
  "(string \<Rightarrow> 's \<Rightarrow> float64 option) \<Rightarrow> (string \<Rightarrow> int \<Rightarrow> float64 \<Rightarrow> 's \<Rightarrow> 's option) \<Rightarrow>
     string \<Rightarrow> string \<Rightarrow> int \<Rightarrow> int \<Rightarrow> float64 \<Rightarrow> int \<Rightarrow> 's \<Rightarrow> int option \<times> 's" where
  "eval_token_script GET SETEX key1 key2 rate capacity now requested s =
     (case tokenLimitScript GET SETEX key1 key2 rate capacity now requested s of
        None \<Rightarrow> (None, s) | Some (v, s') \<Rightarrow> (Some v, s'))"

text \<open>\<open>now.Unix()\<close> rounds the clock down to seconds.\<close>

definition reserveN ::
  "(string \<Rightarrow> string \<Rightarrow> int \<Rightarrow> int \<Rightarrow> float64 \<Rightarrow> int \<Rightarrow> 's \<Rightarrow> int option \<times> 's) option \<Rightarrow>
     go_time \<Rightarrow> int \<Rightarrow> TokenLimiter \<Rightarrow> 's \<Rightarrow> bool \<times> TokenLimiter \<times> 's" where
  "reserveN rdb now n tb s =
     (case rdb of
        None \<Rightarrow> (let (ok, tb) = localAllow now n tb in (ok, tb, s))
      | Some eval_script \<Rightarrow>
          (let tokenKey = tl_key tb @ '':tokens'';
               tsKey = tl_key tb @ '':ts'';
               nowSec = of_int (now div Second);
               (result, s) = eval_script tokenKey tsKey (tl_rate tb) (tl_burst tb) nowSec n s
           in case result of
                None \<Rightarrow> (let (ok, tb) = localAllow now n tb in (ok, tb, s))
              | Some r \<Rightarrow> (r = 1, tb, s)))"

definition AllowN where
  "AllowN rdb now n tb s = reserveN rdb now n tb s"

definition TokenLimiter_Allow where
  "TokenLimiter_Allow rdb now tb s = AllowN rdb now 1 tb s"

subsection \<open>Runs\<close>

datatype period_op = PTake go_time string | PCleanup go_time

fun op_time :: "period_op \<Rightarrow> go_time" where
  "op_time (PTake t _) = t"
| "op_time (PCleanup t) = t"

text \<open>A run lists for every \<open>Take\<close> its key and its status.\<close>

fun period_run :: "period_op list \<Rightarrow> PeriodLimiter \<Rightarrow> (string \<times> LimitStatus) list" where
  "period_run [] pl = []"
| "period_run (PTake t k # ops) pl = (let (st, pl) = localTake t k pl in (k, st) # period_run ops pl)"
| "period_run (PCleanup t # ops) pl = period_run ops (cleanup_tick t pl)"

definition allowed_for :: "string \<Rightarrow> (string \<times> LimitStatus) list \<Rightarrow> nat" where
  "allowed_for k rs = length (filter (\<lambda>r. r = (k, AllowedStatus)) rs)"

definition takes_for :: "string \<Rightarrow> (string \<times> LimitStatus) list \<Rightarrow> nat" where
  "takes_for k rs = length (filter (\<lambda>r. fst r = k) rs)"

text \<open>A run of the local bucket: the requests granted, in order.\<close>

fun token_run :: "(go_time \<times> int) list \<Rightarrow> TokenLimiter \<Rightarrow> int \<times> TokenLimiter" where
  "token_run [] tb = (0, tb)"
| "token_run ((t, n) # rs) tb =
     (let (ok, tb) = localAllow t n tb; (g, tb) = token_run rs tb in ((if ok then n else 0) + g, tb))"

section \<open>Lemmas\<close>

subsection \<open>Counters\<close>

text \<open>What a caller can see of a key at a time: the count of its live counter.\<close>

definition live :: "go_time \<Rightarrow> PeriodLimiter \<Rightarrow> string \<rightharpoonup> localCounter" where
  "live now pl k = (case pl_localCount pl k of
     None \<Rightarrow> None | Some v \<Rightarrow> if now > lc_expireAt v then None else Some v)"

lemma live_cleanup: "t \<le> now \<Longrightarrow> live now (cleanup_tick t pl) = live now pl"
  by (auto simp: live_def cleanup_tick_def fun_eq_iff split: option.splits)

lemma cleanup_frame [simp]:
  "pl_quota (cleanup_tick t pl) = pl_quota pl" "pl_period (cleanup_tick t pl) = pl_period pl"
  by (simp_all add: cleanup_tick_def)

lemma localTake_frame:
  "localTake t k pl = (st, pl') \<Longrightarrow> pl_quota pl' = pl_quota pl \<and> pl_period pl' = pl_period pl"
  by (auto simp: localTake_def Let_def split: option.splits if_splits)

lemma localTake_None:
  "live t pl k = None \<Longrightarrow> localTake t k pl = (AllowedStatus, pl\<lparr>pl_localCount := (pl_localCount pl)(k \<mapsto>
     \<lparr>lc_count = 1, lc_expireAt = t + duration_of (pl_period pl) Second\<rparr>)\<rparr>)"
  by (auto simp: localTake_def live_def Let_def split: option.splits if_splits)

lemma localTake_Some:
  "live t pl k = Some c \<Longrightarrow> localTake t k pl =
     (if lc_count c + 1 > pl_quota pl then OverQuotaStatus else AllowedStatus,
      pl\<lparr>pl_localCount := (pl_localCount pl)(k \<mapsto> c\<lparr>lc_count := lc_count c + 1\<rparr>)\<rparr>)"
  by (auto simp: localTake_def live_def Let_def split: option.splits if_splits)

lemma live_mono: "live t pl k = None \<Longrightarrow> t \<le> t' \<Longrightarrow> live t' pl k = None"
  by (auto simp: live_def split: option.splits if_splits)

lemma live_update_other [simp]: "j \<noteq> k \<Longrightarrow>
  live t (pl\<lparr>pl_localCount := (pl_localCount pl)(k \<mapsto> c)\<rparr>) j = live t pl j"
  by (simp add: live_def)

lemma live_update_same: "live t (pl\<lparr>pl_localCount := (pl_localCount pl)(k \<mapsto> c)\<rparr>) k =
  (if t > lc_expireAt c then None else Some c)"
  by (simp add: live_def)

lemma localTake_other: "localTake t j pl = (st, pl') \<Longrightarrow> j \<noteq> k \<Longrightarrow> live t' pl' k = live t' pl k"
  by (cases "live t pl j") (auto simp: localTake_None localTake_Some)

text \<open>Two limiters that look the same now look the same for ever.\<close>

definition same_view :: "go_time \<Rightarrow> PeriodLimiter \<Rightarrow> PeriodLimiter \<Rightarrow> bool" where
  "same_view t pl pl' \<longleftrightarrow> pl_quota pl = pl_quota pl' \<and> pl_period pl = pl_period pl' \<and>
     (\<forall>t' \<ge> t. live t' pl = live t' pl')"

lemma same_viewD: "same_view t pl pl' \<Longrightarrow> t \<le> t' \<Longrightarrow> same_view t' pl pl'"
  by (auto simp: same_view_def)

lemma same_view_cleanup: "same_view t pl pl' \<Longrightarrow> t \<le> c \<Longrightarrow> same_view c (cleanup_tick c pl) pl'"
  by (auto simp: same_view_def live_cleanup)

lemma same_view_take:
  assumes "same_view t pl pl'" "localTake t k pl = (st, q)" "localTake t k pl' = (st', q')"
  shows "st = st' \<and> same_view t q q'"
proof -
  have eq: "live t pl k = live t pl' k" and fr: "pl_quota pl = pl_quota pl'" "pl_period pl = pl_period pl'"
    using assms(1) by (auto simp: same_view_def)
  show ?thesis
  proof (cases "live t pl k")
    case None
    with eq have "live t pl' k = None" by simp
    with None assms(2,3) fr have "st = st'" "q = pl\<lparr>pl_localCount := (pl_localCount pl)(k \<mapsto>
        \<lparr>lc_count = 1, lc_expireAt = t + duration_of (pl_period pl') Second\<rparr>)\<rparr>"
      "q' = pl'\<lparr>pl_localCount := (pl_localCount pl')(k \<mapsto>
        \<lparr>lc_count = 1, lc_expireAt = t + duration_of (pl_period pl') Second\<rparr>)\<rparr>"
      by (simp_all add: localTake_None)
    with assms(1) show ?thesis by (auto simp: same_view_def live_def fun_eq_iff)
  next
    case (Some c)
    with eq have "live t pl' k = Some c" by simp
    with Some assms(2,3) fr have "st = st'"
      "q = pl\<lparr>pl_localCount := (pl_localCount pl)(k \<mapsto> c\<lparr>lc_count := lc_count c + 1\<rparr>)\<rparr>"
      "q' = pl'\<lparr>pl_localCount := (pl_localCount pl')(k \<mapsto> c\<lparr>lc_count := lc_count c + 1\<rparr>)\<rparr>"
      by (simp_all add: localTake_Some)
    with assms(1) show ?thesis by (auto simp: same_view_def live_def fun_eq_iff)
  qed
qed

fun is_take :: "period_op \<Rightarrow> bool" where
  "is_take (PTake _ _) = True"
| "is_take (PCleanup _) = False"

lemma cleanup_run:
  "sorted (map op_time ops) \<Longrightarrow> \<forall>op \<in> set ops. t \<le> op_time op \<Longrightarrow> same_view t pl pl' \<Longrightarrow>
   period_run ops pl = period_run (filter is_take ops) pl'"
proof (induction ops arbitrary: t pl pl')
  case (Cons op ops)
  note srt = Cons.prems(1) and ge = Cons.prems(2) and sv = same_viewD[OF Cons.prems(3)]
  have later: "\<forall>p \<in> set ops. op_time op \<le> op_time p" using srt by auto
  show ?case
  proof (cases op)
    case (PTake u k)
    obtain st q st' q' where "localTake u k pl = (st, q)" "localTake u k pl' = (st', q')" by fastforce
    with same_view_take[OF sv[of u]] PTake ge Cons.IH[of u q q'] srt later show ?thesis by auto
  next
    case (PCleanup u)
    with same_view_cleanup[OF sv[of u]] ge Cons.IH[of u] srt later Cons.prems(3) show ?thesis
      by (auto intro: same_view_cleanup)
  qed
qed simp

text \<open>Within the life of a counter, the takes of its key count up to the quota.\<close>

lemma quota_run:
  assumes "live t pl k = Some c" "1 \<le> lc_count c"
    "\<forall>op \<in> set ops. t \<le> op_time op \<and> op_time op \<le> lc_expireAt c"
  shows "allowed_for k (period_run ops pl) =
    min (takes_for k (period_run ops pl)) (nat (pl_quota pl - lc_count c))"
  using assms
proof (induction ops arbitrary: pl c)
  case Nil
  then show ?case by (simp add: allowed_for_def takes_for_def)
next
  case (Cons op ops)
  show ?case
  proof (cases op)
    case (PCleanup u)
    with Cons.prems have l: "live u pl k = Some c" by (auto simp: live_def split: option.splits if_splits)
    with PCleanup Cons.prems have "live t (cleanup_tick u pl) k = Some c"
      by (auto simp: live_def cleanup_tick_def split: option.splits if_splits)
    from Cons.IH[OF this] PCleanup Cons.prems(2,3) show ?thesis by simp
  next
    case (PTake u j)
    obtain st q where q: "localTake u j pl = (st, q)" by fastforce
    note fr = localTake_frame[OF q]
    have lu: "live u pl k = Some c" using Cons.prems PTake by (auto simp: live_def split: option.splits if_splits)
    show ?thesis
    proof (cases "j = k")
      case True
      let ?c = "c\<lparr>lc_count := lc_count c + 1\<rparr>"
      from q True have q': "st = (if lc_count c + 1 > pl_quota pl then OverQuotaStatus else AllowedStatus)"
        "q = pl\<lparr>pl_localCount := (pl_localCount pl)(k \<mapsto> ?c)\<rparr>"
        by (simp_all add: localTake_Some[OF lu])
      then have "live t q k = Some ?c" using Cons.prems by (auto simp: live_update_same)
      from Cons.IH[OF this] Cons.prems(2,3) q q' PTake True fr show ?thesis
        by (auto simp: allowed_for_def takes_for_def Let_def)
    next
      case False
      from Cons.IH[of q c] localTake_other[OF q False] Cons.prems q PTake False fr show ?thesis
        by (auto simp: allowed_for_def takes_for_def Let_def)
    qed
  qed
qed

definition with_counter :: "PeriodLimiter \<Rightarrow> string \<Rightarrow> go_time \<Rightarrow> int \<Rightarrow> PeriodLimiter" where
  "with_counter pl k ex n = pl\<lparr>pl_localCount := [k \<mapsto> \<lparr>lc_count = n, lc_expireAt = ex\<rparr>]\<rparr>"

lemma localTake_with_counter:
  "localTake t k (with_counter pl k ex n) =
     (if t > ex then (AllowedStatus, with_counter pl k (t + duration_of (pl_period pl) Second) 1)
      else (if n + 1 > pl_quota pl then OverQuotaStatus else AllowedStatus, with_counter pl k ex (n + 1)))"
  by (simp add: localTake_def with_counter_def Let_def)

lemma takes_within:
  assumes "n + int m \<le> pl_quota pl" "t \<le> ex"
  shows "period_run (replicate m (PTake t k) @ ops) (with_counter pl k ex n)
    = replicate m (k, AllowedStatus) @ period_run ops (with_counter pl k ex (n + int m))"
  using assms
proof (induction m arbitrary: n)
  case (Suc m)
  then show ?case using Suc.IH[of "n + 1"] by (simp add: localTake_with_counter add.assoc)
qed simp

subsection \<open>Tokens\<close>

definition bucket_inv :: "TokenLimiter \<Rightarrow> bool" where
  "bucket_inv tb \<longleftrightarrow> 0 \<le> tl_rate tb \<and> 0 \<le> tl_burst tb \<and> 0 \<le> tl_localTokens tb \<and>
     tl_localTokens tb \<le> of_int (tl_burst tb)"

lemma seconds_nonneg: "0 \<le> d \<Longrightarrow> 0 \<le> seconds d"
  by (simp add: seconds_def Second_def)

lemma seconds_diff: "seconds (a - b) = seconds a - seconds b"
  by (simp add: seconds_def diff_divide_distrib)

lemma localAllow_step:
  assumes "bucket_inv tb" "tl_localLast tb \<le> now" "0 \<le> n" "localAllow now n tb = (ok, tb')"
  shows "bucket_inv tb' \<and> tl_localLast tb' = now \<and> tl_rate tb' = tl_rate tb \<and> tl_burst tb' = tl_burst tb \<and>
    of_int (if ok then n else 0) + tl_localTokens tb'
      \<le> tl_localTokens tb + of_int (tl_rate tb) * seconds (now - tl_localLast tb)"
proof -
  let ?e = "seconds (now - tl_localLast tb) * of_int (tl_rate tb)"
  have "0 \<le> ?e" using assms(1,2) by (simp add: bucket_inv_def seconds_nonneg)
  with assms show ?thesis
    by (auto simp: localAllow_def Let_def bucket_inv_def mult.commute split: if_splits)
qed

lemma token_run_bound:
  "bucket_inv tb \<Longrightarrow> sorted (tl_localLast tb # map fst rs) \<Longrightarrow> \<forall>r \<in> set rs. 0 \<le> snd r \<Longrightarrow>
   token_run rs tb = (g, tb') \<Longrightarrow>
   bucket_inv tb' \<and> tl_localLast tb' = last (tl_localLast tb # map fst rs) \<and>
   of_int g + tl_localTokens tb'
     \<le> tl_localTokens tb + of_int (tl_rate tb) * seconds (tl_localLast tb' - tl_localLast tb)"
proof (induction rs arbitrary: tb g)
  case Nil
  then show ?case by (simp add: seconds_def)
next
  case (Cons r rs)
  obtain t n where r: "r = (t, n)" by fastforce
  obtain ok tb1 where 1: "localAllow t n tb = (ok, tb1)" by fastforce
  obtain g1 where g1: "token_run rs tb1 = (g1, tb')" "g = (if ok then n else 0) + g1"
    using Cons.prems(4) r 1 by (auto split: prod.splits)
  note step = localAllow_step[OF Cons.prems(1) _ _ 1]
  from Cons.prems r have pre: "tl_localLast tb \<le> t" "0 \<le> n" by auto
  note step = step[OF this]
  have "sorted (tl_localLast tb1 # map fst rs)" "\<forall>r \<in> set rs. 0 \<le> snd r"
    using step Cons.prems r by auto
  from Cons.IH[OF _ this g1(1)] step have
    IH: "bucket_inv tb'" "tl_localLast tb' = last (t # map fst rs)"
      "of_int g1 + tl_localTokens tb' \<le> tl_localTokens tb1 + of_int (tl_rate tb) * seconds (tl_localLast tb' - t)"
    by auto
  from step IH(3) g1(2) have "of_int g + tl_localTokens tb'
     \<le> tl_localTokens tb + of_int (tl_rate tb) * seconds (tl_localLast tb' - tl_localLast tb)"
    by (simp add: seconds_diff algebra_simps)
  with IH(1,2) r show ?case by simp
qed

subsection \<open>The scripts\<close>

text \<open>What the limiter relies on of Redis within one life of a key: \<open>INCR\<close> counts the key up
  and answers the new count, \<open>EXPIRE\<close> does not touch counts.\<close>

definition counts_keys ::
  "(string \<Rightarrow> 's \<Rightarrow> int) \<Rightarrow> (string \<Rightarrow> 's \<Rightarrow> int \<times> 's) \<Rightarrow> (string \<Rightarrow> int \<Rightarrow> 's \<Rightarrow> 's) \<Rightarrow> bool" where
  "counts_keys n_of INCR EXPIRE \<longleftrightarrow>
     (\<forall>k s. fst (INCR k s) = n_of k s + 1 \<and> n_of k (snd (INCR k s)) = n_of k s + 1) \<and>
     (\<forall>k w s. n_of k (EXPIRE k w s) = n_of k s)"

fun script_run :: "(string \<Rightarrow> 's \<Rightarrow> int \<times> 's) \<Rightarrow> (string \<Rightarrow> int \<Rightarrow> 's \<Rightarrow> 's) \<Rightarrow> string \<Rightarrow> PeriodLimiter \<Rightarrow> nat \<Rightarrow> 's \<Rightarrow>
    LimitStatus list" where
  "script_run INCR EXPIRE key pl 0 s = []"
| "script_run INCR EXPIRE key pl (Suc m) s =
     (let rdb = Some (\<lambda>k q p s. let (r, s) = periodLimitScript INCR EXPIRE k q p s in (Some r, s));
          (st, _, s) = Take rdb 0 key pl s
      in st # script_run INCR EXPIRE key pl m s)"

definition quota_statuses :: "int \<Rightarrow> int \<Rightarrow> nat \<Rightarrow> LimitStatus list" where
  "quota_statuses quota used m = map (\<lambda>i. if used + int i + 1 > quota then OverQuotaStatus else AllowedStatus) [0..<m]"

lemma quota_statuses_Suc:
  "quota_statuses q u (Suc m) = (if u + 1 > q then OverQuotaStatus else AllowedStatus) # quota_statuses q (u + 1) m"
  by (simp add: quota_statuses_def upt_conv_Cons map_Suc_upt[symmetric] algebra_simps del: upt_Suc)

lemma script_run_statuses:
  assumes "counts_keys n_of INCR EXPIRE"
  shows "script_run INCR EXPIRE key pl m s =
    quota_statuses (pl_quota pl) (n_of (pl_prefix pl @ '':'' @ key) s) m"
proof (induction m arbitrary: s)
  case 0
  then show ?case by (simp add: quota_statuses_def)
next
  case (Suc m)
  let ?k = "pl_prefix pl @ '':'' @ key"
  obtain c s1 where i: "INCR ?k s = (c, s1)" by fastforce
  moreover have "fst (INCR ?k s) = n_of ?k s + 1" "n_of ?k (snd (INCR ?k s)) = n_of ?k s + 1"
    "n_of ?k (EXPIRE ?k w s1) = n_of ?k s1" for w using assms by (auto simp: counts_keys_def)
  ultimately have c: "c = n_of ?k s + 1" "n_of ?k s1 = n_of ?k s + 1"
    "n_of ?k (EXPIRE ?k w s1) = n_of ?k s + 1" for w by simp_all
  have k: "pl_prefix pl @ CHR '':'' # key = ?k" by simp
  have "script_run INCR EXPIRE key pl (Suc m) s =
    (if n_of ?k s + 1 > pl_quota pl then OverQuotaStatus else AllowedStatus) #
    script_run INCR EXPIRE key pl m (if c = 1 then EXPIRE ?k (pl_period pl) s1 else s1)"
    unfolding script_run.simps Take_def Let_def using i by (simp add: periodLimitScript_def c(1))
  then show ?case by (simp add: Suc.IH quota_statuses_Suc c del: append_Cons append_Nil)
qed

lemma local_run_statuses:
  assumes "live t pl k = Some c" "\<forall>u \<in> set ts. t \<le> u \<and> u \<le> lc_expireAt c"
  shows "map snd (period_run (map (\<lambda>u. PTake u k) ts) pl) = quota_statuses (pl_quota pl) (lc_count c) (length ts)"
  using assms
proof (induction ts arbitrary: pl c)
  case Nil
  then show ?case by (simp add: quota_statuses_def)
next
  case (Cons u ts)
  let ?c = "c\<lparr>lc_count := lc_count c + 1\<rparr>"
  have lu: "live u pl k = Some c" using Cons.prems by (auto simp: live_def split: option.splits if_splits)
  let ?q = "pl\<lparr>pl_localCount := (pl_localCount pl)(k \<mapsto> ?c)\<rparr>"
  have "live t ?q k = Some ?c" using Cons.prems by (auto simp: live_update_same)
  from Cons.IH[OF this] Cons.prems(2) show ?case
    by (simp add: localTake_Some[OF lu] quota_statuses_Suc)
qed

section \<open>Properties\<close>



text \<open>C8: Within one window of a key, the local period limiter allows exactly the quota (and
  never less than the first request), whatever happens to other keys and whenever the clean-up
  runs: of the takes of the key from the one that opens the window to the window's end, the
  number allowed is the smaller of their number and the quota.\<close>

theorem period_quota_exact:
  assumes "live t pl k = None" "0 < pl_period pl" "pl_period pl * Second < 2 ^ 63"
    "\<forall>op \<in> set ops. t \<le> op_time op \<and> op_time op \<le> t + pl_period pl * Second"
    "rs = period_run (PTake t k # ops) pl"
  shows "allowed_for k rs = min (takes_for k rs) (nat (max 1 (pl_quota pl)))"
proof -
  let ?c = "\<lparr>lc_count = 1, lc_expireAt = t + pl_period pl * Second\<rparr>"
  let ?q = "pl\<lparr>pl_localCount := (pl_localCount pl)(k \<mapsto> ?c)\<rparr>"
  have d: "duration_of (pl_period pl) Second = pl_period pl * Second"
    using assms(2,3) by (intro duration_of_id) (simp_all add: Second_def)
  have q: "localTake t k pl = (AllowedStatus, ?q)" using localTake_None[OF assms(1)] d by simp
  have "live t ?q k = Some ?c" using assms(2) by (simp add: live_update_same Second_def)
  from quota_run[OF this, of ops] assms(4)
  have "allowed_for k (period_run ops ?q) = min (takes_for k (period_run ops ?q)) (nat (pl_quota pl - 1))"
    by simp
  then show ?thesis unfolding assms(5) by (simp add: q allowed_for_def takes_for_def Let_def)
qed

theorem period_quota_exact_witness:
  "allowed_for ''u'' (period_run [PTake 0 ''u'', PTake 1 ''v'', PTake 2 ''u'', PCleanup 3, PTake 4 ''u'']
     (NewPeriodLimiter 1 2 ''p'')) = 2"
  using period_quota_exact[OF _ _ _ _ refl, of 0 "NewPeriodLimiter 1 2 ''p''" "''u''"
      "[PTake 1 ''v'', PTake 2 ''u'', PCleanup 3, PTake 4 ''u'']"]
  by (simp add: NewPeriodLimiter_def live_def Second_def localTake_def duration_of_def takes_for_def
      cleanup_tick_def Let_def)

text \<open>The clean-up goroutine is invisible: with a clock that does not go back, a run
  interleaved with any clean-up ticks answers every \<open>Take\<close> as the run without them.\<close>

theorem cleanup_invisible:
  assumes "sorted (map op_time ops)"
  shows "period_run ops pl = period_run (filter is_take ops) pl"
proof (cases ops)
  case (Cons op ops')
  with assms have "\<forall>p \<in> set ops. op_time op \<le> op_time p" by auto
  with assms show ?thesis by (rule cleanup_run) (simp add: same_view_def)
qed simp

theorem cleanup_invisible_witness:
  "period_run [PTake 0 ''u'', PCleanup 5, PTake 5 ''u''] (NewPeriodLimiter 1 1 ''p'') =
   period_run [PTake 0 ''u'', PTake 5 ''u''] (NewPeriodLimiter 1 1 ''p'')"
  using cleanup_invisible[of "[PTake 0 ''u'', PCleanup 5, PTake 5 ''u'']" "NewPeriodLimiter 1 1 ''p''"] by simp

text \<open>The limiter is described as a sliding window, but its windows are fixed to the first
  request: for every positive period and quota there is a run in which all but one of
  twice the quota requests of one key are allowed within one nanosecond.\<close>

theorem period_window_not_sliding:
  assumes "0 < p" "p * Second < 2 ^ 63" "0 < q"
  defines "e \<equiv> p * Second"
  shows "allowed_for k (period_run
      (PTake 0 k # replicate (q - 1) (PTake e k) @ replicate q (PTake (e + 1) k))
      (NewPeriodLimiter p (int q) pre)) = 2 * q"
proof -
  have d: "duration_of p Second = e" unfolding e_def
    using assms(1,2) by (intro duration_of_id) (simp_all add: Second_def)
  have "0 < e" using assms(1) by (simp add: e_def Second_def)
  let ?pl = "NewPeriodLimiter p (int q) pre"
  have q: "Suc (q - 1) = q" "1 + int (q - 1) = int q" using assms(3) by simp_all
  have quota: "pl_quota ?pl = int q" "pl_period ?pl = p" by (simp_all add: NewPeriodLimiter_def)
  have first: "localTake 0 k ?pl = (AllowedStatus, with_counter ?pl k e 1)"
    using d by (simp add: NewPeriodLimiter_def localTake_def with_counter_def)
  have old: "period_run (replicate (q - 1) (PTake e k) @ ops) (with_counter ?pl k e 1) =
      replicate (q - 1) (k, AllowedStatus) @ period_run ops (with_counter ?pl k e (int q))" for ops
    using takes_within[of 1 "q - 1" ?pl e e k ops] q quota by simp
  have new: "period_run (replicate q (PTake (e + 1) k)) (with_counter ?pl k e (int q)) = replicate q (k, AllowedStatus)"
    using takes_within[of 1 "q - 1" ?pl "e + 1" "e + 1 + e" k "[]"] q(2) \<open>0 < e\<close> d quota
    by (cases q) (simp_all add: localTake_with_counter add.commute)
  have "period_run (PTake 0 k # replicate (q - 1) (PTake e k) @ replicate q (PTake (e + 1) k)) ?pl =
      (k, AllowedStatus) # replicate (q - 1) (k, AllowedStatus) @ replicate q (k, AllowedStatus)"
    unfolding period_run.simps first Let_def prod.case old new ..
  then show ?thesis using assms(3) by (simp add: allowed_for_def)
qed

theorem period_window_not_sliding_witness:
  "allowed_for ''u'' (period_run
      (PTake 0 ''u'' # replicate 4 (PTake (1 * Second) ''u'') @ replicate 5 (PTake (1 * Second + 1) ''u''))
      (NewPeriodLimiter 1 5 ''test:period:limit'')) = 10"
  using period_window_not_sliding[of 1 5 "''u''" "''test:period:limit''"] by (simp add: Second_def)

text \<open>While a counter lives, the Redis script and the local fallback decide alike: the
  statuses of \<open>m\<close> calls of \<open>Take\<close> against a key counted \<open>u\<close> times equal those of the local
  fallback with a live counter at \<open>u\<close>.\<close>

theorem redis_and_local_agree:
  assumes "counts_keys n_of INCR EXPIRE" "live t pl k = Some c" "\<forall>u \<in> set ts. t \<le> u \<and> u \<le> lc_expireAt c"
    "n_of (pl_prefix pl @ '':'' @ k) s = lc_count c"
  shows "script_run INCR EXPIRE k pl (length ts) s = map snd (period_run (map (\<lambda>u. PTake u k) ts) pl)"
  by (simp only: script_run_statuses[OF assms(1)] local_run_statuses[OF assms(2,3)] assms(4))

definition mem_INCR :: "string \<Rightarrow> (string \<Rightarrow> int) \<Rightarrow> int \<times> (string \<Rightarrow> int)" where
  "mem_INCR k s = (s k + 1, s(k := s k + 1))"

theorem redis_and_local_agree_witness:
  "script_run mem_INCR (\<lambda>k w s. s) ''u'' (snd (localTake 0 ''u'' (NewPeriodLimiter 1 2 ''p''))) (length [1 :: int, 2]) (\<lambda>_. 1) =
   [AllowedStatus, OverQuotaStatus]"
  using redis_and_local_agree[of "\<lambda>k s. s k" mem_INCR "\<lambda>k w s. s" 0
      "snd (localTake 0 ''u'' (NewPeriodLimiter 1 2 ''p''))" "''u''" "\<lparr>lc_count = 1, lc_expireAt = Second\<rparr>"
      "[1, 2]" "\<lambda>_. 1"]
  by (simp add: counts_keys_def mem_INCR_def NewPeriodLimiter_def localTake_def live_def Second_def
      duration_of_def Let_def del: script_run.simps)

text \<open>A bucket with less than half a second of burst (\<open>2 * burst < rate\<close>) is never shared
  through Redis: the script's time to live is rounded down to 0, which \<open>SETEX\<close> refuses, so every
  \<open>AllowN\<close> decides by the process-local bucket and leaves the store as it was.\<close>

theorem small_bucket_stays_local:
  fixes SETEX :: "string \<Rightarrow> int \<Rightarrow> float64 \<Rightarrow> 's \<Rightarrow> 's option" and s :: 's
  assumes "0 < tl_rate tb" "0 \<le> tl_burst tb" "2 * tl_burst tb < tl_rate tb"
    "\<forall>k ttl v r. ttl \<le> 0 \<longrightarrow> SETEX k ttl v r = None"
  shows "AllowN (Some (eval_token_script GET SETEX)) now n tb s =
    (fst (localAllow now n tb), snd (localAllow now n tb), s)"
proof -
  have "of_int (2 * tl_burst tb) < (of_int (tl_rate tb) :: float64)" using assms(3) by (simp only: of_int_less_iff)
  then have "of_int (tl_burst tb) / of_int (tl_rate tb) * 2 < (1 :: float64)"
    using assms(1) by (simp add: field_simps)
  then have "\<lfloor>of_int (tl_burst tb) / of_int (tl_rate tb) * 2 :: float64\<rfloor> \<le> 0" by (simp add: floor_le_iff)
  then have "SETEX k \<lfloor>of_int (tl_burst tb) / of_int (tl_rate tb) * 2 :: float64\<rfloor> v s = None" for k v s
    using assms(4) by blast
  then show ?thesis by (simp add: AllowN_def reserveN_def eval_token_script_def tokenLimitScript_def Let_def
        split: prod.splits)
qed

theorem small_bucket_stays_local_witness:
  "AllowN (Some (eval_token_script (\<lambda>_ _. None)
       (\<lambda>k ttl v s. if ttl \<le> 0 then None else Some (s + 1)))) 0 1 (NewTokenLimiter 100 1 ''k'' 0) (0 :: nat) =
    (True, (NewTokenLimiter 100 1 ''k'' 0)\<lparr>tl_localTokens := 0\<rparr>, 0)"
  using small_bucket_stays_local[of "NewTokenLimiter 100 1 ''k'' 0"
      "\<lambda>k ttl v s. if ttl \<le> 0 then None else Some (s + 1)" "\<lambda>_ _. None" 0 1 "0 :: nat"]
  by (simp add: NewTokenLimiter_def localAllow_def seconds_def Let_def)

end
