(* ===== verification/Uuid_Worker.thy ===== *)
theory Uuid_Worker
  imports Go_Prelude
begin

unbundle bit_operations_syntax

section \<open>The identifier generator\<close>

text \<open>
  Models \<open>uuid/uuid.go\<close>, \<open>uuid/uuid_mgr.go\<close>, \<open>uuid/gen_bytes.go\<close> and \<open>uuid/gen_string.go\<close>. Identifiers are
  64-bit words, packed and unpacked with the shifts and masks of the source. \<open>Get\<close> takes the
  clock as the list of millisecond readings it will see; the loop that waits for the next
  millisecond consumes them, and \<^term>\<open>None\<close> says that it is still waiting when they are used up.
  The draws of \<open>crypto/rand\<close> are arguments, \<^term>\<open>None\<close> being a failing reader.
\<close>

type_synonym int64 = "64 word"

definition workerBits :: nat where "workerBits = 10"
definition numberBits :: nat where "numberBits = 12"

definition workerMax :: int64 where "workerMax = -1 XOR push_bit workerBits (-1)"
definition numberMax :: int64 where "numberMax = -1 XOR push_bit numberBits (-1)"

definition timeShift :: nat where "timeShift = workerBits + numberBits"
definition workerShift :: nat where "workerShift = numberBits"

definition epoch :: int64 where "epoch = 1652751577000"

record UuidWorker =
  uw_timestamp :: int64
  uw_workerID :: int64
  uw_number :: int64

datatype uuid_error = ErrWorkerID

definition NewUuidWorker :: "int64 \<Rightarrow> uuid_error + UuidWorker" where
  "NewUuidWorker workerID =
     (if workerID <s 0 \<or> workerMax <s workerID then Inl ErrWorkerID
      else Inr \<lparr>uw_timestamp = 0, uw_workerID = workerID, uw_number = 0\<rparr>)"

text \<open>\<open>for now <= w.timestamp\<close>: read the clock until it has moved on.\<close>

fun wait_next :: "int64 \<Rightarrow> int64 \<Rightarrow> int64 list \<Rightarrow> (int64 \<times> int64 list) option" where
  "wait_next timestamp now clock =
     (if now \<le>s timestamp
      then (case clock of [] \<Rightarrow> None | t # clock \<Rightarrow> wait_next timestamp t clock)
      else Some (now, clock))"

declare wait_next.simps [simp del]

definition make_ID :: "int64 \<Rightarrow> int64 \<Rightarrow> int64 \<Rightarrow> int64" where
  "make_ID now workerID number =
     (push_bit timeShift (now - epoch) OR push_bit workerShift workerID) OR number"

text \<open>The result pairs the identifier with the worker and the clock readings left.\<close>

definition UuidWorker_Get :: "int64 list \<Rightarrow> UuidWorker \<Rightarrow> (int64 \<times> UuidWorker \<times> int64 list) option" where
  "UuidWorker_Get clock w =
     (case clock of
        [] \<Rightarrow> None
      | now # clock \<Rightarrow>
          if uw_timestamp w = now
          then let w = w\<lparr>uw_number := uw_number w + 1\<rparr>
               in if numberMax <s uw_number w
                  then do {
                    (now, clock) \<leftarrow> wait_next (uw_timestamp w) now clock;
                    Some (make_ID now (uw_workerID w) (uw_number w), w, clock) }
                  else Some (make_ID now (uw_workerID w) (uw_number w), w, clock)
          else let w = w\<lparr>uw_number := 0, uw_timestamp := now\<rparr>
               in Some (make_ID now (uw_workerID w) (uw_number w), w, clock))"

record uuid_fields =
  uf_id :: int64
  uf_time :: int64
  uf_worker :: int64
  uf_number :: int64

definition Unmarshal :: "int64 \<Rightarrow> uuid_fields" where
  "Unmarshal i =
     (let t = word_of_int (trunc_div (sint (signed_drop_bit timeShift i + epoch)) 1000);
          number = i AND (push_bit workerShift 1 - 1);
          worker = signed_drop_bit workerShift (i AND (push_bit timeShift 1 - 1))
      in \<lparr>uf_id = i, uf_time = t, uf_worker = worker, uf_number = number\<rparr>)"

subsection \<open>The process-wide worker\<close>

text \<open>The package variable: \<^term>\<open>None\<close> is the nil pointer, and using it panics. \<open>InitWorker\<close> assigns
  both results of \<open>NewUuidWorker\<close>, so that an invalid id leaves the nil pointer behind.\<close>

type_synonym uuid_state = "UuidWorker option"

definition uuid_init :: uuid_state where
  "uuid_init = (case NewUuidWorker 0 of Inl _ \<Rightarrow> None | Inr w \<Rightarrow> Some w)"

definition InitWorker :: "int64 \<Rightarrow> uuid_state \<Rightarrow> uuid_error option \<times> uuid_state" where
  "InitWorker workerID st =
     (case NewUuidWorker workerID of Inl e \<Rightarrow> (Some e, None) | Inr w \<Rightarrow> (None, Some w))"

text \<open>The outer option is the panic on the nil worker, the inner one the waiting loop.\<close>

definition GetUuidInt64 :: "int64 list \<Rightarrow> uuid_state \<Rightarrow> (int64 \<times> uuid_state \<times> int64 list) option option" where
  "GetUuidInt64 clock st =
     (case st of None \<Rightarrow> None
      | Some w \<Rightarrow> Some (map_option (\<lambda>(i, w, c). (i, Some w, c)) (UuidWorker_Get clock w)))"

definition GetUuidString :: "int64 list \<Rightarrow> uuid_state \<Rightarrow> (string \<times> uuid_state \<times> int64 list) option option" where
  "GetUuidString clock st =
     map_option (map_option (\<lambda>(i, r). (itoa (sint i), r))) (GetUuidInt64 clock st)"

definition GenSessionId where
  "GenSessionId clock st = GetUuidString clock st"

subsection \<open>Random strings\<close>

definition alphabet :: string where
  "alphabet = ''abcdefghijklmnopqrstuvwxyzABCDEFGHIJKLMNOPQRSTUVWXYZ1234567890''"

definition digit_alphabet :: string where
  "digit_alphabet = ''0123456789''"

text \<open>The loops append one drawn character per round. The error of \<open>rand.Int\<close> is ignored, so a
  failing reader gives the nil number, whose use panics.\<close>

fun draw_loop :: "(nat \<Rightarrow> int option) \<Rightarrow> string \<Rightarrow> nat \<Rightarrow> nat \<Rightarrow> string \<Rightarrow> string option" where
  "draw_loop rnd str i 0 container = Some container"
| "draw_loop rnd str i (Suc m) container = do {
     randomInt \<leftarrow> rnd i;
     c \<leftarrow> go_index str randomInt;
     draw_loop rnd str (Suc i) m (container @ [c]) }"

definition GenBytes :: "(nat \<Rightarrow> int option) \<Rightarrow> int \<Rightarrow> string option" where
  "GenBytes rnd len = do {
     container \<leftarrow> make_slice (CHR 0x00) len;
     draw_loop rnd alphabet 0 (nat len) container }"

definition GenString :: "(nat \<Rightarrow> int option) \<Rightarrow> int \<Rightarrow> string option" where
  "GenString rnd len = draw_loop rnd alphabet 0 (nat len) []"

definition GenNumberString :: "(nat \<Rightarrow> int option) \<Rightarrow> int \<Rightarrow> string option" where
  "GenNumberString rnd len = draw_loop rnd digit_alphabet 0 (nat len) []"

text \<open>\<open>date\<close> is the formatted clock.\<close>

definition GenDateRnString :: "string \<Rightarrow> (nat \<Rightarrow> int option) \<Rightarrow> string \<Rightarrow> string option" where
  "GenDateRnString date rnd idString = do {
     container \<leftarrow> draw_loop rnd digit_alphabet 0 2 [];
     Some (go_join [] [date, idString, container]) }"

subsection \<open>Runs\<close>

text \<open>One \<open>Get\<close> per clock reading.\<close>

fun uuid_run :: "int64 list \<Rightarrow> UuidWorker \<Rightarrow> int64 list option" where
  "uuid_run [] w = Some []"
| "uuid_run (t # ts) w = do {
     (i, w, _) \<leftarrow> UuidWorker_Get [t] w;
     ids \<leftarrow> uuid_run ts w;
     Some (i # ids) }"

definition valid_ms :: "int \<Rightarrow> bool" where
  "valid_ms t \<longleftrightarrow> uint epoch \<le> t \<and> t < uint epoch + 2 ^ 41"

section \<open>Lemmas\<close>

lemmas uuid_consts = workerBits_def numberBits_def timeShift_def workerShift_def

lemma workerMax_val: "workerMax = 1023"
  by (simp add: workerMax_def workerBits_def push_bit_eq_mult)

lemma numberMax_val: "numberMax = 4095"
  by (simp add: numberMax_def numberBits_def push_bit_eq_mult)

lemma epoch_val: "uint epoch = 1652751577000"
  by (simp add: epoch_def)

lemma or_disjoint_int:
  fixes a b :: int
  assumes "0 \<le> b" "b < 2 ^ n"
  shows "push_bit n a OR b = a * 2 ^ n + b"
proof -
  have "take_bit n b = b" using assms by (simp add: take_bit_int_eq_self)
  then have "push_bit n a AND b = 0"
    by (metis (no_types, lifting) bit_0_eq bit_and_iff bit_eqI bit_push_bit_iff bit_take_bit_iff
        bot_apply bot_bool_def not_less)
  then show ?thesis by (simp add: disjunctive_add_eq_or[symmetric] push_bit_eq_mult)
qed

lemma uint_of_small: "0 \<le> a \<Longrightarrow> a < 2 ^ 64 \<Longrightarrow> uint (word_of_int a :: int64) = a"
  by (simp add: unsigned_of_int take_bit_int_eq_self)

lemma uint_push_bit:
  assumes "0 \<le> a" "a * 2 ^ n < 2 ^ 64"
  shows "uint (push_bit n (word_of_int a :: int64)) = push_bit n a"
proof -
  have "a \<le> a * 2 ^ n" using assms(1) by (simp add: mult_le_cancel_left1)
  then have "uint (word_of_int a :: int64) = a" using assms by (intro uint_of_small) linarith+
  then show ?thesis
    using assms by (simp only: unsigned_push_bit_eq) (simp add: push_bit_eq_mult take_bit_int_eq_self)
qed

text \<open>The packed identifier as a number.\<close>

definition packed :: "int \<Rightarrow> int \<Rightarrow> int \<Rightarrow> int" where
  "packed T wk n = T * 2 ^ 22 + wk * 2 ^ 12 + n"

lemma uint_make_ID:
  assumes "valid_ms t" "0 \<le> wk" "wk < 1024" "0 \<le> n" "n < 4096"
  shows "uint (make_ID (word_of_int t) (word_of_int wk) (word_of_int n)) = packed (t - uint epoch) wk n"
proof -
  let ?T = "t - uint epoch"
  have T: "0 \<le> ?T" "?T < 2 ^ 41" using assms(1) by (simp_all add: valid_ms_def)
  have "word_of_int t - epoch = (word_of_int ?T :: int64)" by simp
  moreover have "push_bit 12 wk OR n = wk * 2 ^ 12 + n" using assms by (intro or_disjoint_int) simp_all
  moreover have "push_bit 22 ?T OR (wk * 2 ^ 12 + n) = ?T * 2 ^ 22 + (wk * 2 ^ 12 + n)"
    using assms by (intro or_disjoint_int) simp_all
  moreover have "uint (push_bit 22 (word_of_int ?T :: int64)) = push_bit 22 ?T"
    "uint (push_bit 12 (word_of_int wk :: int64)) = push_bit 12 wk"
    using T assms by (intro uint_push_bit; simp)+
  moreover have "uint (word_of_int n :: int64) = n"
    using assms by (simp add: unsigned_of_int take_bit_int_eq_self)
  ultimately show ?thesis
    by (simp add: make_ID_def uuid_consts unsigned_or_eq or.assoc packed_def)
qed

lemma packed_bounds:
  assumes "0 \<le> T" "T < 2 ^ 41" "0 \<le> wk" "wk < 1024" "0 \<le> n" "n < 4096"
  shows "0 \<le> packed T wk n" "packed T wk n < 2 ^ 63"
  using assms by (simp_all add: packed_def)

lemma sint_of_uint: "uint (i :: int64) < 2 ^ 63 \<Longrightarrow> sint i = uint i"
  by (simp add: sint_uint signed_take_bit_eq_if_positive bit_iff_odd take_bit_int_eq_self)


lemma sint_of_small: "0 \<le> a \<Longrightarrow> a < 2 ^ 63 \<Longrightarrow> sint (word_of_int a :: int64) = a"
  using uint_of_small[of a] by (simp add: sint_of_uint)

lemma signed_drop_small:
  assumes "uint (x :: int64) < 2 ^ 63"
  shows "signed_drop_bit k x = word_of_int (uint x div 2 ^ k)"
proof -
  have "sint (signed_drop_bit k x) = uint x div 2 ^ k"
    using assms by (simp add: sint_signed_drop_bit_eq sint_of_uint drop_bit_eq_div)
  then have "word_of_int (sint (signed_drop_bit k x)) = (word_of_int (uint x div 2 ^ k) :: int64)" by (rule arg_cong)
  then show ?thesis by simp
qed

lemma uint_low_bits: "uint (i AND (push_bit k 1 - 1) :: int64) = uint i mod 2 ^ k"
proof -
  have "i AND (push_bit k 1 - 1) = take_bit k i"
    by (simp add: take_bit_eq_mask mask_eq_exp_minus_1 push_bit_eq_mult)
  then have "uint (i AND (push_bit k 1 - 1)) = uint (take_bit k i)" by (rule arg_cong)
  also have "\<dots> = take_bit k (uint i)" by (rule unsigned_take_bit_eq)
  finally show ?thesis by (simp only: take_bit_eq_mod)
qed

lemma decode_packed:
  assumes "uint i = packed T wk n" "0 \<le> T" "T < 2 ^ 41" "0 \<le> wk" "wk < 1024" "0 \<le> n" "n < 4096"
  shows "Unmarshal i = \<lparr>uf_id = i, uf_time = word_of_int ((T + uint epoch) div 1000),
    uf_worker = word_of_int wk, uf_number = word_of_int n\<rparr>"
proof -
  let ?lo = "i AND (push_bit timeShift 1 - 1)"
  have p: "packed T wk n = (T * 2 ^ 10 + wk) * 2 ^ 12 + n" "packed T wk n = T * 2 ^ 22 + (wk * 2 ^ 12 + n)"
    by (simp_all add: packed_def)
  have "uint (i AND (push_bit workerShift 1 - 1)) = n"
    using assms(6,7) unfolding uint_low_bits assms(1) p(1) workerShift_def numberBits_def
    by (subst mod_mult_self3) simp
  then have number: "i AND (push_bit workerShift 1 - 1) = word_of_int n" by (metis word_of_int_uint)
  have lo: "uint ?lo = wk * 2 ^ 12 + n"
    using assms(4-7) unfolding uint_low_bits assms(1) p(2) by (simp add: uuid_consts)
  have "(wk * 2 ^ 12 + n) div 2 ^ 12 = wk" using assms(6,7) by simp
  then have worker: "signed_drop_bit workerShift ?lo = word_of_int wk"
    using assms(4-7) lo by (subst signed_drop_small) (simp_all add: workerShift_def numberBits_def)
  have "packed T wk n div 2 ^ 22 = T" unfolding p(2) using assms(4-7) by simp
  then have "signed_drop_bit timeShift i + epoch = word_of_int (T + uint epoch)"
    using packed_bounds[OF assms(2-7)] by (simp add: signed_drop_small assms(1) uuid_consts)
  moreover have "sint (word_of_int (T + uint epoch) :: int64) = T + uint epoch"
    using assms(2,3) by (intro sint_of_small) (simp_all add: epoch_val)
  ultimately show ?thesis using number worker assms(2) by (simp add: Unmarshal_def Let_def epoch_val)
qed

text \<open>A \<open>Get\<close> that need not wait.\<close>

lemma Get_same:
  "uw_timestamp w = t \<Longrightarrow> \<not> numberMax <s uw_number w + 1 \<Longrightarrow>
   UuidWorker_Get (t # c) w = Some (make_ID t (uw_workerID w) (uw_number w + 1), w\<lparr>uw_number := uw_number w + 1\<rparr>, c)"
  by (simp add: UuidWorker_Get_def)

lemma Get_new:
  "uw_timestamp w \<noteq> t \<Longrightarrow>
   UuidWorker_Get (t # c) w = Some (make_ID t (uw_workerID w) 0, w\<lparr>uw_number := 0, uw_timestamp := t\<rparr>, c)"
  by (simp add: UuidWorker_Get_def)

definition mk_worker :: "int \<Rightarrow> int \<Rightarrow> int \<Rightarrow> UuidWorker" where
  "mk_worker t wk n = \<lparr>uw_timestamp = word_of_int t, uw_workerID = word_of_int wk, uw_number = word_of_int n\<rparr>"

lemma small_inj:
  assumes "0 \<le> t" "t < 2 ^ 64" "0 \<le> u" "u < 2 ^ 64"
  shows "(word_of_int t :: int64) = word_of_int u \<longleftrightarrow> t = u"
  using uint_of_small[OF assms(1,2)] uint_of_small[OF assms(3,4)] by metis

lemma valid_ms_small: "valid_ms t \<Longrightarrow> 0 \<le> t \<and> t < 2 ^ 64"
  by (simp add: valid_ms_def epoch_val)

lemma numberMax_sless: "0 \<le> n \<Longrightarrow> n < 4096 \<Longrightarrow> \<not> numberMax <s word_of_int n"
  by (simp add: numberMax_val word_sless_alt sint_of_small)

text \<open>The identifiers of a run that never exhausts a millisecond: the clock values with the
  running number of each.\<close>

fun id_numbers :: "int \<Rightarrow> int \<Rightarrow> int \<Rightarrow> int list \<Rightarrow> int list" where
  "id_numbers t wk n [] = []"
| "id_numbers t wk n (u # ts) =
     (let m = (if u = t then n + 1 else 0) in packed (u - uint epoch) wk m # id_numbers u wk m ts)"

definition fits :: "int \<Rightarrow> int \<Rightarrow> int list \<Rightarrow> bool" where
  "fits t n ts \<longleftrightarrow> n + int (count_list ts t) < 4096 \<and> (\<forall>u \<in> set ts. u \<noteq> t \<longrightarrow> count_list ts u \<le> 4096)"

lemma fits_same: "fits t n (t # ts) \<Longrightarrow> fits t (n + 1) ts"
  by (auto simp: fits_def)

lemma fits_new: "fits t n (u # ts) \<Longrightarrow> u \<noteq> t \<Longrightarrow> 0 \<le> n \<Longrightarrow> fits u 0 ts"
proof -
  assume *: "fits t n (u # ts)" "u \<noteq> t" "0 \<le> n"
  have "count_list ts v \<le> 4096" if "v \<in> set ts" "v \<noteq> u" for v
    using * that by (cases "v = t") (auto simp: fits_def)
  moreover have "count_list ts u < 4096" using * by (auto simp: fits_def)
  ultimately show ?thesis by (simp add: fits_def)
qed

lemma fits_number: "fits t n ts \<Longrightarrow> n < 4096"
  by (simp add: fits_def)

lemma uuid_run_numbers:
  assumes "0 \<le> t" "t < 2 ^ 64" "\<forall>u \<in> set ts. valid_ms u" "0 \<le> wk" "wk < 1024" "0 \<le> n" "fits t n ts"
  shows "\<exists>ids. uuid_run (map word_of_int ts) (mk_worker t wk n) = Some ids \<and> map uint ids = id_numbers t wk n ts"
  using assms
proof (induction ts arbitrary: t n)
  case (Cons u ts)
  have u: "valid_ms u" "0 \<le> u \<and> u < 2 ^ 64" using Cons.prems(3) valid_ms_small by auto
  define m where "m = (if u = t then n + 1 else 0)"
  have f: "fits u m ts" "0 \<le> m" "m < 4096"
    using Cons.prems(6,7) fits_same fits_new fits_number unfolding m_def by fastforce+
  have inj: "(word_of_int t :: int64) = word_of_int u \<longleftrightarrow> t = u"
    using Cons.prems(1,2) u(2) by (intro small_inj) auto
  have "UuidWorker_Get [word_of_int u] (mk_worker t wk n) =
      Some (make_ID (word_of_int u) (word_of_int wk) (word_of_int m), mk_worker u wk m, [])"
  proof (cases "u = t")
    case True
    then show ?thesis using f numberMax_sless[OF f(2,3)]
      by (subst Get_same) (simp_all add: mk_worker_def m_def)
  next
    case False
    then show ?thesis using inj by (subst Get_new) (auto simp: mk_worker_def m_def)
  qed
  moreover from Cons.IH[of u m] u f Cons.prems obtain ids where
    "uuid_run (map word_of_int ts) (mk_worker u wk m) = Some ids" "map uint ids = id_numbers u wk m ts" by auto
  ultimately show ?case
    using uint_make_ID[OF u(1) Cons.prems(4,5) f(2,3)] by (simp add: m_def Let_def)
qed simp

lemma id_numbers_increase:
  assumes "sorted (t # ts)" "0 \<le> wk" "wk < 1024" "0 \<le> n" "fits t n ts"
  shows "sorted_wrt (<) (packed (t - uint epoch) wk n # id_numbers t wk n ts)"
  using assms
proof (induction ts arbitrary: t n)
  case (Cons u ts)
  define m where "m = (if u = t then n + 1 else 0)"
  have f: "fits u m ts" "0 \<le> m" "m < 4096" "n < 4096"
    using Cons.prems(4,5) fits_same fits_new fits_number unfolding m_def by fastforce+
  have "packed (t - uint epoch) wk n < packed (u - uint epoch) wk m"
  proof (cases "u = t")
    case False
    then have "t + 1 \<le> u" using Cons.prems(1) by auto
    then show ?thesis using f Cons.prems(4) by (simp add: packed_def)
  qed (simp add: packed_def m_def)
  moreover from Cons.IH[OF _ Cons.prems(2,3) f(2,1)] Cons.prems(1)
  have "sorted_wrt (<) (packed (u - uint epoch) wk m # id_numbers u wk m ts)" by simp
  ultimately have "sorted_wrt (<) (packed (t - uint epoch) wk n # packed (u - uint epoch) wk m # id_numbers u wk m ts)"
    by (subst sorted_wrt2) simp_all
  then show ?case unfolding m_def by (simp only: id_numbers.simps Let_def)
qed simp

lemma id_numbers_length: "length (id_numbers t wk n ts) = length ts"
  by (induction ts arbitrary: t n) (simp_all add: Let_def)

lemma id_numbers_range:
  assumes "0 \<le> wk" "wk < 1024" "0 \<le> n" "fits t n ts" "\<forall>u \<in> set ts. valid_ms u"
  shows "x \<in> set (id_numbers t wk n ts) \<Longrightarrow> 0 \<le> x \<and> x < 2 ^ 63"
  using assms
proof (induction ts arbitrary: t n)
  case (Cons u ts)
  define m where "m = (if u = t then n + 1 else 0)"
  have f: "fits u m ts" "0 \<le> m" "m < 4096"
    using Cons.prems(4,5) fits_same fits_new fits_number unfolding m_def by fastforce+
  have "valid_ms u" using Cons.prems(6) by simp
  then have "0 \<le> packed (u - uint epoch) wk m \<and> packed (u - uint epoch) wk m < 2 ^ 63"
    using packed_bounds[of "u - uint epoch" wk m] Cons.prems(2,3) f by (simp add: valid_ms_def)
  then show ?case using Cons.IH[of u m] Cons.prems f by (auto simp: m_def Let_def)
qed simp

text \<open>The sequence number 4096 sets the lowest bit of the worker field.\<close>

lemma even_of_int64: "even (word_of_int k :: int64) \<longleftrightarrow> even k"
  using bit_word_of_int_iff[where 'a = 64, of k 0] by (simp add: bit_0)

lemma make_ID_overflow:
  "make_ID t (word_of_int wk) 4096 = make_ID t (word_of_int (if even wk then wk + 1 else wk)) 0"
proof -
  have "(4096 :: int64) = push_bit 12 1" by (simp add: push_bit_eq_mult)
  then have "push_bit 12 (word_of_int wk) OR 4096 = push_bit 12 ((word_of_int wk :: int64) OR 1)"
    by (simp only: push_bit_or)
  also have "(word_of_int wk :: int64) OR 1 = word_of_int (if even wk then wk + 1 else wk)"
    by (simp add: or_one_eq even_of_int64)
  finally show ?thesis by (simp add: make_ID_def uuid_consts or.assoc)
qed

subsection \<open>Random strings\<close>

lemma draw_loop_total:
  assumes "\<forall>i. \<exists>r. rnd i = Some r \<and> 0 \<le> r \<and> r < int (length str)"
  shows "\<exists>s. length s = m \<and> set s \<subseteq> set str \<and> (\<forall>c. draw_loop rnd str i m c = Some (c @ s))"
proof (induction m arbitrary: i)
  case (Suc m)
  from assms obtain r where r: "rnd i = Some r" "0 \<le> r" "r < int (length str)" by blast
  from Suc.IH[of "Suc i"] obtain s where
    "length s = m" "set s \<subseteq> set str" "\<forall>c. draw_loop rnd str (Suc i) m c = Some (c @ s)" by blast
  with r show ?case by (intro exI[of _ "str ! nat r # s"]) (simp add: go_simps nat_less_iff)
qed simp

section \<open>Properties\<close>

text \<open>C9: With a clock that does not go back and at most 4096 calls per millisecond, a worker
  hands out strictly increasing identifiers, one per call, over the 41 bits of time the format
  has room for: no identifier is ever given twice.\<close>

theorem uuid_strictly_increasing:
  assumes "NewUuidWorker (word_of_int wk) = Inr w" "0 \<le> wk" "wk < 2 ^ 63" "sorted ts" "\<forall>t \<in> set ts. valid_ms t"
    "\<forall>t. count_list ts t \<le> 4096"
  shows "\<exists>ids. uuid_run (map word_of_int ts) w = Some ids \<and> length ids = length ts \<and> sorted_wrt (\<lambda>a b. a <s b) ids"
proof -
  have wk: "wk < 1024" and w: "w = mk_worker 0 wk 0"
    using assms(1-3)
    by (auto simp: NewUuidWorker_def workerMax_val word_sless_alt sint_of_small mk_worker_def split: if_splits)
  have "0 \<notin> set ts" using assms(5) by (auto simp: valid_ms_def epoch_val)
  then have f: "fits 0 0 ts" using assms(6) by (auto simp: fits_def count_list_0_iff)
  from uuid_run_numbers[OF _ _ assms(5,2) wk _ f] w obtain ids where
    ids: "uuid_run (map word_of_int ts) w = Some ids" "map uint ids = id_numbers 0 wk 0 ts" by auto
  have pos: "0 \<le> x \<and> x < 2 ^ 63" if "x \<in> uint ` set ids" for x
    using that ids(2) id_numbers_range[OF assms(2) wk _ f assms(5)] by (metis list.set_map order_refl)
  have "sorted_wrt (<) (map uint ids)"
    using id_numbers_increase[OF _ assms(2) wk _ f] assms(4,5) ids(2) by (force simp: valid_ms_def epoch_val)
  then have "sorted_wrt (\<lambda>a b. a <s b) ids" unfolding sorted_wrt_map
    by (rule sorted_wrt_mono_rel[rotated]) (use pos in \<open>simp add: word_sless_alt sint_of_uint\<close>)
  moreover have "length ids = length ts" using ids(2) by (metis length_map id_numbers_length)
  ultimately show ?thesis using ids(1) by blast
qed

theorem uuid_strictly_increasing_witness:
  "\<exists>ids. uuid_run (map word_of_int [1700000000000, 1700000000000, 1700000000007]) (mk_worker 0 5 0) = Some ids \<and>
     length ids = length [1700000000000, 1700000000000, 1700000000007 :: int] \<and> sorted_wrt (\<lambda>a b. a <s b) ids"
  by (rule uuid_strictly_increasing[where wk = 5])
    (auto simp: NewUuidWorker_def workerMax_val word_sless_alt mk_worker_def valid_ms_def epoch_val)

text \<open>C10: \<open>Unmarshal\<close> inverts \<open>Get\<close>: an identifier packed from a valid millisecond, a worker id and a
  sequence number within their bits unpacks to the same worker and number and to the time in
  seconds. So identifiers of different workers never collide.\<close>

theorem unmarshal_get:
  assumes "valid_ms t" "0 \<le> wk" "wk < 1024" "0 \<le> n" "n < 4096"
  shows "Unmarshal (make_ID (word_of_int t) (word_of_int wk) (word_of_int n)) =
    \<lparr>uf_id = make_ID (word_of_int t) (word_of_int wk) (word_of_int n), uf_time = word_of_int (t div 1000),
     uf_worker = word_of_int wk, uf_number = word_of_int n\<rparr>"
  using decode_packed[OF uint_make_ID[OF assms] _ _ assms(2-5)] assms(1) by (simp add: valid_ms_def)

theorem unmarshal_get_witness:
  "uf_worker (Unmarshal (make_ID (word_of_int 1700000000000) (word_of_int 7) (word_of_int 4095))) = 7"
  using unmarshal_get[of 1700000000000 7 4095] by (simp add: valid_ms_def epoch_val)

text \<open>When a millisecond is exhausted, \<open>Get\<close> waits for the next one but keeps the sequence
  number 4096, which overlaps the lowest worker bit, and does not move its timestamp: a worker
  with an odd id then hands out the same identifier again on its next call in that millisecond,
  and one with an even id hands out an identifier of its odd neighbour.\<close>

theorem uuid_overflow_collides:
  assumes "valid_ms t" "valid_ms (t + 1)" "0 \<le> wk" "wk < 1024"
  shows "\<exists>i w. UuidWorker_Get [word_of_int t, word_of_int (t + 1)] (mk_worker t wk 4095) = Some (i, w, []) \<and>
    (odd wk \<longrightarrow> (\<exists>w'. UuidWorker_Get [word_of_int (t + 1)] w = Some (i, w', []))) \<and>
    (even wk \<longrightarrow> i = make_ID (word_of_int (t + 1)) (word_of_int (wk + 1)) 0)"
proof -
  let ?t = "word_of_int t :: int64" and ?u = "word_of_int (t + 1) :: int64" and ?k = "word_of_int wk :: int64"
  let ?w = "(mk_worker t wk 4095)\<lparr>uw_number := 4096\<rparr>"
  have "0 \<le> t" "t + 1 < 2 ^ 63" using assms(1,2) by (simp_all add: valid_ms_def epoch_val)
  then have lt: "\<not> ?u \<le>s ?t" unfolding word_sle_eq by (subst (1 2) sint_of_small) simp_all
  then have ne: "?t \<noteq> ?u" by (auto simp: word_sle_eq)
  have "wait_next ?t ?t [?u] = Some (?u, [])"
    using lt by (subst wait_next.simps, simp) (subst wait_next.simps, simp)
  moreover have "numberMax <s 4096" by (simp add: numberMax_val word_sless_alt)
  ultimately have "UuidWorker_Get [?t, ?u] (mk_worker t wk 4095) = Some (make_ID ?u ?k 4096, ?w, [])"
    by (simp add: UuidWorker_Get_def mk_worker_def)
  moreover have "UuidWorker_Get [?u] ?w = Some (make_ID ?u ?k 0, mk_worker (t + 1) wk 0, [])"
    using ne by (subst Get_new) (simp_all add: mk_worker_def)
  ultimately show ?thesis by (simp add: make_ID_overflow)
qed

theorem uuid_overflow_collides_witness:
  "\<exists>i w w'. UuidWorker_Get [word_of_int 1700000000000, word_of_int (1700000000000 + 1)]
       (mk_worker 1700000000000 7 4095) = Some (i, w, []) \<and>
     UuidWorker_Get [word_of_int (1700000000000 + 1)] w = Some (i, w', [])"
  using uuid_overflow_collides[of 1700000000000 7] by (fastforce simp: valid_ms_def epoch_val)

text \<open>\<open>GenString\<close> returns exactly \<open>len\<close> characters of the alphabet, whatever valid numbers are drawn;
  \<open>GenBytes\<close>, the same loop over a slice made with length \<open>len\<close> instead of capacity \<open>len\<close>, returns twice as
  many bytes and the first half of them are zero.\<close>

theorem random_strings:
  assumes "\<forall>i. \<exists>r. rnd i = Some r \<and> 0 \<le> r \<and> r < int (length alphabet)" "0 \<le> len"
  shows "\<exists>s. GenString rnd len = Some s \<and> int (length s) = len \<and> set s \<subseteq> set alphabet \<and>
    GenBytes rnd len = Some (replicate (nat len) (CHR 0x00) @ s)"
proof -
  from draw_loop_total[OF assms(1), of "nat len"] obtain s where
    s: "length s = nat len" "set s \<subseteq> set alphabet" "\<And>c. draw_loop rnd alphabet 0 (nat len) c = Some (c @ s)" by blast
  then show ?thesis using assms(2) by (simp add: GenString_def GenBytes_def go_simps)
qed

theorem random_strings_witness:
  "\<exists>s. GenString (\<lambda>_. Some 3) 8 = Some s \<and> int (length s) = 8 \<and> set s \<subseteq> set alphabet \<and>
    GenBytes (\<lambda>_. Some 3) 8 = Some (replicate (nat 8) (CHR 0x00) @ s)"
  by (rule random_strings) (simp_all add: alphabet_def)

lemma init_worker_invalid_then_panic:
  "NewUuidWorker n = Inl e \<Longrightarrow> GetUuidInt64 clock (snd (InitWorker n st)) = None"
  by (simp add: InitWorker_def GetUuidInt64_def)

end
