(* ===== verification/Shared_Calls.thy ===== *)
theory Shared_Calls
  imports Go_Prelude
begin

section \<open>Coalescing of concurrent calls\<close>

text \<open>
  Models \<open>syncx/sharedcalls.go\<close>. Goroutines that call \<open>DoEx\<close> interleave at the points where the
  code lets go of the mutex: looking up or registering the call, waiting on its wait group,
  running the function, and deleting the key. \<open>step\<close> has one rule for each; the result of
  the caller's function is any value (the pair of its results), or a panic. A goroutine's place
  in the code is its \<open>place\<close>, and call objects are numbered in the order of their creation.
\<close>

datatype 'v place =
    Calling string
  | Waiting string nat
  | Running string nat
  | Deleting string nat 'v
  | Finished string nat 'v bool
  | Crashed string nat

record 'v sharedCalls =
  sc_calls :: "string \<rightharpoonup> nat"
  sc_done :: "nat \<rightharpoonup> 'v"
  sc_next :: nat
  sc_place :: "nat \<rightharpoonup> 'v place"

definition NewSharedCalls :: "'v sharedCalls" where
  "NewSharedCalls = \<lparr>sc_calls = Map.empty, sc_done = Map.empty, sc_next = 0, sc_place = Map.empty\<rparr>"

definition goto :: "nat \<Rightarrow> 'v place \<Rightarrow> 'v sharedCalls \<Rightarrow> 'v sharedCalls" where
  "goto g p s = s\<lparr>sc_place := (sc_place s)(g \<mapsto> p)\<rparr>"

text \<open>\<open>DoEx\<close> from the first lock to the unlock: join the call in flight, or register a new one.\<close>

definition DoEx_enter :: "nat \<Rightarrow> string \<Rightarrow> 'v sharedCalls \<Rightarrow> 'v sharedCalls" where
  "DoEx_enter g key s =
     (case sc_calls s key of
        Some c \<Rightarrow> goto g (Waiting key c) s
      | None \<Rightarrow> (let c = sc_next s
                 in goto g (Running key c) (s\<lparr>sc_calls := (sc_calls s)(key \<mapsto> c), sc_next := c + 1\<rparr>)))"

text \<open>\<open>c.val, c.err = fn()\<close> and \<open>c.wg.Done()\<close>.\<close>

definition DoEx_finish :: "nat \<Rightarrow> string \<Rightarrow> nat \<Rightarrow> 'v \<Rightarrow> 'v sharedCalls \<Rightarrow> 'v sharedCalls" where
  "DoEx_finish g key c v s = goto g (Deleting key c v) (s\<lparr>sc_done := (sc_done s)(c \<mapsto> v)\<rparr>)"

text \<open>The last locked section and the return.\<close>

definition DoEx_delete :: "nat \<Rightarrow> string \<Rightarrow> nat \<Rightarrow> 'v \<Rightarrow> 'v sharedCalls \<Rightarrow> 'v sharedCalls" where
  "DoEx_delete g key c v s = goto g (Finished key c v True) (s\<lparr>sc_calls := (sc_calls s)(key := None)\<rparr>)"

inductive step :: "'v sharedCalls \<Rightarrow> 'v sharedCalls \<Rightarrow> bool" where
  call: "sc_place s g = None \<Longrightarrow> step s (goto g (Calling key) s)"
| enter: "sc_place s g = Some (Calling key) \<Longrightarrow> step s (DoEx_enter g key s)"
| wake: "sc_place s g = Some (Waiting key c) \<Longrightarrow> sc_done s c = Some v \<Longrightarrow> step s (goto g (Finished key c v False) s)"
| fn_returns: "sc_place s g = Some (Running key c) \<Longrightarrow> step s (DoEx_finish g key c v s)"
| fn_panics: "sc_place s g = Some (Running key c) \<Longrightarrow> step s (goto g (Crashed key c) s)"
| delete: "sc_place s g = Some (Deleting key c v) \<Longrightarrow> step s (DoEx_delete g key c v s)"

inductive steps :: "'v sharedCalls \<Rightarrow> 'v sharedCalls \<Rightarrow> bool" where
  refl: "steps s s"
| trans: "steps s t \<Longrightarrow> step t u \<Longrightarrow> steps s u"

definition reachable :: "'v sharedCalls \<Rightarrow> bool" where
  "reachable s = steps NewSharedCalls s"

text \<open>The call a place belongs to, and whether it owns that call's key.\<close>

fun owner_of :: "'v place \<Rightarrow> (string \<times> nat) option" where
  "owner_of (Running k c) = Some (k, c)"
| "owner_of (Deleting k c v) = Some (k, c)"
| "owner_of (Crashed k c) = Some (k, c)"
| "owner_of _ = None"

fun executor_of :: "'v place \<Rightarrow> nat option" where
  "executor_of (Running k c) = Some c"
| "executor_of (Deleting k c v) = Some c"
| "executor_of (Crashed k c) = Some c"
| "executor_of (Finished k c v e) = (if e then Some c else None)"
| "executor_of _ = None"

fun key_of :: "'v place \<Rightarrow> string" where
  "key_of (Calling k) = k"
| "key_of (Waiting k c) = k"
| "key_of (Running k c) = k"
| "key_of (Deleting k c v) = k"
| "key_of (Finished k c v e) = k"
| "key_of (Crashed k c) = k"

section \<open>Lemmas\<close>

text \<open>The invariant: a registered call has an owner at work, owners hold their key, call numbers
  are fresh, an executor is unique per call, the published result is the executor's, and a waiter
  waits for a call that has an executor.\<close>

fun place_ok :: "'v sharedCalls \<Rightarrow> nat \<Rightarrow> 'v place \<Rightarrow> bool" where
  "place_ok s g (Calling k) = True"
| "place_ok s g (Waiting k c) = (c < sc_next s \<and> (\<exists>h p. sc_place s h = Some p \<and> h \<noteq> g \<and> executor_of p = Some c \<and> key_of p = k) \<and>
     (sc_done s c = None \<longrightarrow> sc_calls s k = Some c))"
| "place_ok s g (Running k c) = (c < sc_next s \<and> sc_calls s k = Some c \<and> sc_done s c = None)"
| "place_ok s g (Deleting k c v) = (c < sc_next s \<and> sc_calls s k = Some c \<and> sc_done s c = Some v)"
| "place_ok s g (Finished k c v e) = (c < sc_next s \<and> sc_done s c = Some v \<and>
     (\<not> e \<longrightarrow> (\<exists>h p. sc_place s h = Some p \<and> h \<noteq> g \<and> executor_of p = Some c \<and> key_of p = k)))"
| "place_ok s g (Crashed k c) = (c < sc_next s \<and> sc_calls s k = Some c \<and> sc_done s c = None)"

definition sc_inv :: "'v sharedCalls \<Rightarrow> bool" where
  "sc_inv s \<longleftrightarrow>
     (\<forall>g p. sc_place s g = Some p \<longrightarrow> place_ok s g p) \<and>
     (\<forall>k c. sc_calls s k = Some c \<longrightarrow> c < sc_next s \<and> (\<exists>g p. sc_place s g = Some p \<and> owner_of p = Some (k, c))) \<and>
     (\<forall>g h p q c. sc_place s g = Some p \<longrightarrow> sc_place s h = Some q \<longrightarrow>
        executor_of p = Some c \<longrightarrow> executor_of q = Some c \<longrightarrow> g = h) \<and>
     (\<forall>c. sc_next s \<le> c \<longrightarrow> sc_done s c = None)"

lemma sc_inv_init: "sc_inv NewSharedCalls"
  by (simp add: sc_inv_def NewSharedCalls_def)

lemma owner_executor: "owner_of p = Some (k, c) \<Longrightarrow> executor_of p = Some c \<and> key_of p = k"
  by (cases p) auto

lemma sc_invI:
  assumes "\<And>g p. sc_place s g = Some p \<Longrightarrow> place_ok s g p"
    "\<And>k c. sc_calls s k = Some c \<Longrightarrow> c < sc_next s \<and> (\<exists>g p. sc_place s g = Some p \<and> owner_of p = Some (k, c))"
    "\<And>g h p q c. sc_place s g = Some p \<Longrightarrow> sc_place s h = Some q \<Longrightarrow>
       executor_of p = Some c \<Longrightarrow> executor_of q = Some c \<Longrightarrow> g = h"
    "\<And>c. sc_next s \<le> c \<Longrightarrow> sc_done s c = None"
  shows "sc_inv s"
  unfolding sc_inv_def using assms by blast

lemma sc_invD:
  assumes "sc_inv s"
  shows "sc_place s g = Some p \<Longrightarrow> place_ok s g p"
    "sc_calls s k = Some c \<Longrightarrow> c < sc_next s \<and> (\<exists>g p. sc_place s g = Some p \<and> owner_of p = Some (k, c))"
    "sc_place s g = Some p \<Longrightarrow> sc_place s h = Some q \<Longrightarrow>
       executor_of p = Some c \<Longrightarrow> executor_of q = Some c \<Longrightarrow> g = h"
    "sc_next s \<le> c \<Longrightarrow> sc_done s c = None"
  using assms unfolding sc_inv_def by blast+

lemma executor_fresh: "place_ok s g p \<Longrightarrow> executor_of p = Some c \<Longrightarrow> c < sc_next s"
  by (cases p) (auto split: if_splits)

lemma owner_holds: "place_ok s g p \<Longrightarrow> owner_of p = Some (k, c) \<Longrightarrow> sc_calls s k = Some c"
  by (cases p) auto

lemma place_ok_transfer:
  assumes "place_ok s h q" "sc_next s \<le> sc_next s'"
    "\<And>c h' p. sc_place s h' = Some p \<Longrightarrow> executor_of p = Some c \<Longrightarrow>
       \<exists>p'. sc_place s' h' = Some p' \<and> executor_of p' = Some c \<and> key_of p' = key_of p"
    "\<And>c v. sc_done s c = Some v \<Longrightarrow> sc_done s' c = Some v"
    "\<And>k c. owner_of q = Some (k, c) \<Longrightarrow> sc_calls s' k = Some c \<and> sc_done s' c = sc_done s c"
    "\<And>k c. q = Waiting k c \<Longrightarrow> sc_done s c = None \<Longrightarrow> sc_calls s k = Some c \<Longrightarrow> sc_done s' c = None \<Longrightarrow> sc_calls s' k = Some c"
  shows "place_ok s' h q"
proof (cases q)
  case (Waiting k c)
  with assms(1) obtain h' p where "sc_place s h' = Some p" "h' \<noteq> h" "executor_of p = Some c" "key_of p = k" by auto
  with assms(3)[of h' p c] have ex: "\<exists>h' p. sc_place s' h' = Some p \<and> h' \<noteq> h \<and> executor_of p = Some c \<and> key_of p = k"
    by metis
  have "sc_calls s' k = Some c" if "sc_done s' c = None"
  proof -
    have "sc_done s c = None" using assms(4) that by (cases "sc_done s c") auto
    with that assms(1,6) Waiting show ?thesis by auto
  qed
  with ex Waiting assms(1,2) show ?thesis by auto
next
  case (Finished k c v e)
  have "\<exists>h' p. sc_place s' h' = Some p \<and> h' \<noteq> h \<and> executor_of p = Some c \<and> key_of p = k" if "\<not> e"
  proof -
    from assms(1) Finished that obtain h' p where
      "sc_place s h' = Some p" "h' \<noteq> h" "executor_of p = Some c" "key_of p = k" by auto
    with assms(3)[of h' p c] show ?thesis by metis
  qed
  with Finished assms(1,2,4) show ?thesis by simp
qed (use assms(1,2,5) in auto)

lemmas sc_defs = goto_def DoEx_enter_def DoEx_finish_def DoEx_delete_def Let_def

text \<open>Steps that only move one goroutine and keep what it owns.\<close>

lemma sc_inv_goto:
  assumes inv: "sc_inv s" and ok: "place_ok (goto g p' s) g p'"
    and keep: "(case sc_place s g of None \<Rightarrow> owner_of p' = None \<and> executor_of p' = None
                | Some p \<Rightarrow> owner_of p' = owner_of p \<and> executor_of p' = executor_of p \<and> key_of p' = key_of p)"
  shows "sc_inv (goto g p' s)"
proof (rule sc_invI)
  let ?s = "goto g p' s"
  have pl: "sc_place ?s h = (if h = g then Some p' else sc_place s h)" for h by (simp add: goto_def)
  have same: "sc_calls ?s = sc_calls s" "sc_done ?s = sc_done s" "sc_next ?s = sc_next s" by (simp_all add: goto_def)
  have ex: "\<exists>q'. sc_place ?s h = Some q' \<and> executor_of q' = executor_of q \<and> owner_of q' = owner_of q \<and> key_of q' = key_of q"
    if "sc_place s h = Some q" for h q using that keep by (auto simp: pl)
  have prev: "\<exists>q. sc_place s h = Some q \<and> executor_of q = Some c"
    if "sc_place ?s h = Some q'" "executor_of q' = Some c" for h q' c
    using that keep by (auto simp: pl split: if_splits option.splits)
  show "place_ok ?s h q" if "sc_place ?s h = Some q" for h q
  proof (cases "h = g")
    case False
    with that have q: "sc_place s h = Some q" by (simp add: pl)
    note okq = sc_invD(1)[OF inv q]
    show ?thesis by (rule place_ok_transfer[OF okq]) (use ex same owner_holds[OF okq] in fastforce)+
  qed (use that ok in \<open>simp add: pl\<close>)
  show "c < sc_next ?s \<and> (\<exists>g p. sc_place ?s g = Some p \<and> owner_of p = Some (k, c))" if "sc_calls ?s k = Some c" for k c
    using sc_invD(2)[OF inv, of k c] that same ex by metis
  show "h = h'" if "sc_place ?s h = Some q" "sc_place ?s h' = Some q'" "executor_of q = Some c" "executor_of q' = Some c"
    for h h' q q' c using prev[OF that(1,3)] prev[OF that(2,4)] sc_invD(3)[OF inv] by blast
qed (use sc_invD(4)[OF inv] in \<open>simp add: goto_def\<close>)

lemma sc_inv_enter_new:
  assumes inv: "sc_inv s" and g: "sc_place s g = Some (Calling key)" and new: "sc_calls s key = None"
  shows "sc_inv (DoEx_enter g key s)"
proof (rule sc_invI)
  let ?s = "DoEx_enter g key s" and ?c = "sc_next s"
  have pl: "sc_place ?s h = (if h = g then Some (Running key ?c) else sc_place s h)" for h
    using new by (simp add: sc_defs)
  have st: "sc_calls ?s = (sc_calls s)(key \<mapsto> ?c)" "sc_done ?s = sc_done s" "sc_next ?s = Suc ?c"
    using new by (simp_all add: sc_defs)
  note ok = sc_invD(1)[OF inv]
  show "place_ok ?s h q" if "sc_place ?s h = Some q" for h q
  proof (cases "h = g")
    case True
    with that sc_invD(4)[OF inv] show ?thesis by (auto simp: pl st)
  next
    case False
    with that have q: "sc_place s h = Some q" by (simp add: pl)
    show ?thesis
      by (rule place_ok_transfer[OF ok[OF q]]) (use g new st pl owner_holds[OF ok[OF q]] in \<open>auto split: if_splits\<close>)
  qed
  show "c < sc_next ?s \<and> (\<exists>g p. sc_place ?s g = Some p \<and> owner_of p = Some (k, c))" if "sc_calls ?s k = Some c" for k c
  proof (cases "k = key")
    case True
    with that have "c = ?c" by (simp add: st)
    then show ?thesis using True pl[of g] by (auto simp: st intro!: exI[of _ g])
  next
    case False
    with that have "sc_calls s k = Some c" by (simp add: st)
    from sc_invD(2)[OF inv this] obtain h p where "c < ?c" "sc_place s h = Some p" "owner_of p = Some (k, c)" by blast
    moreover from this g have "h \<noteq> g" by auto
    ultimately show ?thesis using pl[of h] by (auto simp: st)
  qed
  show "h = h'" if "sc_place ?s h = Some q" "sc_place ?s h' = Some q'" "executor_of q = Some c" "executor_of q' = Some c"
    for h h' q q' c
    using that sc_invD(3)[OF inv, of h q h' q' c] executor_fresh[OF ok, of h q c] executor_fresh[OF ok, of h' q' c]
    by (auto simp: pl split: if_splits)
qed (use sc_invD(4)[OF inv] new in \<open>simp add: sc_defs\<close>)

text \<open>Another owner holds another key and another call.\<close>

lemma other_owner:
  assumes "sc_inv s" "sc_place s g = Some p" "sc_place s h = Some q" "h \<noteq> g"
    "owner_of p = Some (k, c)" "owner_of q = Some (k', c')"
  shows "k' \<noteq> k \<and> c' \<noteq> c"
proof -
  have "c' \<noteq> c" using sc_invD(3)[OF assms(1,2,3)] assms(4-6) owner_executor by metis
  moreover have "sc_calls s k = Some c" "sc_calls s k' = Some c'"
    using owner_holds sc_invD(1)[OF assms(1)] assms(2,3,5,6) by metis+
  ultimately show ?thesis by auto
qed

lemma sc_inv_finish:
  assumes inv: "sc_inv s" and g: "sc_place s g = Some (Running key c)"
  shows "sc_inv (DoEx_finish g key c v s)"
proof (rule sc_invI)
  let ?s = "DoEx_finish g key c v s"
  have pl: "sc_place ?s h = (if h = g then Some (Deleting key c v) else sc_place s h)" for h by (simp add: sc_defs)
  have st: "sc_calls ?s = sc_calls s" "sc_done ?s = (sc_done s)(c \<mapsto> v)" "sc_next ?s = sc_next s"
    by (simp_all add: sc_defs)
  note ok = sc_invD(1)[OF inv]
  have c: "c < sc_next s" "sc_calls s key = Some c" "sc_done s c = None" using ok[OF g] by auto
  have ex: "\<exists>q'. sc_place ?s h = Some q' \<and> executor_of q' = executor_of q \<and> owner_of q' = owner_of q \<and> key_of q' = key_of q"
    if "sc_place s h = Some q" for h q using that g by (auto simp: pl)
  have prev: "\<exists>q. sc_place s h = Some q \<and> executor_of q = executor_of q'"
    if "sc_place ?s h = Some q'" for h q' using that g by (auto simp: pl split: if_splits)
  show "place_ok ?s h q" if "sc_place ?s h = Some q" for h q
  proof (cases "h = g")
    case False
    with that have q: "sc_place s h = Some q" by (simp add: pl)
    have own: "sc_calls ?s k' = Some c' \<and> sc_done ?s c' = sc_done s c'" if "owner_of q = Some (k', c')" for k' c'
      using other_owner[OF inv g q False _ that] owner_holds[OF ok[OF q] that] by (simp add: st)
    show ?thesis
      by (rule place_ok_transfer[OF ok[OF q]]) (use ex own c in \<open>fastforce simp: st split: if_splits\<close>)+
  qed (use that c in \<open>auto simp: pl st\<close>)
  show "c' < sc_next ?s \<and> (\<exists>g p. sc_place ?s g = Some p \<and> owner_of p = Some (k, c'))" if "sc_calls ?s k = Some c'" for k c'
    using sc_invD(2)[OF inv, of k c'] that st ex by metis
  show "h = h'" if "sc_place ?s h = Some q" "sc_place ?s h' = Some q'" "executor_of q = Some d" "executor_of q' = Some d"
    for h h' q q' d using prev[OF that(1)] prev[OF that(2)] that(3,4) sc_invD(3)[OF inv] by metis
  show "sc_done ?s d = None" if "sc_next ?s \<le> d" for d using that c sc_invD(4)[OF inv] by (auto simp: st)
qed

lemma sc_inv_delete:
  assumes inv: "sc_inv s" and g: "sc_place s g = Some (Deleting key c v)"
  shows "sc_inv (DoEx_delete g key c v s)"
proof (rule sc_invI)
  let ?s = "DoEx_delete g key c v s"
  have pl: "sc_place ?s h = (if h = g then Some (Finished key c v True) else sc_place s h)" for h
    by (simp add: sc_defs)
  have st: "sc_calls ?s = (sc_calls s)(key := None)" "sc_done ?s = sc_done s" "sc_next ?s = sc_next s"
    by (simp_all add: sc_defs)
  note ok = sc_invD(1)[OF inv]
  have c: "c < sc_next s" "sc_calls s key = Some c" "sc_done s c = Some v" using ok[OF g] by auto
  have ex: "\<exists>q'. sc_place ?s h = Some q' \<and> executor_of q' = executor_of q \<and> key_of q' = key_of q"
    if "sc_place s h = Some q" for h q using that g by (auto simp: pl)
  have prev: "\<exists>q. sc_place s h = Some q \<and> executor_of q = executor_of q'"
    if "sc_place ?s h = Some q'" for h q' using that g by (auto simp: pl split: if_splits)
  show "place_ok ?s h q" if "sc_place ?s h = Some q" for h q
  proof (cases "h = g")
    case False
    with that have q: "sc_place s h = Some q" by (simp add: pl)
    have own: "sc_calls ?s k' = Some c' \<and> sc_done ?s c' = sc_done s c'" if "owner_of q = Some (k', c')" for k' c'
      using other_owner[OF inv g q False _ that] owner_holds[OF ok[OF q] that] by (simp add: st)
    show ?thesis
      by (rule place_ok_transfer[OF ok[OF q]]) (use ex own c in \<open>fastforce simp: st split: if_splits\<close>)+
  qed (use that c in \<open>auto simp: pl st\<close>)
  show "c' < sc_next ?s \<and> (\<exists>g p. sc_place ?s g = Some p \<and> owner_of p = Some (k, c'))" if *: "sc_calls ?s k = Some c'" for k c'
  proof -
    have k: "k \<noteq> key" "sc_calls s k = Some c'" using * by (auto simp: st split: if_splits)
    from sc_invD(2)[OF inv k(2)] obtain h p where "c' < sc_next s" "sc_place s h = Some p" "owner_of p = Some (k, c')" by blast
    moreover from this g k have "h \<noteq> g" by auto
    ultimately show ?thesis using pl[of h] by (auto simp: st)
  qed
  show "h = h'" if "sc_place ?s h = Some q" "sc_place ?s h' = Some q'" "executor_of q = Some d" "executor_of q' = Some d"
    for h h' q q' d using prev[OF that(1)] prev[OF that(2)] that(3,4) sc_invD(3)[OF inv] by metis
qed (use sc_invD(4)[OF inv] in \<open>simp add: sc_defs\<close>)

lemma sc_inv_step [inv_intros]:
  assumes "step s s'" "sc_inv s"
  shows "sc_inv s'"
  using assms(1)
proof cases
  case (enter g key)
  show ?thesis
  proof (cases "sc_calls s key")
    case None
    with enter assms(2) sc_inv_enter_new show ?thesis by blast
  next
    case (Some c)
    from sc_invD(2)[OF assms(2) Some] obtain h p where
      h: "c < sc_next s" "sc_place s h = Some p" "owner_of p = Some (key, c)" by blast
    then have "h \<noteq> g" using enter by auto
    with h Some have "place_ok (goto g (Waiting key c) s) g (Waiting key c)"
      by (auto simp: goto_def dest: owner_executor)
    with Some enter assms(2) sc_inv_goto[of s g "Waiting key c"] show ?thesis by (simp add: DoEx_enter_def)
  qed
next
  case (wake g key c v)
  with sc_invD(1)[OF assms(2)] have "place_ok s g (Waiting key c)" by blast
  with wake have "place_ok (goto g (Finished key c v False) s) g (Finished key c v False)"
    by (auto simp: goto_def)
  with wake assms(2) sc_inv_goto[of s g "Finished key c v False"] show ?thesis by simp
next
  case (fn_panics g key c)
  with sc_invD(1)[OF assms(2)] have "place_ok s g (Running key c)" by blast
  then have "place_ok (goto g (Crashed key c) s) g (Crashed key c)" by (simp add: goto_def)
  with fn_panics assms(2) sc_inv_goto[of s g "Crashed key c"] show ?thesis by simp
qed (use assms(2) in \<open>auto intro!: sc_inv_goto sc_inv_finish sc_inv_delete\<close>)

lemma sc_inv_steps: "steps s s' \<Longrightarrow> sc_inv s \<Longrightarrow> sc_inv s'"
  by (induction rule: steps.induct) (auto intro: inv_intros)

lemma reachable_inv: "reachable s \<Longrightarrow> sc_inv s"
  unfolding reachable_def using sc_inv_steps sc_inv_init by blast

text \<open>A crashed owner keeps its key and its call for ever.\<close>

definition blocked :: "string \<Rightarrow> nat \<Rightarrow> 'v sharedCalls \<Rightarrow> bool" where
  "blocked k c s \<longleftrightarrow> sc_inv s \<and> (\<exists>g. sc_place s g = Some (Crashed k c))"

lemma crashed_stays:
  assumes "step s s'" "sc_place s g = Some (Crashed k c)"
  shows "sc_place s' g = Some (Crashed k c)"
  using assms by (cases rule: step.cases) (auto simp: sc_defs split: option.splits)

lemma blocked_steps: "steps s s' \<Longrightarrow> blocked k c s \<Longrightarrow> blocked k c s'"
  by (induction rule: steps.induct) (auto simp: blocked_def intro: inv_intros crashed_stays)

lemma blocked_place:
  assumes "blocked k c s" "sc_place s g = Some p"
  shows "sc_calls s k = Some c" "\<forall>v. p \<noteq> Finished k c v False"
proof -
  obtain h where h: "sc_inv s" "sc_place s h = Some (Crashed k c)" using assms(1) by (auto simp: blocked_def)
  from sc_invD(1)[OF h] have "sc_calls s k = Some c" "sc_done s c = None" by auto
  moreover have "place_ok s g p" using sc_invD(1)[OF h(1) assms(2)] .
  ultimately show "sc_calls s k = Some c" "\<forall>v. p \<noteq> Finished k c v False" by auto
qed

lemma waiting_step:
  assumes "step s s'" "blocked k c s" "sc_place s g = Some (Waiting k c)"
  shows "sc_place s' g = Some (Waiting k c)"
proof -
  obtain h where "sc_inv s" "sc_place s h = Some (Crashed k c)" using assms(2) by (auto simp: blocked_def)
  from sc_invD(1)[OF this] have "sc_done s c = None" by auto
  with assms(1,3) show ?thesis by (cases rule: step.cases) (auto simp: sc_defs split: option.splits)
qed

lemma waiting_stays:
  assumes "steps s s'"
  shows "blocked k c s \<Longrightarrow> sc_place s g = Some (Waiting k c) \<Longrightarrow>
    blocked k c s' \<and> sc_place s' g = Some (Waiting k c)"
  using assms
proof (induction rule: steps.induct)
  case (trans s t u)
  then show ?case using waiting_step blocked_steps steps.trans by blast
qed simp

lemma steps_two: "step s t \<Longrightarrow> step t u \<Longrightarrow> steps s u"
  using steps.intros by blast

section \<open>Properties\<close>

text \<open>C11: At most one goroutine executes the function of a key at any time: in every reachable
  state two goroutines running for the same key are the same one, and the key is registered
  to the call it runs.\<close>

theorem one_executor_per_key:
  assumes "reachable s" "sc_place s g = Some (Running k c)" "sc_place s h = Some (Running k d)"
  shows "g = h \<and> c = d \<and> sc_calls s k = Some c"
proof -
  note inv = reachable_inv[OF assms(1)]
  have "sc_calls s k = Some c" using owner_holds[OF sc_invD(1)[OF inv assms(2)]] by simp
  then show ?thesis
    using other_owner[OF inv assms(2,3)] assms(2,3) by (cases "h = g") auto
qed

definition two_callers :: "string \<Rightarrow> nat sharedCalls" where
  "two_callers k = goto 1 (Waiting k 0) (goto 1 (Calling k) (DoEx_enter 0 k (goto 0 (Calling k) NewSharedCalls)))"

lemma two_callers_reachable: "reachable (two_callers k)"
proof -
  let ?s1 = "goto 0 (Calling k) NewSharedCalls :: nat sharedCalls"
  let ?s2 = "DoEx_enter 0 k ?s1" and ?s3 = "goto 1 (Calling k) (DoEx_enter 0 k ?s1)"
  have "step NewSharedCalls ?s1" by (rule step.call) (simp add: NewSharedCalls_def)
  moreover have "step ?s1 ?s2" by (rule step.enter) (simp add: goto_def)
  moreover have "step ?s2 ?s3" by (rule step.call) (simp add: sc_defs NewSharedCalls_def)
  moreover have "step ?s3 (DoEx_enter 1 k ?s3)" by (rule step.enter) (simp add: goto_def)
  moreover have "DoEx_enter 1 k ?s3 = two_callers k"
    by (simp add: two_callers_def sc_defs NewSharedCalls_def)
  ultimately show ?thesis unfolding reachable_def by (metis steps.intros)
qed

lemma two_callers_places:
  "sc_place (two_callers k) 0 = Some (Running k 0)" "sc_place (two_callers k) 1 = Some (Waiting k 0)"
  "sc_place (two_callers k) g = Some (Crashed k c) \<longleftrightarrow> False"
  by (simp_all add: two_callers_def sc_defs NewSharedCalls_def)

theorem one_executor_per_key_witness:
  "reachable (two_callers ''k'') \<and> sc_calls (two_callers ''k'') ''k'' = Some 0"
  using one_executor_per_key[OF two_callers_reachable two_callers_places(1) two_callers_places(1)]
    two_callers_reachable by blast

text \<open>C12: A waiter gets the executor's result: whenever a call has returned with
  \<open>executed = false\<close>, another goroutine executed the function for the same key and the same call,
  and returned or is about to return the very same value.\<close>

theorem waiters_share_result:
  assumes "reachable s" "sc_place s g = Some (Finished k c v False)"
  shows "\<exists>h p. h \<noteq> g \<and> sc_place s h = Some p \<and> (p = Deleting k c v \<or> p = Finished k c v True)"
proof -
  note ok = sc_invD(1)[OF reachable_inv[OF assms(1)]]
  from ok[OF assms(2)] obtain h p where
    h: "sc_done s c = Some v" "sc_place s h = Some p" "h \<noteq> g" "executor_of p = Some c" "key_of p = k" by auto
  with ok[OF h(2)] show ?thesis by (cases p) (auto split: if_splits)
qed

definition served :: "nat sharedCalls" where
  "served = goto 1 (Finished ''k'' 0 42 False) (DoEx_finish 0 ''k'' 0 42 (two_callers ''k''))"

lemma served_reachable: "reachable served"
proof -
  let ?s = "DoEx_finish 0 ''k'' 0 42 (two_callers ''k'')"
  have "step (two_callers ''k'') ?s" by (rule step.fn_returns) (rule two_callers_places)
  moreover have "step ?s served" unfolding served_def
    by (rule step.wake) (simp_all add: DoEx_finish_def goto_def two_callers_def)
  ultimately show ?thesis using two_callers_reachable unfolding reachable_def by (metis steps.trans)
qed

theorem waiters_share_result_witness:
  "\<exists>h p. h \<noteq> 1 \<and> sc_place served h = Some p \<and> (p = Deleting ''k'' 0 42 \<or> p = Finished ''k'' 0 42 True)"
  by (rule waiters_share_result[OF served_reachable]) (simp add: served_def goto_def)

text \<open>C13: No wake-up is lost: as long as no function has panicked, a waiter in any reachable
  state can still be served, by a return of the function it waits for at most.\<close>

theorem waiter_can_finish:
  assumes "reachable s" "sc_place s g = Some (Waiting k c)" "\<forall>h k' c'. sc_place s h \<noteq> Some (Crashed k' c')"
  shows "\<exists>s' v. steps s s' \<and> sc_place s' g = Some (Finished k c v False)"
proof (cases "sc_done s c")
  case (Some v)
  then have "step s (goto g (Finished k c v False) s)" using assms(2) by (rule step.wake[rotated])
  then show ?thesis by (metis goto_def steps.intros fun_upd_same select_convs(4) surjective update_convs(4))
next
  case None
  note inv = reachable_inv[OF assms(1)]
  from sc_invD(1)[OF inv assms(2)] None have "sc_calls s k = Some c" by auto
  from sc_invD(2)[OF inv this] obtain h p where h: "sc_place s h = Some p" "owner_of p = Some (k, c)" by blast
  with sc_invD(1)[OF inv h(1)] None assms(3) have run: "sc_place s h = Some (Running k c)" by (cases p) auto
  let ?s = "DoEx_finish h k c undefined s"
  have "h \<noteq> g" using run assms(2) by auto
  then have "step ?s (goto g (Finished k c undefined False) ?s)"
    using assms(2) by (intro step.wake) (simp_all add: sc_defs)
  moreover have "step s ?s" using run by (rule step.fn_returns)
  ultimately have "steps s (goto g (Finished k c undefined False) ?s)" by (rule steps_two[rotated])
  then show ?thesis by (intro exI conjI) (assumption, simp add: goto_def)
qed

theorem waiter_can_finish_witness:
  "\<exists>s' v. steps (two_callers ''k'') s' \<and> sc_place s' 1 = Some (Finished ''k'' 0 v False)"
  by (rule waiter_can_finish[OF two_callers_reachable two_callers_places(2)])
    (auto simp: two_callers_def sc_defs NewSharedCalls_def)

text \<open>A panic of the function blocks its key for good: the wait group is never released and
  the key never deleted, so in every later state a goroutine that waits for the call still waits,
  and every new caller of the key joins the same dead call.\<close>

theorem panic_blocks_key:
  assumes "reachable s" "sc_place s h = Some (Crashed k c)" "steps s s'"
  shows "sc_calls s' k = Some c \<and>
    (\<forall>g. sc_place s g = Some (Waiting k c) \<longrightarrow> sc_place s' g = Some (Waiting k c)) \<and>
    (\<forall>g. sc_place s' g = Some (Calling k) \<longrightarrow> DoEx_enter g k s' = goto g (Waiting k c) s')"
proof -
  have b: "blocked k c s" using assms(1,2) reachable_inv by (auto simp: blocked_def)
  then have "blocked k c s'" using blocked_steps[OF assms(3)] by blast
  then have "sc_calls s' k = Some c" using blocked_place(1) blocked_def by metis
  then show ?thesis using waiting_stays[OF assms(3) b] by (simp add: DoEx_enter_def)
qed

definition crashed_call :: "nat sharedCalls" where
  "crashed_call = goto 0 (Crashed ''k'' 0) (two_callers ''k'')"

theorem panic_blocks_key_witness:
  "reachable crashed_call \<and> steps crashed_call (goto 2 (Calling ''k'') crashed_call) \<and>
   sc_place (goto 2 (Calling ''k'') crashed_call) 1 = Some (Waiting ''k'' 0) \<and>
   DoEx_enter 2 ''k'' (goto 2 (Calling ''k'') crashed_call) = goto 2 (Waiting ''k'' 0) (goto 2 (Calling ''k'') crashed_call)"
proof -
  let ?s = crashed_call
  have "step (two_callers ''k'') ?s" unfolding crashed_call_def by (rule step.fn_panics) (rule two_callers_places)
  then have r: "reachable ?s" using two_callers_reachable unfolding reachable_def by (metis steps.trans)
  have p: "sc_place ?s 0 = Some (Crashed ''k'' 0)" "sc_place ?s 1 = Some (Waiting ''k'' 0)"
    using two_callers_places unfolding crashed_call_def by (simp_all add: goto_def)
  have "sc_place ?s 2 = None" by (simp add: crashed_call_def two_callers_def sc_defs NewSharedCalls_def)
  then have st: "steps ?s (goto 2 (Calling ''k'') ?s)" using step.call steps.intros by metis
  show ?thesis using panic_blocks_key[OF r p(1) st] r st p(2) by (simp add: goto_def)
qed

end
