(* ===== verification/Go_Errors.thy ===== *)
theory Go_Errors
  imports Go_Prelude
begin

section \<open>Errors, panics and the try/catch helpers\<close>

text \<open>
  Models the package \<open>errors\<close>: \<open>StackError\<close> (\<open>error.go\<close>), the stack printing of \<open>error_stack.go\<close> and
  \<open>error_utils.go\<close>, the constructors of \<open>with.go\<close>, the wrapper of \<open>warp.go\<close>, and the three try/catch
  forms of \<open>try_catch.go\<close>, \<open>try_catch_func.go\<close> and \<open>try_catch_chain.go\<close>.

  An \<open>error\<close> value is a pointer; the datatype gives each object a number, so that equal values are
  equal pointers. An error of another package is \<open>Foreign\<close>: its text, the errors it unwraps to and
  its stack trace are what its methods answer. \<^term>\<open>None\<close> is the nil error. The functions of
  \<open>github.com/pkg/errors\<close> are arguments of the definitions that call them.

  A Go function with effects on the world \<open>'w\<close> that may panic is a \<open>proc\<close>; the panic carries its value.
\<close>

type_synonym frame = nat

datatype go_error =
    Foreign nat string "go_error list" "frame list option"
  | StackErr nat int "go_error option" "go_error list"
  | WrappedErr nat "go_error option" "go_error option"

datatype panic_val = PanicErr go_error | PanicVal string

datatype 'a result = Ok 'a | Panic panic_val

type_synonym ('a, 'w) proc = "'w \<Rightarrow> 'a result \<times> 'w"

text \<open>The text of an error; \<^term>\<open>None\<close> is the panic of calling \<open>Error\<close> on a nil error.\<close>

fun error_text :: "go_error \<Rightarrow> string option" where
  "error_text (Foreign _ msg _ _) = Some msg"
| "error_text (StackErr _ _ e _) = (case e of None \<Rightarrow> None | Some e \<Rightarrow> error_text e)"
| "error_text (WrappedErr _ outer _) = (case outer of None \<Rightarrow> None | Some e \<Rightarrow> error_text e)"

text \<open>\<open>errors.Is\<close> of the standard library: the error itself or what it unwraps to. \<open>StackError\<close> has no
  \<open>Unwrap\<close> method; \<open>wrappedError\<close> unwraps to its inner error.\<close>

fun errors_Is :: "go_error \<Rightarrow> go_error option \<Rightarrow> bool" where
  "errors_Is (Foreign n msg us st) target =
     (Some (Foreign n msg us st) = target \<or> (\<exists>u \<in> set us. errors_Is u target))"
| "errors_Is (StackErr n c e xs) target = (Some (StackErr n c e xs) = target)"
| "errors_Is (WrappedErr n outer inner) target =
     (Some (WrappedErr n outer inner) = target \<or> (case inner of None \<Rightarrow> False | Some e \<Rightarrow> errors_Is e target))"

subsection \<open>\<open>StackError\<close>\<close>

record StackError =
  se_code :: int
  se_err :: "go_error option"
  se_extraErrs :: "go_error list"

definition AppendErrors :: "StackError \<Rightarrow> go_error list \<Rightarrow> StackError" where
  "AppendErrors c extras = c\<lparr>se_extraErrs := se_extraErrs c @ extras\<rparr>"

definition StackError_Error :: "StackError \<Rightarrow> string option" where
  "StackError_Error c = Option.bind (se_err c) error_text"

definition StackError_Code :: "StackError \<Rightarrow> int" where "StackError_Code c = se_code c"
definition StackError_Err :: "StackError \<Rightarrow> go_error option" where "StackError_Err c = se_err c"
definition StackError_Errs :: "StackError \<Rightarrow> go_error list" where "StackError_Errs c = se_extraErrs c"

definition ExistExtra :: "StackError \<Rightarrow> bool" where
  "ExistExtra c = (if length (se_extraErrs c) = 0 then False else True)"

fun error_texts :: "go_error list \<Rightarrow> string list option" where
  "error_texts [] = Some []"
| "error_texts (e # es) = do { t \<leftarrow> error_text e; ts \<leftarrow> error_texts es; Some (t # ts) }"

definition ToStrByExtra :: "StackError \<Rightarrow> string option" where
  "ToStrByExtra c = do {
     t \<leftarrow> StackError_Error c;
     ts \<leftarrow> error_texts (se_extraErrs c);
     Some (go_join [CHR 0x0A] (t # ts)) }"

definition StackError_Msg :: "StackError \<Rightarrow> string option" where
  "StackError_Msg c = (if se_extraErrs c \<noteq> [] then ToStrByExtra c else StackError_Error c)"

definition new_stack_error :: "string \<Rightarrow> int \<Rightarrow> (string \<Rightarrow> go_error) \<Rightarrow> go_error list \<Rightarrow> StackError" where
  "new_stack_error s code pkg_New extras = \<lparr>se_code = code, se_err = Some (pkg_New s), se_extraErrs = extras\<rparr>"

definition WithStack ::
  "(go_error option \<Rightarrow> go_error option) \<Rightarrow> go_error option \<Rightarrow> int \<Rightarrow> go_error list \<Rightarrow> StackError" where
  "WithStack pkg_WithStack err code extras =
     \<lparr>se_code = code, se_err = pkg_WithStack err, se_extraErrs = extras\<rparr>"

definition WithMessage ::
  "(go_error option \<Rightarrow> go_error option) \<Rightarrow> (go_error option \<Rightarrow> string \<Rightarrow> go_error option) \<Rightarrow>
     go_error option \<Rightarrow> string \<Rightarrow> int \<Rightarrow> go_error list \<Rightarrow> StackError" where
  "WithMessage pkg_WithStack pkg_Wrap err msg code extras =
     (let err = pkg_WithStack err
      in \<lparr>se_code = code, se_err = pkg_Wrap err msg, se_extraErrs = extras\<rparr>)"

definition WithMessageF ::
  "(go_error option \<Rightarrow> string \<Rightarrow> 'args \<Rightarrow> go_error option) \<Rightarrow> go_error option \<Rightarrow> string \<Rightarrow> int \<Rightarrow> 'args \<Rightarrow> StackError" where
  "WithMessageF pkg_Wrapf err format code args =
     \<lparr>se_code = code, se_err = pkg_Wrapf err format args, se_extraErrs = []\<rparr>"

definition Convert :: "go_error option \<Rightarrow> StackError option" where
  "Convert e = (case e of
     Some (StackErr _ code err extras) \<Rightarrow> Some \<lparr>se_code = code, se_err = err, se_extraErrs = extras\<rparr>
   | _ \<Rightarrow> None)"

definition Assert :: "go_error option \<Rightarrow> bool" where
  "Assert e = (case e of Some (StackErr _ _ _ _) \<Rightarrow> True | _ \<Rightarrow> False)"

subsection \<open>Printing of stacks\<close>

record StackSourceEntity =
  sse_File :: string
  sse_LineCode :: string
  sse_FuncName :: string

text \<open>\<open>Format\<close> of a frame is the other package's: \<open>writes\<close> gives the slices it passes to \<open>Write\<close> for a verb.
  The state keeps the last one, and what it held before when there is none.\<close>

definition frameField :: "(frame \<Rightarrow> char \<Rightarrow> string list) \<Rightarrow> frame \<Rightarrow> string \<Rightarrow> char \<Rightarrow> string" where
  "frameField writes f b c = foldl (\<lambda>b w. w) b (writes f c)"

fun marshal_loop :: "(frame \<Rightarrow> char \<Rightarrow> string list) \<Rightarrow> int \<Rightarrow> int \<Rightarrow> string \<Rightarrow> frame list \<Rightarrow> StackSourceEntity list" where
  "marshal_loop writes sz idx b [] = []"
| "marshal_loop writes sz idx b (f # fs) =
     (if idx = 0 \<or> sz - idx \<le> 2 then marshal_loop writes sz (idx + 1) b fs
      else let file = frameField writes f b (CHR ''s'');
               line = frameField writes f file (CHR ''d'');
               func = frameField writes f line (CHR ''n'')
           in \<lparr>sse_File = file, sse_LineCode = line, sse_FuncName = func\<rparr> # marshal_loop writes sz (idx + 1) func fs)"

text \<open>The stack of an error, if its type has one; \<open>StackError\<close> and \<open>wrappedError\<close> have none.\<close>

fun stack_of :: "go_error \<Rightarrow> frame list option" where
  "stack_of (Foreign _ _ _ st) = st"
| "stack_of _ = None"

definition MarshalStack :: "(frame \<Rightarrow> char \<Rightarrow> string list) \<Rightarrow> go_error option \<Rightarrow> StackSourceEntity list option" where
  "MarshalStack writes err =
     (case Option.bind err stack_of of
        None \<Rightarrow> None
      | Some st \<Rightarrow> Some (marshal_loop writes (int (length st)) 0 [] st))"

definition show_entity :: "StackSourceEntity \<Rightarrow> string" where
  "show_entity e = ''file:'' @ sse_File e @ '', line:'' @ sse_LineCode e @ '', func:'' @ sse_FuncName e"

definition ToStr :: "(frame \<Rightarrow> char \<Rightarrow> string list) \<Rightarrow> go_error option \<Rightarrow> string option" where
  "ToStr writes err =
     (case MarshalStack writes err of
        None \<Rightarrow> Option.bind err error_text
      | Some stacks \<Rightarrow> Some (foldl (\<lambda>s item. s @ show_entity item) [] stacks))"

definition ToArr :: "(frame \<Rightarrow> char \<Rightarrow> string list) \<Rightarrow> go_error option \<Rightarrow> string list option" where
  "ToArr writes err =
     (case MarshalStack writes err of
        None \<Rightarrow> map_option (\<lambda>t. [t]) (Option.bind err error_text)
      | Some stacks \<Rightarrow> Some (map show_entity stacks))"

definition StackError_ToStr where "StackError_ToStr writes c = ToStr writes (se_err c)"
definition StackError_ToArr where "StackError_ToArr writes c = ToArr writes (se_err c)"

subsection \<open>Wrapping\<close>

definition Wrap :: "nat \<Rightarrow> go_error option \<Rightarrow> go_error option \<Rightarrow> go_error" where
  "Wrap n outer inner = WrappedErr n outer inner"

text \<open>\<open>strings.Replace(format, old, new, -1)\<close> for a non-empty \<open>old\<close>.\<close>

definition replace_all :: "string \<Rightarrow> string \<Rightarrow> string \<Rightarrow> string" where
  "replace_all s old new = go_join new (go_split old s)"

definition Wrapf :: "nat \<Rightarrow> nat \<Rightarrow> string \<Rightarrow> go_error option \<Rightarrow> go_error option" where
  "Wrapf n m format err = do {
     outerMsg \<leftarrow> (case err of None \<Rightarrow> Some ''<nil>'' | Some e \<Rightarrow> error_text e);
     let outer = Foreign m (replace_all format ''{{err}}'' outerMsg) [] None;
     Some (Wrap n (Some outer) err) }"

definition WrappedErrors :: "go_error \<Rightarrow> go_error option list" where
  "WrappedErrors w = (case w of WrappedErr _ outer inner \<Rightarrow> [outer, inner] | _ \<Rightarrow> [])"

subsection \<open>\<open>TryFunc\<close>\<close>

definition TryFunc ::
  "(unit, 'w) proc \<Rightarrow> (panic_val \<Rightarrow> (unit, 'w) proc) option \<Rightarrow> (unit, 'w) proc option \<Rightarrow> (unit, 'w) proc" where
  "TryFunc body catch finally_proc w =
     (let (r, w) = body w;
          (c, w) = (case r of
             Ok _ \<Rightarrow> (Ok (), w)
           | Panic v \<Rightarrow> (case catch of Some h \<Rightarrow> h v w | None \<Rightarrow> (Panic v, w)))
      in case c of
           Panic v \<Rightarrow> (Panic v, w)
         | Ok _ \<Rightarrow> (case finally_proc of Some f \<Rightarrow> f w | None \<Rightarrow> (Ok (), w)))"

subsection \<open>\<open>TryCatch\<close> and its variants\<close>

text \<open>\<open>n\<close> numbers the error object that \<open>fmt.Errorf\<close> creates.\<close>

definition toError :: "nat \<Rightarrow> panic_val \<Rightarrow> go_error" where
  "toError n v = (case v of PanicErr e \<Rightarrow> e | PanicVal s \<Rightarrow> Foreign n (''panic: '' @ s) [] None)"

definition TryCatchReturn :: "nat \<Rightarrow> 'a \<Rightarrow> ('a, 'w) proc \<Rightarrow> 'w \<Rightarrow> ('a \<times> go_error option) \<times> 'w" where
  "TryCatchReturn n zero f w =
     (case f w of
        (Ok r, w) \<Rightarrow> ((r, None), w)
      | (Panic v, w) \<Rightarrow> ((zero, Some (toError n v)), w))"

definition TryCatchReturn2 ::
  "nat \<Rightarrow> 'a \<Rightarrow> 'b \<Rightarrow> ('a \<times> 'b, 'w) proc \<Rightarrow> 'w \<Rightarrow> ('a \<times> 'b \<times> go_error option) \<times> 'w" where
  "TryCatchReturn2 n z1 z2 f w =
     (case f w of
        (Ok (r1, r2), w) \<Rightarrow> ((r1, r2, None), w)
      | (Panic v, w) \<Rightarrow> ((z1, z2, Some (toError n v)), w))"

definition TryCatchReturn3 ::
  "nat \<Rightarrow> 'a \<Rightarrow> 'b \<Rightarrow> 'c \<Rightarrow> ('a \<times> 'b \<times> 'c, 'w) proc \<Rightarrow> 'w \<Rightarrow> ('a \<times> 'b \<times> 'c \<times> go_error option) \<times> 'w" where
  "TryCatchReturn3 n z1 z2 z3 f w =
     (case f w of
        (Ok (r1, r2, r3), w) \<Rightarrow> ((r1, r2, r3, None), w)
      | (Panic v, w) \<Rightarrow> ((z1, z2, z3, Some (toError n v)), w))"

definition TryCatch :: "nat \<Rightarrow> (unit, 'w) proc \<Rightarrow> 'w \<Rightarrow> go_error option \<times> 'w" where
  "TryCatch n f w =
     (case f w of
        (Ok _, w) \<Rightarrow> (None, w)
      | (Panic v, w) \<Rightarrow> (Some (toError n v), w))"

definition TryCatchIgnore :: "nat \<Rightarrow> (unit, 'w) proc \<Rightarrow> 'w \<Rightarrow> 'w" where
  "TryCatchIgnore n f w = snd (TryCatch n f w)"

definition IgnoreLastError2 :: "'a \<Rightarrow> go_error option \<Rightarrow> 'a" where
  "IgnoreLastError2 v1 err = v1"

definition IgnoreLastError3 :: "'a \<Rightarrow> 'b \<Rightarrow> go_error option \<Rightarrow> 'a \<times> 'b" where
  "IgnoreLastError3 v1 v2 err = (v1, v2)"

definition IgnoreLastError4 :: "'a \<Rightarrow> 'b \<Rightarrow> 'c \<Rightarrow> go_error option \<Rightarrow> 'a \<times> 'b \<times> 'c" where
  "IgnoreLastError4 v1 v2 v3 err = (v1, v2, v3)"

subsection \<open>The chain\<close>

record 'w CatchHandler =
  ch_err :: "go_error option"
  ch_handler :: "go_error \<Rightarrow> (unit, 'w) proc"

record 'w TryHandler =
  th_handler :: "(unit, 'w) proc"
  th_catches :: "'w CatchHandler list"
  th_default :: "(go_error \<Rightarrow> (unit, 'w) proc) option"
  th_else :: "(unit, 'w) proc option"
  th_finally :: "(unit, 'w) proc option"

text \<open>Every handler object of the chain points to the one \<open>TryHandler\<close>; the builder methods update it.\<close>

definition Try :: "(unit, 'w) proc \<Rightarrow> 'w TryHandler" where
  "Try f = \<lparr>th_handler = f, th_catches = [], th_default = None, th_else = None, th_finally = None\<rparr>"

definition NewCatchHandler :: "go_error option \<Rightarrow> (go_error \<Rightarrow> (unit, 'w) proc) \<Rightarrow> 'w TryHandler \<Rightarrow> 'w TryHandler" where
  "NewCatchHandler err h x = x\<lparr>th_catches := th_catches x @ [\<lparr>ch_err = err, ch_handler = h\<rparr>]\<rparr>"

definition NewDefaultCatchHandler :: "(go_error \<Rightarrow> (unit, 'w) proc) \<Rightarrow> 'w TryHandler \<Rightarrow> 'w TryHandler" where
  "NewDefaultCatchHandler h x = x\<lparr>th_default := Some h\<rparr>"

definition NewTryCatchElseHandler :: "(unit, 'w) proc \<Rightarrow> 'w TryHandler \<Rightarrow> 'w TryHandler" where
  "NewTryCatchElseHandler h x = x\<lparr>th_else := Some h\<rparr>"

definition NewFinallyHandler :: "(unit, 'w) proc \<Rightarrow> 'w TryHandler \<Rightarrow> 'w TryHandler" where
  "NewFinallyHandler h x = x\<lparr>th_finally := Some h\<rparr>"

definition CatchHandler_match :: "'w CatchHandler \<Rightarrow> go_error \<Rightarrow> bool" where
  "CatchHandler_match c err = errors_Is err (ch_err c)"

text \<open>The loop over the handlers: the first match runs and ends it. \<^term>\<open>None\<close> is \<open>catchSuccess == false\<close>.\<close>

fun catch_loop :: "go_error \<Rightarrow> 'w CatchHandler list \<Rightarrow> 'w \<Rightarrow> (unit result \<times> 'w) option" where
  "catch_loop err [] w = None"
| "catch_loop err (c # cs) w =
     (if CatchHandler_match c err then Some (ch_handler c err w) else catch_loop err cs w)"

definition try_body :: "nat \<Rightarrow> 'w TryHandler \<Rightarrow> (unit, 'w) proc" where
  "try_body n x w =
     (let (e, w) = TryCatch n (th_handler x) w
      in case e of
           None \<Rightarrow> (case th_else x of Some h \<Rightarrow> h w | None \<Rightarrow> (Ok (), w))
         | Some err \<Rightarrow>
             (case catch_loop err (th_catches x) w of
                Some rw \<Rightarrow> rw
              | None \<Rightarrow> (case th_default x of Some h \<Rightarrow> h err w | None \<Rightarrow> (Panic (PanicErr err), w))))"

text \<open>The deferred function runs last; a panic of its own replaces the one that is under way.\<close>

definition TryHandler_Do :: "nat \<Rightarrow> 'w TryHandler \<Rightarrow> (unit, 'w) proc" where
  "TryHandler_Do n x w =
     (let (r, w) = try_body n x w
      in case th_finally x of
           None \<Rightarrow> (r, w)
         | Some f \<Rightarrow> (case f w of (Panic v, w) \<Rightarrow> (Panic v, w) | (Ok _, w) \<Rightarrow> (r, w)))"

text \<open>A chain expression: each call is a method of the handler that the call before it returned, so that its type says which
  calls may follow. One definition per type; \<^term>\<open>None\<close> is a call that does not compile. \<open>Do\<close> of each of them is \<open>Do\<close> of the
  one \<open>TryHandler\<close>.\<close>

datatype 'w chain_call =
    CallCatch "go_error option" "go_error \<Rightarrow> (unit, 'w) proc"
  | CallDefaultCatch "go_error \<Rightarrow> (unit, 'w) proc"
  | CallElse "(unit, 'w) proc"
  | CallFinally "(unit, 'w) proc"

datatype handler_type = IsTry | IsCatch | IsDefaultCatch | IsElse | IsFinally

definition TryHandler_call :: "'w chain_call \<Rightarrow> 'w TryHandler \<Rightarrow> (handler_type \<times> 'w TryHandler) option" where
  "TryHandler_call m x =
     (case m of
        CallCatch err h \<Rightarrow> Some (IsCatch, NewCatchHandler err h x)
      | CallFinally h \<Rightarrow> Some (IsFinally, NewFinallyHandler h x)
      | CallDefaultCatch h \<Rightarrow> Some (IsDefaultCatch, NewDefaultCatchHandler h x)
      | CallElse h \<Rightarrow> Some (IsElse, NewTryCatchElseHandler h x))"

definition CatchHandler_call :: "'w chain_call \<Rightarrow> 'w TryHandler \<Rightarrow> (handler_type \<times> 'w TryHandler) option" where
  "CatchHandler_call m x =
     (case m of
        CallCatch err h \<Rightarrow> Some (IsCatch, NewCatchHandler err h x)
      | CallDefaultCatch h \<Rightarrow> Some (IsDefaultCatch, NewDefaultCatchHandler h x)
      | CallElse h \<Rightarrow> Some (IsElse, NewTryCatchElseHandler h x)
      | CallFinally h \<Rightarrow> Some (IsFinally, NewFinallyHandler h x))"

definition DefaultCatchHandler_call :: "'w chain_call \<Rightarrow> 'w TryHandler \<Rightarrow> (handler_type \<times> 'w TryHandler) option" where
  "DefaultCatchHandler_call m x =
     (case m of
        CallElse h \<Rightarrow> Some (IsElse, NewTryCatchElseHandler h x)
      | CallFinally h \<Rightarrow> Some (IsFinally, NewFinallyHandler h x)
      | _ \<Rightarrow> None)"

definition TryCatchElseHandler_call :: "'w chain_call \<Rightarrow> 'w TryHandler \<Rightarrow> (handler_type \<times> 'w TryHandler) option" where
  "TryCatchElseHandler_call m x = (case m of CallFinally h \<Rightarrow> Some (IsFinally, NewFinallyHandler h x) | _ \<Rightarrow> None)"

definition handler_call :: "handler_type \<Rightarrow> 'w chain_call \<Rightarrow> 'w TryHandler \<Rightarrow> (handler_type \<times> 'w TryHandler) option" where
  "handler_call ty m x =
     (case ty of
        IsTry \<Rightarrow> TryHandler_call m x
      | IsCatch \<Rightarrow> CatchHandler_call m x
      | IsDefaultCatch \<Rightarrow> DefaultCatchHandler_call m x
      | IsElse \<Rightarrow> TryCatchElseHandler_call m x
      | IsFinally \<Rightarrow> None)"

fun chain_expr :: "'w chain_call list \<Rightarrow> handler_type \<times> 'w TryHandler \<Rightarrow> (handler_type \<times> 'w TryHandler) option" where
  "chain_expr [] tx = Some tx"
| "chain_expr (m # ms) (ty, x) = (case handler_call ty m x of None \<Rightarrow> None | Some tx \<Rightarrow> chain_expr ms tx)"

section \<open>Lemmas\<close>

subsection \<open>Chain expressions\<close>

text \<open>Whatever compiles says every clause but catch once at most, in the order catch, default, else, finally: the object
  that \<open>Do\<close> runs has exactly the clauses of the expression, none of which replaced another.\<close>

definition chain_clauses ::
  "'w CatchHandler list \<Rightarrow> (go_error \<Rightarrow> (unit, 'w) proc) option \<Rightarrow> (unit, 'w) proc option \<Rightarrow> (unit, 'w) proc option \<Rightarrow> 'w chain_call list" where
  "chain_clauses cs d e f = map (\<lambda>c. CallCatch (ch_err c) (ch_handler c)) cs @
     (case d of None \<Rightarrow> [] | Some h \<Rightarrow> [CallDefaultCatch h]) @ (case e of None \<Rightarrow> [] | Some h \<Rightarrow> [CallElse h]) @
     (case f of None \<Rightarrow> [] | Some h \<Rightarrow> [CallFinally h])"

text \<open>What the handler reached so far still lacks.\<close>

definition handler_inv :: "handler_type \<Rightarrow> 'w TryHandler \<Rightarrow> bool" where
  "handler_inv ty x \<longleftrightarrow> (case ty of
     IsTry \<Rightarrow> th_catches x = [] \<and> th_default x = None \<and> th_else x = None \<and> th_finally x = None
   | IsCatch \<Rightarrow> th_default x = None \<and> th_else x = None \<and> th_finally x = None
   | IsDefaultCatch \<Rightarrow> th_else x = None \<and> th_finally x = None
   | IsElse \<Rightarrow> th_finally x = None
   | IsFinally \<Rightarrow> True)"

lemmas handler_call_defs = handler_call_def TryHandler_call_def CatchHandler_call_def DefaultCatchHandler_call_def
  TryCatchElseHandler_call_def NewCatchHandler_def NewDefaultCatchHandler_def NewTryCatchElseHandler_def NewFinallyHandler_def

lemma handler_call_clauses:
  assumes "handler_call ty m x = Some (ty', x')" "handler_inv ty x"
  shows "handler_inv ty' x' \<and> th_handler x' = th_handler x \<and>
    chain_clauses (th_catches x') (th_default x') (th_else x') (th_finally x') =
      chain_clauses (th_catches x) (th_default x) (th_else x) (th_finally x) @ [m]"
  using assms
  by (cases ty; cases m) (auto simp: handler_call_defs handler_inv_def chain_clauses_def split: option.splits)

lemma chain_expr_clauses:
  "chain_expr ms (ty, x) = Some (ty', x') \<Longrightarrow> handler_inv ty x \<Longrightarrow> th_handler x' = th_handler x \<and>
    chain_clauses (th_catches x') (th_default x') (th_else x') (th_finally x') =
      chain_clauses (th_catches x) (th_default x) (th_else x) (th_finally x) @ ms"
proof (induction ms arbitrary: ty x)
  case (Cons m ms)
  then obtain ty1 x1 where c: "handler_call ty m x = Some (ty1, x1)" "chain_expr ms (ty1, x1) = Some (ty', x')"
    by (auto split: option.splits)
  show ?case using handler_call_clauses[OF c(1) Cons.prems(2)] Cons.IH[OF c(2)] by simp
qed simp

lemma chain_expr_keeps_all:
  assumes "chain_expr ms (IsTry, Try f) = Some (ty, x)"
  shows "th_handler x = f" "chain_clauses (th_catches x) (th_default x) (th_else x) (th_finally x) = ms"
  using chain_expr_clauses[OF assms] by (simp_all add: handler_inv_def Try_def chain_clauses_def)

text \<open>Conversely every list of clauses in that order compiles.\<close>

lemma chain_expr_complete:
  "\<exists>ty. chain_expr (chain_clauses cs d e f) (IsTry, Try body) =
     Some (ty, \<lparr>th_handler = body, th_catches = cs, th_default = d, th_else = e, th_finally = f\<rparr>)"
proof -
  have catches: "chain_expr (map (\<lambda>c. CallCatch (ch_err c) (ch_handler c)) cs @ ms) (ty, x) =
      chain_expr ms (if cs = [] then ty else IsCatch, x\<lparr>th_catches := th_catches x @ cs\<rparr>)" if "ty = IsTry \<or> ty = IsCatch" for ms ty x
    using that
  proof (induction cs arbitrary: ty x)
    case (Cons c cs)
    obtain err h where "c = \<lparr>ch_err = err, ch_handler = h\<rparr>" by (cases c)
    with Cons show ?case by (auto simp: handler_call_defs)
  qed simp
  show ?thesis unfolding chain_clauses_def catches[of IsTry, simplified]
    by (cases d; cases e; cases f) (auto simp: handler_call_defs Try_def)
qed

lemma catch_loop_find:
  "catch_loop err cs w =
     map_option (\<lambda>c. ch_handler c err w) (find (\<lambda>c. CatchHandler_match c err) cs)"
  by (induction cs) auto

lemma TryCatch_total: "\<exists>e w'. TryCatch n f w = (e, w') \<and> (e = None \<longleftrightarrow> (\<exists>x. fst (f w) = Ok x)) \<and> snd (f w) = w'"
  by (auto simp: TryCatch_def split: prod.splits result.splits)

lemma errors_Is_refl: "errors_Is e (Some e)"
  by (cases e) auto

lemma errors_Is_nil: "\<not> errors_Is e None"
  by (induction e "None :: go_error option" rule: errors_Is.induct) (auto split: option.splits)

definition entity_of :: "(frame \<Rightarrow> char \<Rightarrow> string list) \<Rightarrow> frame \<Rightarrow> StackSourceEntity" where
  "entity_of writes f = \<lparr>sse_File = last (writes f (CHR ''s'')), sse_LineCode = last (writes f (CHR ''d'')),
     sse_FuncName = last (writes f (CHR ''n''))\<rparr>"

lemma frameField_last: "writes f c \<noteq> [] \<Longrightarrow> frameField writes f b c = last (writes f c)"
proof -
  have "foldl (\<lambda>b w. w) b ws = (if ws = [] then b else last ws)" for b and ws :: "string list"
    by (induction ws arbitrary: b) auto
  then show "writes f c \<noteq> [] \<Longrightarrow> ?thesis" by (simp add: frameField_def)
qed

lemma marshal_loop_frames:
  assumes "\<forall>f c. writes f c \<noteq> []"
  shows "0 < idx \<Longrightarrow> marshal_loop writes sz idx b fs = map (entity_of writes) (take (nat (sz - idx - 2)) fs)"
proof (induction fs arbitrary: idx b)
  case (Cons f fs)
  show ?case
  proof (cases "sz - idx \<le> 2")
    case False
    then have "nat (sz - idx - 2) = Suc (nat (sz - (idx + 1) - 2))" by simp
    with False Cons assms show ?thesis by (simp add: frameField_last Let_def entity_of_def)
  qed (use Cons in simp)
qed simp

lemma MarshalStack_inner:
  assumes "\<forall>f c. writes f c \<noteq> []" "stack_of e = Some st"
  shows "MarshalStack writes (Some e) = Some (map (entity_of writes) (take (length st - 3) (drop 1 st)))"
proof (cases st)
  case (Cons f fs)
  have "marshal_loop writes (int (length st)) 1 [] fs = map (entity_of writes) (take (length st - 3) fs)"
    using marshal_loop_frames[OF assms(1), of 1 "int (length st)" "[]" fs] by (simp add: nat_diff_distrib' Cons)
  with Cons assms(2) show ?thesis by (simp add: MarshalStack_def)
qed (use assms in \<open>simp add: MarshalStack_def\<close>)

lemma TryHandler_Do_cases:
  assumes "th_handler x w = (r, w0)"
  shows "TryHandler_Do n x w =
    (let (r1, w1) =
       (case r of
          Ok _ \<Rightarrow> (case th_else x of None \<Rightarrow> (Ok (), w0) | Some h \<Rightarrow> h w0)
        | Panic v \<Rightarrow>
            (let err = toError n v
             in case find (\<lambda>c. errors_Is err (ch_err c)) (th_catches x) of
                  Some c \<Rightarrow> ch_handler c err w0
                | None \<Rightarrow> (case th_default x of Some h \<Rightarrow> h err w0 | None \<Rightarrow> (Panic (PanicErr err), w0))))
     in case th_finally x of
          None \<Rightarrow> (r1, w1)
        | Some f \<Rightarrow> (case fst (f w1) of Panic v \<Rightarrow> Panic v | Ok _ \<Rightarrow> r1, snd (f w1)))"
  using assms
  by (auto simp: TryHandler_Do_def try_body_def TryCatch_def catch_loop_find CatchHandler_match_def Let_def
      split: prod.splits result.splits option.splits)

section \<open>Properties\<close>

text \<open>C14: The chain \<open>Try(f).Catch(..).DefaultCatch(..).Else(..).Finally(..).Do()\<close> behaves like a
  try statement: without a panic only the else handler runs; otherwise the first catch whose target
  the error matches, or the default handler, runs once with the error, and an error nobody
  catches propagates. Whatever happens, the finally handler runs exactly once, after the rest,
  and a panic of its own replaces any other outcome. The chain expressions that compile are exactly those with
  any number of catches, then at most one default, else and finally each, and none of the clauses is lost.\<close>

theorem try_chain_semantics:
  assumes "f w = (r, w0)"
  shows "(chain_expr ms (IsTry, Try f) = Some (ty, x) \<longrightarrow> (\<exists>cs d e fin. ms = chain_clauses cs d e fin)) \<and>
    (\<exists>ty x. chain_expr (chain_clauses cs d e fin) (IsTry, Try f) = Some (ty, x) \<and> TryHandler_Do n x w =
      (let (r1, w1) =
         (case r of
            Ok _ \<Rightarrow> (case e of None \<Rightarrow> (Ok (), w0) | Some h \<Rightarrow> h w0)
          | Panic v \<Rightarrow>
              (let err = toError n v
               in case find (\<lambda>c. errors_Is err (ch_err c)) cs of
                    Some c \<Rightarrow> ch_handler c err w0
                  | None \<Rightarrow> (case d of Some h \<Rightarrow> h err w0 | None \<Rightarrow> (Panic (PanicErr err), w0))))
       in case fin of
            None \<Rightarrow> (r1, w1)
          | Some h \<Rightarrow> (case fst (h w1) of Panic v \<Rightarrow> Panic v | Ok _ \<Rightarrow> r1, snd (h w1))))"
proof
  show "chain_expr ms (IsTry, Try f) = Some (ty, x) \<longrightarrow> (\<exists>cs d e fin. ms = chain_clauses cs d e fin)"
    using chain_expr_keeps_all(2) by metis
  obtain ty' where c: "chain_expr (chain_clauses cs d e fin) (IsTry, Try f) =
      Some (ty', \<lparr>th_handler = f, th_catches = cs, th_default = d, th_else = e, th_finally = fin\<rparr>)"
    using chain_expr_complete by blast
  show "\<exists>ty x. chain_expr (chain_clauses cs d e fin) (IsTry, Try f) = Some (ty, x) \<and> TryHandler_Do n x w =
      (let (r1, w1) =
         (case r of
            Ok _ \<Rightarrow> (case e of None \<Rightarrow> (Ok (), w0) | Some h \<Rightarrow> h w0)
          | Panic v \<Rightarrow>
              (let err = toError n v
               in case find (\<lambda>c. errors_Is err (ch_err c)) cs of
                    Some c \<Rightarrow> ch_handler c err w0
                  | None \<Rightarrow> (case d of Some h \<Rightarrow> h err w0 | None \<Rightarrow> (Panic (PanicErr err), w0))))
       in case fin of
            None \<Rightarrow> (r1, w1)
          | Some h \<Rightarrow> (case fst (h w1) of Panic v \<Rightarrow> Panic v | Ok _ \<Rightarrow> r1, snd (h w1)))"
    by (intro exI conjI, rule c, subst TryHandler_Do_cases[where r = r and ?w0.0 = w0]) (simp_all only: assms TryHandler.simps)
qed

definition log_clause :: "nat \<Rightarrow> string \<Rightarrow> string list CatchHandler" where
  "log_clause k name = \<lparr>ch_err = Some (Foreign k name [] None), ch_handler = (\<lambda>e w. (Ok (), w @ [''catch '' @ name]))\<rparr>"

definition log_body :: "(unit, string list) proc" where
  "log_body w = (Panic (PanicErr (Wrap 9 (Some (Foreign 3 ''ctx'' [] None)) (Some (Foreign 2 ''b'' [] None)))), w @ [''body''])"

theorem try_chain_semantics_witness:
  "\<exists>ty x. chain_expr (chain_clauses [log_clause 1 ''a'', log_clause 2 ''b''] None None (Some (\<lambda>w. (Ok (), w @ [''finally'']))))
       (IsTry, Try log_body) = Some (ty, x) \<and> TryHandler_Do 0 x [] = (Ok (), [''body'', ''catch b'', ''finally''])"
  using try_chain_semantics[of log_body "[]" _ _ "[]" IsTry "Try log_body" "[log_clause 1 ''a'', log_clause 2 ''b'']" None None
      "Some (\<lambda>w. (Ok (), w @ [''finally'']))" 0, OF surjective_pairing]
  by (simp add: log_body_def log_clause_def toError_def Wrap_def)

text \<open>\<open>TryFunc\<close> does not keep its promise that the finally block runs in any case: when the
  body panics and there is no catch function, or the catch function panics itself, the finally
  function is not run at all, and the outcome does not depend on it.\<close>

theorem tryfunc_skips_finally:
  assumes "body w = (Panic v, w1)"
    "catch = None \<and> r = v \<and> w2 = w1 \<or> (\<exists>h. catch = Some h \<and> h v w1 = (Panic r, w2))"
  shows "TryFunc body catch fin w = (Panic r, w2)"
  using assms by (auto simp: TryFunc_def)

theorem tryfunc_skips_finally_witness:
  "TryFunc (\<lambda>w. (Panic (PanicVal ''boom''), w @ [''body''])) None (Some (\<lambda>w. (Ok (), w @ [''finally'']))) [] =
     (Panic (PanicVal ''boom''), [''body''])"
  by (rule tryfunc_skips_finally[where ?w1.0 = "[''body'']"]) simp_all

text \<open>The stack printer keeps exactly the frames between the first and the last two, in order;
  so an error whose trace has at most three frames is printed as the empty string, its text
  included.\<close>

theorem stack_printing:
  assumes "\<forall>f c. writes f c \<noteq> []" "stack_of e = Some st"
  shows "ToArr writes (Some e) = Some (map (\<lambda>f. show_entity (entity_of writes f)) (take (length st - 3) (drop 1 st))) \<and>
    (length st \<le> 3 \<longrightarrow> ToStr writes (Some e) = Some [])"
  by (simp add: ToArr_def ToStr_def MarshalStack_inner[OF assms])

theorem stack_printing_witness:
  "ToStr (\<lambda>f c. [''x'']) (Some (Foreign 1 ''disk full'' [] (Some [10, 11, 12]))) = Some []"
  using stack_printing[of "\<lambda>f c. [''x'']" "Foreign 1 ''disk full'' [] (Some [10, 11, 12])" "[10, 11, 12]"] by simp

text \<open>A wrapped error matches its inner error and whatever that one matches, but not the outer
  error it was given: \<open>errors.Is\<close> follows \<open>Unwrap\<close>, which returns the inner error only.\<close>

lemma errors_Is_Wrap:
  "errors_Is (Wrap n outer (Some inner)) target \<longleftrightarrow>
     target = Some (Wrap n outer (Some inner)) \<or> errors_Is inner target"
  by (auto simp: Wrap_def)

lemma Wrapf_text:
  "error_text e = Some m \<Longrightarrow> Wrapf n k ''{{err}}'' (Some e) = Some w \<Longrightarrow> error_text w = Some m \<and> errors_Is w (Some e)"
  by (auto simp: Wrapf_def Wrap_def replace_all_def errors_Is_refl go_split_Some[of "''{{err}}''" "''{{err}}''" "[]" "[]"]
      go_split_None[of "''{{err}}''" "[]" "[]"])

end
