(* ===== verification/Ws_Manager.thy ===== *)
theory Ws_Manager
  imports Go_Prelude
begin

section \<open>The WebSocket clients and their manager\<close>

text \<open>
  Models \<open>http_server/ws_client.go\<close> and \<open>http_server/ws_client_manager.go\<close>. Client objects live in a heap and
  are named by their address; the manager's maps hold addresses and session ids as the code's maps
  do. The channels of the manager are unbuffered, so a send takes effect when the loop of \<open>Start\<close>
  receives it: \<open>select_send\<close> lists what a sender's \<open>select\<close> may do, nothing being a sender that blocks.
  The connection of gorilla/websocket is a parameter: what its calls answer is an argument.
\<close>

subsection \<open>Clients\<close>

record Client =
  cl_sessionId :: string
  cl_userId :: string
  cl_send :: "string list"
  cl_closed :: bool
  cl_conn_open :: bool

definition send_capacity :: nat where "send_capacity = 1024"

definition NewClient :: "string \<Rightarrow> string \<Rightarrow> Client" where
  "NewClient userId sessionId =
     \<lparr>cl_sessionId = sessionId, cl_userId = userId, cl_send = [], cl_closed = False, cl_conn_open = True\<rparr>"

definition GetSessionID :: "Client \<Rightarrow> string" where "GetSessionID c = cl_sessionId c"
definition GetUserID :: "Client \<Rightarrow> string" where "GetUserID c = cl_userId c"

text \<open>A closed client drops the message; a full buffer drops it too.\<close>

definition Client_Send :: "string \<Rightarrow> Client \<Rightarrow> Client" where
  "Client_Send message c =
     (if cl_closed c then c
      else if length (cl_send c) < send_capacity then c\<lparr>cl_send := cl_send c @ [message]\<rparr>
      else c)"

text \<open>\<open>closeOnce\<close>: the error of the connection is seen by the first caller only.\<close>

definition Client_Close :: "'e option \<Rightarrow> Client \<Rightarrow> 'e option \<times> Client" where
  "Client_Close conn_err c =
     (if cl_closed c then (None, c) else (conn_err, c\<lparr>cl_closed := True, cl_conn_open := False\<rparr>))"

definition closed_client :: "Client \<Rightarrow> Client" where
  "closed_client c = snd (Client_Close (None :: unit option) c)"

text \<open>One round of the loop of \<open>SendMessage\<close>: the case its \<open>select\<close> takes, with what the connection
  answers. The result is \<^term>\<open>None\<close> when the loop goes on, and otherwise the error it returns; the
  deferred function closes the connection then.\<close>

datatype 'e writer_case = TakeMessage "'e option" | TakeTick "'e option" | TakeClosed

fun writer_enabled :: "'e writer_case \<Rightarrow> Client \<Rightarrow> bool" where
  "writer_enabled (TakeMessage _) c = (cl_send c \<noteq> [])"
| "writer_enabled (TakeTick _) c = True"
| "writer_enabled TakeClosed c = cl_closed c"

fun SendMessage_round :: "'e writer_case \<Rightarrow> Client \<Rightarrow> string list \<times> 'e option option \<times> Client" where
  "SendMessage_round (TakeMessage err) c =
     (let message = hd (cl_send c); c = c\<lparr>cl_send := tl (cl_send c)\<rparr>
      in case err of
           Some e \<Rightarrow> ([], Some (Some e), c\<lparr>cl_conn_open := False\<rparr>)
         | None \<Rightarrow> ([message], None, c))"
| "SendMessage_round (TakeTick err) c =
     (case err of Some _ \<Rightarrow> ([], Some None, c\<lparr>cl_conn_open := False\<rparr>) | None \<Rightarrow> ([], None, c))"
| "SendMessage_round TakeClosed c = ([], Some None, c\<lparr>cl_conn_open := False\<rparr>)"

text \<open>One round of the reading loop: a read error leaves it; an empty frame, an undecodable one and
  one whose handler fails are skipped; an answer is queued.\<close>

definition ReceivedMessage_round ::
  "('x option) \<Rightarrow> (string \<Rightarrow> 'm option) \<Rightarrow> ('m \<Rightarrow> string option) \<Rightarrow> string \<Rightarrow> Client \<Rightarrow> bool \<times> Client" where
  "ReceivedMessage_round read_err decode handle_message msg c =
     (case read_err of
        Some _ \<Rightarrow> (False, c)
      | None \<Rightarrow>
          if msg = '''' then (True, c)
          else (case decode msg of
                  None \<Rightarrow> (True, c)
                | Some message \<Rightarrow>
                    (case handle_message message of
                       None \<Rightarrow> (True, c)
                     | Some resultMsg \<Rightarrow> (True, Client_Send resultMsg c))))"

subsection \<open>The manager\<close>

record ClientManager =
  cm_clients :: "string \<rightharpoonup> nat"
  cm_userIdMap :: "string \<rightharpoonup> string"
  cm_heap :: "nat \<Rightarrow> Client"
  cm_started :: bool
  cm_looping :: bool
  cm_stopped :: bool

definition NewClientManager :: "(nat \<Rightarrow> Client) \<Rightarrow> ClientManager" where
  "NewClientManager heap = \<lparr>cm_clients = Map.empty, cm_userIdMap = Map.empty, cm_heap = heap,
     cm_started = False, cm_looping = False, cm_stopped = False\<rparr>"

text \<open>\<open>Start\<close> up to its loop: closing the start channel a second time panics.\<close>

definition Start_enter :: "ClientManager \<Rightarrow> ClientManager outcome" where
  "Start_enter m = (if cm_started m then Panicked else Returned (m\<lparr>cm_started := True, cm_looping := True\<rparr>))"

abbreviation on_client :: "(Client \<Rightarrow> Client) \<Rightarrow> nat \<Rightarrow> ClientManager \<Rightarrow> ClientManager" where
  "on_client f c m \<equiv> m\<lparr>cm_heap := (cm_heap m)(c := f (cm_heap m c))\<rparr>"

text \<open>The loop over all clients of the map.\<close>

definition for_all_clients :: "(Client \<Rightarrow> Client) \<Rightarrow> ClientManager \<Rightarrow> ClientManager" where
  "for_all_clients f m = m\<lparr>cm_heap := (\<lambda>c. if c \<in> ran (cm_clients m) then f (cm_heap m c) else cm_heap m c)\<rparr>"

text \<open>The cases of the loop of \<open>Start\<close>.\<close>

definition loop_register :: "nat \<Rightarrow> ClientManager \<Rightarrow> ClientManager" where
  "loop_register c m =
     (let cl = cm_heap m c
      in m\<lparr>cm_clients := (cm_clients m)(cl_sessionId cl \<mapsto> c),
           cm_userIdMap := (cm_userIdMap m)(cl_userId cl \<mapsto> cl_sessionId cl)\<rparr>)"

definition loop_unregister :: "nat \<Rightarrow> ClientManager \<Rightarrow> ClientManager" where
  "loop_unregister c m =
     (let sid = cl_sessionId (cm_heap m c)
      in case cm_clients m sid of
           None \<Rightarrow> m
         | Some _ \<Rightarrow> (on_client closed_client c m)\<lparr>cm_clients := (cm_clients m)(sid := None)\<rparr>)"

definition loop_broadcast :: "string \<Rightarrow> ClientManager \<Rightarrow> ClientManager" where
  "loop_broadcast message m = for_all_clients (Client_Send message) m"

definition shutdownClients :: "ClientManager \<Rightarrow> ClientManager" where
  "shutdownClients m =
     (let m' = for_all_clients closed_client m
      in m'\<lparr>cm_clients := Map.empty,
            cm_userIdMap := (\<lambda>u. if \<exists>c \<in> ran (cm_clients m). cl_userId (cm_heap m c) = u then None
                                  else cm_userIdMap m u)\<rparr>)"

definition loop_stop :: "ClientManager \<Rightarrow> ClientManager" where
  "loop_stop m = (shutdownClients m)\<lparr>cm_looping := False\<rparr>"

text \<open>A sender's \<open>select\<close> between the stop channel and a channel the loop receives from.\<close>

definition select_send :: "(ClientManager \<Rightarrow> ClientManager) \<Rightarrow> ClientManager \<Rightarrow> ClientManager list" where
  "select_send received m =
     (if cm_stopped m then [m] else []) @ (if cm_looping m then [received m] else [])"

definition RegisterClient :: "nat \<Rightarrow> ClientManager \<Rightarrow> ClientManager list" where
  "RegisterClient c m = select_send (loop_register c) m"

definition UnregisterClient :: "nat \<Rightarrow> ClientManager \<Rightarrow> ClientManager list" where
  "UnregisterClient c m = select_send (loop_unregister c) m"

definition BroadcastMessage :: "string \<Rightarrow> ClientManager \<Rightarrow> ClientManager list" where
  "BroadcastMessage message m = select_send (loop_broadcast message) m"

definition ClientKeepLive :: "ClientManager \<Rightarrow> ClientManager" where
  "ClientKeepLive m = for_all_clients (Client_Send ''keepalive'') m"

definition ClientCount :: "ClientManager \<Rightarrow> nat" where
  "ClientCount m = card (dom (cm_clients m))"

definition KickClientByUserId :: "string \<Rightarrow> ClientManager \<Rightarrow> ClientManager" where
  "KickClientByUserId userId m =
     (case cm_userIdMap m userId of
        None \<Rightarrow> m
      | Some sid \<Rightarrow>
          (case cm_clients m sid of
             None \<Rightarrow> m
           | Some c \<Rightarrow> (on_client closed_client c m)
               \<lparr>cm_clients := (cm_clients m)(sid := None), cm_userIdMap := (cm_userIdMap m)(userId := None)\<rparr>))"

definition KickClientBySessionId :: "string \<Rightarrow> ClientManager \<Rightarrow> ClientManager" where
  "KickClientBySessionId sid m =
     (case cm_clients m sid of
        None \<Rightarrow> m
      | Some c \<Rightarrow> (on_client closed_client c m)
          \<lparr>cm_clients := (cm_clients m)(sid := None),
           cm_userIdMap := (cm_userIdMap m)(cl_userId (cm_heap m c) := None)\<rparr>)"

definition Manager_Stop :: "ClientManager \<Rightarrow> ClientManager" where
  "Manager_Stop m = shutdownClients (m\<lparr>cm_stopped := True\<rparr>)"

subsection \<open>Executions\<close>

text \<open>One rule per operation that callers or the loop perform; clients also close by themselves.\<close>

inductive ws_step :: "ClientManager \<Rightarrow> ClientManager \<Rightarrow> bool" where
  start: "Start_enter m = Returned m' \<Longrightarrow> ws_step m m'"
| register: "m' \<in> set (RegisterClient c m) \<Longrightarrow> ws_step m m'"
| unregister: "m' \<in> set (UnregisterClient c m) \<Longrightarrow> ws_step m m'"
| broadcast: "m' \<in> set (BroadcastMessage msg m) \<Longrightarrow> ws_step m m'"
| loop_stop: "cm_looping m \<Longrightarrow> cm_stopped m \<Longrightarrow> ws_step m (loop_stop m)"
| keep_live: "ws_step m (ClientKeepLive m)"
| kick_user: "ws_step m (KickClientByUserId u m)"
| kick_session: "ws_step m (KickClientBySessionId sid m)"
| stop: "ws_step m (Manager_Stop m)"
| client_close: "ws_step m (on_client closed_client c m)"
| client_send: "ws_step m (on_client (Client_Send msg) c m)"

inductive ws_reach :: "ClientManager \<Rightarrow> ClientManager \<Rightarrow> bool" where
  start: "ws_reach m m"
| step: "ws_reach m m' \<Longrightarrow> ws_step m' m'' \<Longrightarrow> ws_reach m m''"

section \<open>Lemmas\<close>

lemma closed_client_fields [simp]:
  "cl_sessionId (closed_client c) = cl_sessionId c" "cl_userId (closed_client c) = cl_userId c"
  "cl_closed (closed_client c)" "cl_send (closed_client c) = cl_send c"
  by (auto simp: closed_client_def Client_Close_def)

lemma Client_Send_fields [simp]:
  "cl_sessionId (Client_Send x c) = cl_sessionId c" "cl_userId (Client_Send x c) = cl_userId c"
  "cl_closed (Client_Send x c) = cl_closed c"
  by (auto simp: Client_Send_def)

lemma Client_Close_once:
  "Client_Close e1 c = (r1, c1) \<Longrightarrow> Client_Close e2 c1 = (r2, c2) \<Longrightarrow> r2 = None \<and> c2 = c1"
  by (auto simp: Client_Close_def split: if_splits)

lemmas ws_ops = Start_enter_def RegisterClient_def UnregisterClient_def BroadcastMessage_def select_send_def
  loop_register_def loop_unregister_def loop_broadcast_def loop_stop_def shutdownClients_def ClientKeepLive_def
  KickClientByUserId_def KickClientBySessionId_def Manager_Stop_def for_all_clients_def Let_def

text \<open>Every entry of the map is filed under its client's own session id, and the loop runs only
  after \<open>Start\<close>; after the loop has left, nothing is registered any more.\<close>

definition ws_inv :: "ClientManager \<Rightarrow> bool" where
  "ws_inv m \<longleftrightarrow> (\<forall>s c. cm_clients m s = Some c \<longrightarrow> cl_sessionId (cm_heap m c) = s) \<and>
     (cm_looping m \<longrightarrow> cm_started m) \<and> (\<not> cm_looping m \<longrightarrow> cm_clients m = Map.empty)"

lemma ws_inv_new: "ws_inv (NewClientManager h)"
  by (simp add: ws_inv_def NewClientManager_def)

lemma ws_inv_step [inv_intros]:
  assumes "ws_step m m'" "ws_inv m"
  shows "ws_inv m'"
  using assms
  by (cases rule: ws_step.cases) (auto simp: ws_inv_def ws_ops split: if_splits option.splits)

lemma ws_inv_reach: "ws_reach m m' \<Longrightarrow> ws_inv m \<Longrightarrow> ws_inv m'"
  by (induction rule: ws_reach.induct) (auto intro: inv_intros)

lemma ws_inv_ran: "ws_inv m \<Longrightarrow> c \<in> ran (cm_clients m) \<longleftrightarrow> cm_clients m (cl_sessionId (cm_heap m c)) = Some c"
  by (auto simp: ws_inv_def ran_def)

lemma ws_step_sessions: "ws_step m m' \<Longrightarrow> cl_sessionId (cm_heap m' c) = cl_sessionId (cm_heap m c)"
  by (cases rule: ws_step.cases) (auto simp: ws_ops split: if_splits option.splits)

lemma ws_reach_sessions: "ws_reach m m' \<Longrightarrow> cl_sessionId (cm_heap m' c) = cl_sessionId (cm_heap m c)"
  by (induction rule: ws_reach.induct) (simp_all add: ws_step_sessions)

text \<open>With distinct session ids, an entry that leaves the map belongs to the client the step closes.\<close>

lemma removed_closed:
  assumes "ws_step m m'" "ws_inv m" "inj (\<lambda>c. cl_sessionId (cm_heap m c))"
    "c \<in> ran (cm_clients m)" "c \<notin> ran (cm_clients m')"
  shows "cl_closed (cm_heap m' c)"
proof -
  let ?s = "cl_sessionId (cm_heap m c)"
  have c: "cm_clients m ?s = Some c" using assms(2,4) ws_inv_ran by blast
  have s: "cl_sessionId (cm_heap m d) = ?s \<longleftrightarrow> d = c" for d using assms(3) by (auto dest: injD)
  have k: "d = c" if "cm_clients m s = Some d" "s = ?s" for s d using that c by simp
  have gone: "cm_clients m' ?s \<noteq> Some c" using assms(5) by (auto simp: ran_def)
  show ?thesis using assms(1)
  proof cases
    case (unregister d)
    with c s[of d] gone show ?thesis by (auto simp: ws_ops split: if_splits option.splits)
  next
    case (register d)
    with c s[of d] gone show ?thesis by (auto simp: ws_ops split: if_splits)
  next
    case (kick_user u)
    with c gone show ?thesis by (auto simp: ws_ops split: if_splits option.splits)
  next
    case (kick_session sid)
    with c gone show ?thesis by (auto simp: ws_ops split: if_splits option.splits)
  qed (use assms(4) c gone in \<open>auto simp: ws_ops split: if_splits\<close>)
qed

definition stopped_for_good :: "ClientManager \<Rightarrow> bool" where
  "stopped_for_good m \<longleftrightarrow> cm_started m \<and> cm_stopped m \<and> \<not> cm_looping m \<and> cm_clients m = Map.empty"

lemma stopped_step: "ws_step m m' \<Longrightarrow> stopped_for_good m \<Longrightarrow> stopped_for_good m'"
  by (cases rule: ws_step.cases) (auto simp: stopped_for_good_def ws_ops split: if_splits option.splits)

lemma stopped_reach: "ws_reach m m' \<Longrightarrow> stopped_for_good m \<Longrightarrow> stopped_for_good m'"
  by (induction rule: ws_reach.induct) (auto intro: stopped_step)

section \<open>Properties\<close>


definition two_clients :: "nat \<Rightarrow> Client" where
  "two_clients c = NewClient (if c = 0 then ''alice'' else ''bob'') (replicate (Suc c) (CHR ''s''))"

definition one_registered :: ClientManager where
  "one_registered = loop_register 0 ((NewClientManager two_clients)\<lparr>cm_started := True, cm_looping := True\<rparr>)"

lemma one_registered_reach: "ws_reach (NewClientManager two_clients) one_registered"
proof -
  let ?m = "(NewClientManager two_clients)\<lparr>cm_started := True, cm_looping := True\<rparr>"
  have "ws_step (NewClientManager two_clients) ?m"
    by (rule ws_step.start) (simp add: Start_enter_def NewClientManager_def)
  moreover have "ws_step ?m one_registered"
    by (rule ws_step.register[of _ 0]) (simp add: RegisterClient_def select_send_def one_registered_def)
  ultimately show ?thesis using ws_reach.intros by blast
qed

lemma one_registered_clients: "cm_clients one_registered = [''s'' \<mapsto> 0]" "cm_heap one_registered = two_clients"
  by (simp_all add: one_registered_def loop_register_def NewClientManager_def two_clients_def NewClient_def Let_def)


text \<open>Stopping is final: \<open>Stop\<close> closes every registered client and empties the registry; once the
  loop has left, whatever is called afterwards the registry stays empty, and registering,
  unregistering and broadcasting return at once without any effect.\<close>

theorem stop_is_final:
  assumes "ws_reach (NewClientManager h) m" "cm_started m" "cm_stopped m" "\<not> cm_looping m" "ws_reach m m'"
  shows "cm_clients m' = Map.empty \<and> RegisterClient c m' = [m'] \<and> UnregisterClient c m' = [m'] \<and>
    BroadcastMessage msg m' = [m'] \<and>
    (\<forall>m0 d. d \<in> ran (cm_clients m0) \<longrightarrow>
       cl_closed (cm_heap (Manager_Stop m0) d) \<and> cm_clients (Manager_Stop m0) = Map.empty)"
proof -
  have "cm_clients m = Map.empty" using ws_inv_reach[OF assms(1) ws_inv_new] assms(4) by (simp add: ws_inv_def)
  then have "stopped_for_good m'" using assms(2-5) stopped_reach by (simp add: stopped_for_good_def)
  then show ?thesis by (simp add: stopped_for_good_def ws_ops)
qed

theorem stop_is_final_witness:
  "cm_clients (loop_stop (Manager_Stop one_registered)) = Map.empty \<and>
   RegisterClient 1 (loop_stop (Manager_Stop one_registered)) = [loop_stop (Manager_Stop one_registered)]"
proof -
  let ?m = "loop_stop (Manager_Stop one_registered)"
  have f: "cm_looping one_registered" "cm_started one_registered"
    by (simp_all add: one_registered_def loop_register_def Let_def)
  have "ws_step one_registered (Manager_Stop one_registered)" by (rule ws_step.stop)
  moreover have "ws_step (Manager_Stop one_registered) ?m"
    by (rule ws_step.loop_stop) (use f in \<open>simp_all add: Manager_Stop_def shutdownClients_def for_all_clients_def Let_def\<close>)
  ultimately have "ws_reach (NewClientManager two_clients) ?m" using one_registered_reach ws_reach.step by metis
  from stop_is_final[OF this _ _ _ ws_reach.start, of 1] f show ?thesis
    by (simp add: loop_stop_def Manager_Stop_def shutdownClients_def for_all_clients_def Let_def)
qed

text \<open>A broadcast reaches exactly the registered clients: each open one with room in its buffer
  has the message appended once, in order; every other client and the registry are unchanged.\<close>

theorem broadcast_delivery:
  "cm_clients (loop_broadcast msg m) = cm_clients m \<and>
   cm_heap (loop_broadcast msg m) c =
     (if c \<in> ran (cm_clients m) \<and> \<not> cl_closed (cm_heap m c) \<and> length (cl_send (cm_heap m c)) < send_capacity
      then (cm_heap m c)\<lparr>cl_send := cl_send (cm_heap m c) @ [msg]\<rparr> else cm_heap m c)"
  by (auto simp: loop_broadcast_def for_all_clients_def Client_Send_def)

text \<open>Kicking a user by id reaches the client registered last for it; but when a user holds two
  sessions, kicking the older session by its id removes the user's entry for the newer one: a later
  kick of the user then does nothing, and the newer client stays registered and open.\<close>

theorem kick_old_session_hides_user:
  assumes "cm_looping m" "c \<noteq> d" "cl_userId (cm_heap m c) = u" "cl_userId (cm_heap m d) = u"
    "cl_sessionId (cm_heap m c) \<noteq> cl_sessionId (cm_heap m d)" "\<not> cl_closed (cm_heap m d)"
  defines "m2 \<equiv> loop_register d (loop_register c m)"
  defines "m3 \<equiv> KickClientBySessionId (cl_sessionId (cm_heap m c)) m2"
  shows "cl_closed (cm_heap (KickClientByUserId u m2) d) \<and> KickClientByUserId u m3 = m3 \<and>
    cm_clients m3 (cl_sessionId (cm_heap m d)) = Some d \<and> \<not> cl_closed (cm_heap m3 d)"
  using assms(1-6) by (auto simp: m2_def m3_def ws_ops)

theorem kick_old_session_hides_user_witness:
  "\<exists>m. cm_clients m ''s2'' = Some 1 \<and> \<not> cl_closed (cm_heap m 1) \<and> KickClientByUserId ''alice'' m = m"
proof -
  let ?h = "\<lambda>n :: nat. NewClient ''alice'' (if n = 0 then ''s1'' else ''s2'')"
  let ?m = "(NewClientManager ?h)\<lparr>cm_started := True, cm_looping := True\<rparr>"
  show ?thesis
    using kick_old_session_hides_user[of ?m 0 1 "''alice''"] by (auto simp: NewClient_def NewClientManager_def)
qed

text \<open>Unregistering acts on the session id, not on the client: when a reconnect has replaced the
  client of a session, the late unregistration of the old client closes the old one again and takes
  the new one out of the registry, open and out of reach of every kick and broadcast.\<close>

theorem late_unregister_drops_successor:
  assumes "c \<noteq> d" "cl_sessionId (cm_heap m c) = sid" "cm_clients m sid = Some d" "\<not> cl_closed (cm_heap m d)"
  shows "cm_clients (loop_unregister c m) sid = None \<and> \<not> cl_closed (cm_heap (loop_unregister c m) d)"
  using assms by (simp add: loop_unregister_def Let_def)

theorem late_unregister_drops_successor_witness:
  "\<exists>m. cm_clients m ''s'' = Some 1 \<and> cm_clients (loop_unregister 0 m) ''s'' = None \<and>
     \<not> cl_closed (cm_heap (loop_unregister 0 m) 1)"
proof -
  let ?m = "(NewClientManager (\<lambda>n. NewClient ''alice'' ''s''))\<lparr>cm_clients := [''s'' \<mapsto> 1]\<rparr>"
  show ?thesis
    by (intro exI[of _ ?m]) (use late_unregister_drops_successor[of 0 1 ?m "''s''"] in
        \<open>simp add: NewClient_def NewClientManager_def\<close>)
qed

end
