(* ===== verification/Gateway.thy ===== *)
theory Gateway
  imports Go_Prelude
begin

section \<open>The APISIX gateway\<close>

text \<open>
  Models \<open>register/gateway.go\<close>, \<open>register/apisix.go\<close> and \<open>register/apisix_leader.go\<close>. The APISIX admin server is a
  parameter: \<open>send\<close> performs one HTTP request on an abstract state \<open>'s\<close> and answers a transport error
  or a status code with a body. Kubernetes and its leader election are parameters too: what
  \<open>InClusterConfig\<close> and \<open>NewForConfig\<close> answer, and the value of the leader flag when the election has
  run out. Errors are their texts; the outer \<open>option\<close> of a definition is the panic on a nil upstream.
\<close>

datatype json = JString string | JInt int | JList "json list" | JObject "(string \<times> json) list"

record GatewayUpstream =
  gu_Type :: string
  gu_Nodes :: "(string \<times> int) list"
  gu_Scheme :: string

record GatewayRoute =
  gr_Name :: string
  gr_URI :: string
  gr_Methods :: "string list"
  gr_Upstream :: "GatewayUpstream option"

record GatewayService =
  gs_ID :: string
  gs_Name :: string
  gs_Upstream :: "GatewayUpstream option"
  gs_Routes :: "GatewayRoute list"

record ApisixConfig =
  ac_AdminURL :: string
  ac_APIKey :: string
  ac_Timeout :: int
  ac_RegisterMode :: string
  ac_DeregisterOnShutdown :: "bool option"
  ac_LeaderLeaseName :: string
  ac_LeaderLeaseNamespace :: string
  ac_LeaderIdentity :: string
  ac_LeaseDurationSeconds :: int
  ac_RenewDeadlineSeconds :: int
  ac_RetryPeriodSeconds :: int
  ac_ReconcileIntervalSeconds :: int

record apisixLeaderController =
  lc_service :: GatewayService
  lc_leaseName :: string
  lc_leaseNamespace :: string
  lc_identity :: string
  lc_leaseDuration :: duration
  lc_renewDeadline :: duration
  lc_retryPeriod :: duration
  lc_reconcileInterval :: duration
  lc_started :: bool
  lc_isLeader :: bool

record ApisixGateway =
  ag_config :: ApisixConfig
  ag_timeout :: duration
  ag_routeIDs :: "string \<rightharpoonup> string list"
  ag_controllers :: "string \<rightharpoonup> apisixLeaderController"

text \<open>\<open>parsed\<close> is what decoding the configuration bytes answers; \<^term>\<open>None\<close> panics.\<close>

definition NewApisixGateway :: "ApisixConfig option \<Rightarrow> (string + ApisixGateway) outcome" where
  "NewApisixGateway parsed =
     (case parsed of
        None \<Rightarrow> Panicked
      | Some config \<Rightarrow>
          if ac_AdminURL config = '''' then Returned (Inl ''apisix admin_url is required'')
          else let timeout = (if ac_Timeout config > 0 then ac_Timeout config else 5)
               in Returned (Inr \<lparr>ag_config = config, ag_timeout = duration_of timeout Second,
                    ag_routeIDs = Map.empty, ag_controllers = Map.empty\<rparr>))"

definition registerMode :: "ApisixGateway \<Rightarrow> string" where
  "registerMode a =
     (let mode = ac_RegisterMode (ag_config a)
      in if mode = '''' then ''single''
         else if mode = ''off'' \<or> mode = ''single'' \<or> mode = ''leader'' then mode
         else ''single'')"

definition shouldDeregisterOnShutdown :: "ApisixGateway \<Rightarrow> bool" where
  "shouldDeregisterOnShutdown a =
     (case ac_DeregisterOnShutdown (ag_config a) of
        Some b \<Rightarrow> b
      | None \<Rightarrow> if registerMode a = ''leader'' then False else True)"

subsection \<open>Requests\<close>

record http_request =
  rq_method :: string
  rq_url :: string
  rq_headers :: "(string \<times> string) list"
  rq_body :: "json option"

type_synonym 's transport = "http_request \<Rightarrow> 's \<Rightarrow> (string + int \<times> string) \<times> 's"

definition resource_url :: "ApisixGateway \<Rightarrow> string \<Rightarrow> string \<Rightarrow> string" where
  "resource_url a resource i = ac_AdminURL (ag_config a) @ ''/apisix/admin/'' @ resource @ ''/'' @ i"

definition key_header :: "ApisixGateway \<Rightarrow> (string \<times> string) list" where
  "key_header a = (if ac_APIKey (ag_config a) \<noteq> '''' then [(''X-API-KEY'', ac_APIKey (ag_config a))] else [])"

definition putResource :: "'s transport \<Rightarrow> ApisixGateway \<Rightarrow> string \<Rightarrow> string \<Rightarrow> json \<Rightarrow> 's \<Rightarrow> string option \<times> 's" where
  "putResource send a resource i body s =
     (let req = \<lparr>rq_method = ''PUT'', rq_url = resource_url a resource i,
            rq_headers = [(''Content-Type'', ''application/json'')] @ key_header a, rq_body = Some body\<rparr>;
          (resp, s) = send req s
      in case resp of
           Inl e \<Rightarrow> (Some e, s)
         | Inr (code, respBody) \<Rightarrow>
             if code \<noteq> 200 \<and> code \<noteq> 201
             then (Some (''apisix PUT '' @ resource @ ''/'' @ i @ '' returned '' @ itoa code @ '': '' @ respBody), s)
             else (None, s))"

definition deleteResource :: "'s transport \<Rightarrow> ApisixGateway \<Rightarrow> string \<Rightarrow> string \<Rightarrow> 's \<Rightarrow> string option \<times> 's" where
  "deleteResource send a resource i s =
     (let req = \<lparr>rq_method = ''DELETE'', rq_url = resource_url a resource i, rq_headers = key_header a, rq_body = None\<rparr>;
          (resp, s) = send req s
      in case resp of
           Inl e \<Rightarrow> (Some e, s)
         | Inr (code, respBody) \<Rightarrow>
             if code \<noteq> 200 \<and> code \<noteq> 204
             then (Some (''apisix DELETE '' @ resource @ ''/'' @ i @ '' returned '' @ itoa code @ '': '' @ respBody), s)
             else (None, s))"

subsection \<open>Registration\<close>

definition normalizeRouteURI :: "string \<Rightarrow> string" where
  "normalizeRouteURI uri =
     (if has_suffix uri ''*'' \<and> \<not> has_suffix uri ''/*'' then trim_suffix uri ''*'' @ ''/*'' else uri)"

definition toUpstreamBody :: "GatewayUpstream \<Rightarrow> string \<Rightarrow> json" where
  "toUpstreamBody upstream name = JObject (
     [(''type'', JString (gu_Type upstream)),
      (''nodes'', JObject (map (\<lambda>(n, w). (n, JInt w)) (gu_Nodes upstream))),
      (''name'', JString name)] @
     (if gu_Scheme upstream \<noteq> '''' then [(''scheme'', JString (gu_Scheme upstream))] else []))"

definition route_id :: "string \<Rightarrow> nat \<Rightarrow> string" where
  "route_id svcID i = svcID @ ''-route-'' @ itoa (int i)"

definition route_body :: "string \<Rightarrow> GatewayRoute \<Rightarrow> json" where
  "route_body upstreamID route = JObject (
     [(''uri'', JString (normalizeRouteURI (gr_URI route))), (''name'', JString (gr_Name route)), (''status'', JInt 1)] @
     (case gr_Upstream route of
        Some u \<Rightarrow> [(''upstream'', toUpstreamBody u (gr_Name route))]
      | None \<Rightarrow> [(''upstream_id'', JString upstreamID)]) @
     (if length (gr_Methods route) > 0 then [(''methods'', JList (map JString (gr_Methods route)))] else []))"

fun register_routes ::
  "'s transport \<Rightarrow> string \<Rightarrow> nat \<Rightarrow> GatewayRoute list \<Rightarrow> string list \<Rightarrow> ApisixGateway \<Rightarrow> 's \<Rightarrow>
     string list \<times> ApisixGateway \<times> 's" where
  "register_routes send svcID i [] errs a s = (errs, a, s)"
| "register_routes send svcID i (route # routes) errs a s =
     (let routeID = route_id svcID i;
          (err, s) = putResource send a ''routes'' routeID (route_body svcID route) s
      in case err of
           Some e \<Rightarrow> register_routes send svcID (Suc i) routes (errs @ [routeID @ '': '' @ e]) a s
         | None \<Rightarrow>
             let known = (case ag_routeIDs a svcID of None \<Rightarrow> [] | Some rs \<Rightarrow> rs)
             in register_routes send svcID (Suc i) routes errs
                  (a\<lparr>ag_routeIDs := (ag_routeIDs a)(svcID \<mapsto> known @ [routeID])\<rparr>) s)"

definition registerServiceDirect ::
  "'s transport \<Rightarrow> GatewayService \<Rightarrow> ApisixGateway \<Rightarrow> 's \<Rightarrow> (string option \<times> ApisixGateway \<times> 's) option" where
  "registerServiceDirect send svc a s = do {
     upstream \<leftarrow> gs_Upstream svc;
     let (err, s) = putResource send a ''upstreams'' (gs_ID svc) (toUpstreamBody upstream (gs_Name svc)) s;
     case err of
       Some e \<Rightarrow> Some (Some (''create upstream failed: '' @ e), a, s)
     | None \<Rightarrow>
         (let a = a\<lparr>ag_routeIDs := (ag_routeIDs a)(gs_ID svc \<mapsto> [])\<rparr>;
              (routeErrs, a, s) = register_routes send (gs_ID svc) 0 (gs_Routes svc) [] a s
          in if length routeErrs > 0
             then Some (Some (''create routes partial failed for '' @ gs_ID svc @ '': '' @ go_join ''; '' routeErrs), a, s)
             else Some (None, a, s)) }"

fun delete_routes :: "'s transport \<Rightarrow> ApisixGateway \<Rightarrow> string list \<Rightarrow> 's \<Rightarrow> string option \<times> 's" where
  "delete_routes send a [] s = (None, s)"
| "delete_routes send a (routeID # routeIDs) s =
     (let (err, s) = deleteResource send a ''routes'' routeID s
      in case err of
           Some e \<Rightarrow> (Some (''delete route '' @ routeID @ '' failed: '' @ e), s)
         | None \<Rightarrow> delete_routes send a routeIDs s)"

definition deregisterServiceDirect ::
  "'s transport \<Rightarrow> string \<Rightarrow> ApisixGateway \<Rightarrow> 's \<Rightarrow> string option \<times> ApisixGateway \<times> 's" where
  "deregisterServiceDirect send serviceID a s =
     (let routeIDs = (case ag_routeIDs a serviceID of None \<Rightarrow> [] | Some rs \<Rightarrow> rs);
          a = a\<lparr>ag_routeIDs := (ag_routeIDs a)(serviceID := None)\<rparr>;
          (err, s) = delete_routes send a routeIDs s
      in case err of
           Some e \<Rightarrow> (Some e, a, s)
         | None \<Rightarrow>
             (let (err, s) = deleteResource send a ''upstreams'' serviceID s
              in case err of
                   Some e \<Rightarrow> (Some (''delete upstream '' @ serviceID @ '' failed: '' @ e), a, s)
                 | None \<Rightarrow> (None, a, s)))"

subsection \<open>The leader controller\<close>

definition durationOrDefault :: "int \<Rightarrow> int \<Rightarrow> duration" where
  "durationOrDefault secs fallbackSeconds =
     duration_of (if secs \<le> 0 then fallbackSeconds else secs) Second"

text \<open>The environment variables, the namespace file and the host name are what the platform answers.\<close>

definition defaultLeaseNamespace :: "(string \<Rightarrow> string) \<Rightarrow> string option \<Rightarrow> string" where
  "defaultLeaseNamespace getenv file =
     (if trim_space (getenv ''POD_NAMESPACE'') \<noteq> '''' then trim_space (getenv ''POD_NAMESPACE'')
      else if trim_space (getenv ''NAMESPACE'') \<noteq> '''' then trim_space (getenv ''NAMESPACE'')
      else (case file of None \<Rightarrow> '''' | Some bytes \<Rightarrow> trim_space bytes))"

definition defaultLeaderIdentity :: "(string \<Rightarrow> string) \<Rightarrow> string option \<Rightarrow> string" where
  "defaultLeaderIdentity getenv hostname =
     (if trim_space (getenv ''POD_NAME'') \<noteq> '''' then trim_space (getenv ''POD_NAME'')
      else (case hostname of None \<Rightarrow> '''' | Some h \<Rightarrow> trim_space h))"

record platform =
  pf_getenv :: "string \<Rightarrow> string"
  pf_namespace_file :: "string option"
  pf_hostname :: "string option"
  pf_cluster :: "string option"

definition newApisixLeaderController ::
  "platform \<Rightarrow> ApisixGateway \<Rightarrow> GatewayService \<Rightarrow> string + apisixLeaderController" where
  "newApisixLeaderController pf gateway service =
     (let cfg = ag_config gateway;
          namespace = trim_space (ac_LeaderLeaseNamespace cfg);
          namespace = (if namespace = '''' then defaultLeaseNamespace (pf_getenv pf) (pf_namespace_file pf) else namespace)
      in if namespace = '''' then Inl ''leader mode requires lease namespace (set leader_lease_namespace or POD_NAMESPACE)''
         else
           let leaseName = trim_space (ac_LeaderLeaseName cfg);
               leaseName = (if leaseName = '''' then gs_ID service @ ''-apisix-lock'' else leaseName);
               identity = trim_space (ac_LeaderIdentity cfg);
               identity = (if identity = '''' then defaultLeaderIdentity (pf_getenv pf) (pf_hostname pf) else identity)
           in if identity = '''' then Inl ''leader mode requires identity (set leader_identity or POD_NAME)''
              else Inr \<lparr>lc_service = service, lc_leaseName = leaseName, lc_leaseNamespace = namespace, lc_identity = identity,
                     lc_leaseDuration = durationOrDefault (ac_LeaseDurationSeconds cfg) 15,
                     lc_renewDeadline = durationOrDefault (ac_RenewDeadlineSeconds cfg) 10,
                     lc_retryPeriod = durationOrDefault (ac_RetryPeriodSeconds cfg) 2,
                     lc_reconcileInterval = durationOrDefault (ac_ReconcileIntervalSeconds cfg) 30,
                     lc_started = False, lc_isLeader = False\<rparr>)"

text \<open>\<open>pf_cluster\<close> is the error of the in-cluster configuration or of creating the client, if any.\<close>

definition controller_Start :: "platform \<Rightarrow> apisixLeaderController \<Rightarrow> string option \<times> apisixLeaderController" where
  "controller_Start pf c =
     (if lc_started c then (None, c)
      else case pf_cluster pf of
             Some e \<Rightarrow> (Some e, c)
           | None \<Rightarrow> (None, c\<lparr>lc_started := True\<rparr>))"

text \<open>\<open>Stop\<close> cancels the election and waits for its end; \<open>flag_at_end\<close> is the leader flag then.\<close>

definition controller_Stop :: "(apisixLeaderController \<Rightarrow> bool) \<Rightarrow> apisixLeaderController \<Rightarrow> apisixLeaderController" where
  "controller_Stop flag_at_end c =
     (if \<not> lc_started c then c else c\<lparr>lc_started := False, lc_isLeader := flag_at_end c\<rparr>)"

definition IsLeader :: "apisixLeaderController \<Rightarrow> bool" where
  "IsLeader c = lc_isLeader c"

text \<open>The callback at the end of the election; the other events of its run are in \<open>Leader_Run\<close>.\<close>

definition OnStoppedLeading :: "apisixLeaderController \<Rightarrow> apisixLeaderController" where
  "OnStoppedLeading c = c\<lparr>lc_isLeader := False\<rparr>"

subsection \<open>The gateway's operations\<close>

definition registerServiceByLeader ::
  "platform \<Rightarrow> (apisixLeaderController \<Rightarrow> bool) \<Rightarrow> GatewayService \<Rightarrow> ApisixGateway \<Rightarrow> string option \<times> ApisixGateway" where
  "registerServiceByLeader pf flag_at_end svc a =
     (let a = (case ag_controllers a (gs_ID svc) of
            None \<Rightarrow> a
          | Some old \<Rightarrow> a\<lparr>ag_controllers := (ag_controllers a)(gs_ID svc \<mapsto> controller_Stop flag_at_end old)\<rparr>)
      in case newApisixLeaderController pf a svc of
           Inl e \<Rightarrow> (Some e, a)
         | Inr controller \<Rightarrow>
             (case controller_Start pf controller of
                (Some e, _) \<Rightarrow> (Some e, a)
              | (None, controller) \<Rightarrow>
                  (None, a\<lparr>ag_controllers := (ag_controllers a)(gs_ID svc \<mapsto> controller)\<rparr>)))"

definition RegisterService ::
  "'s transport \<Rightarrow> platform \<Rightarrow> (apisixLeaderController \<Rightarrow> bool) \<Rightarrow> GatewayService \<Rightarrow> ApisixGateway \<Rightarrow> 's \<Rightarrow>
     (string option \<times> ApisixGateway \<times> 's) option" where
  "RegisterService send pf flag_at_end svc a s =
     (if registerMode a = ''off'' then Some (None, a, s)
      else if registerMode a = ''leader''
      then (let (err, a) = registerServiceByLeader pf flag_at_end svc a in Some (err, a, s))
      else registerServiceDirect send svc a s)"

definition DeregisterService ::
  "'s transport \<Rightarrow> (apisixLeaderController \<Rightarrow> bool) \<Rightarrow> string \<Rightarrow> ApisixGateway \<Rightarrow> 's \<Rightarrow> string option \<times> ApisixGateway \<times> 's" where
  "DeregisterService send flag_at_end serviceID a s =
     (if registerMode a = ''off'' then (None, a, s)
      else if registerMode a = ''leader''
      then (let controller = ag_controllers a serviceID;
                a = a\<lparr>ag_controllers := (ag_controllers a)(serviceID := None)\<rparr>
            in case controller of
                 Some c \<Rightarrow>
                   (let c = controller_Stop flag_at_end c
                    in if \<not> shouldDeregisterOnShutdown a then (None, a, s)
                       else if \<not> IsLeader c then (None, a, s)
                       else if \<not> shouldDeregisterOnShutdown a then (None, a, s)
                       else deregisterServiceDirect send serviceID a s)
               | None \<Rightarrow>
                   if \<not> shouldDeregisterOnShutdown a then (None, a, s)
                   else deregisterServiceDirect send serviceID a s)
      else if \<not> shouldDeregisterOnShutdown a then (None, a, s)
      else deregisterServiceDirect send serviceID a s)"

definition Gateway_Close :: "ApisixGateway \<Rightarrow> string option \<times> ApisixGateway" where
  "Gateway_Close a = (None, a\<lparr>ag_controllers := Map.empty\<rparr>)"

section \<open>Lemmas\<close>

subsection \<open>URIs and resource names\<close>

lemma normalizeRouteURI_idem: "normalizeRouteURI (normalizeRouteURI u) = normalizeRouteURI u"
  by (auto simp: normalizeRouteURI_def has_suffix_def suffix_def)

lemma normalizeRouteURI_star: "has_suffix (normalizeRouteURI u) ''*'' \<Longrightarrow> has_suffix (normalizeRouteURI u) ''/*''"
  by (auto simp: normalizeRouteURI_def has_suffix_def suffix_def split: if_splits)

lemma route_id_inject: "route_id k i = route_id k j \<longleftrightarrow> i = j"
  by (simp add: route_id_def itoa_inject)

lemma resource_url_inject: "resource_url a r i = resource_url a r j \<longleftrightarrow> i = j"
  by (simp add: resource_url_def)

lemma route_url_not_upstream: "resource_url a ''routes'' i \<noteq> resource_url a ''upstreams'' j"
  by (simp add: resource_url_def)

lemma resource_url_config: "ag_config a = ag_config b \<Longrightarrow> resource_url a r i = resource_url b r i"
  by (simp add: resource_url_def)

subsection \<open>The admin server\<close>

text \<open>What the gateway relies on of the admin server: an accepted \<open>PUT\<close> stores the body under its URL,
  an accepted \<open>DELETE\<close> removes what is there, nothing else changes, and a request that fails has had
  either its effect or none.\<close>

definition admin_store :: "'s transport \<Rightarrow> ('s \<Rightarrow> string \<rightharpoonup> json) \<Rightarrow> bool" where
  "admin_store send stored \<longleftrightarrow> (\<forall>req s r s'. send req s = (r, s') \<longrightarrow>
     (\<forall>b. rq_method req = ''PUT'' \<longrightarrow> rq_body req = Some b \<longrightarrow>
        (let new = (stored s)(rq_url req \<mapsto> b)
         in if \<exists>t. r = Inr (200, t) \<or> r = Inr (201, t) then stored s' = new else stored s' = stored s \<or> stored s' = new)) \<and>
     (rq_method req = ''DELETE'' \<longrightarrow>
        (let new = (stored s)(rq_url req := None)
         in if \<exists>t. r = Inr (200, t) \<or> r = Inr (204, t) then stored s' = new else stored s' = stored s \<or> stored s' = new)))"

lemma putResource_stores:
  assumes "admin_store send stored" "putResource send a res i body s = (err, s')"
  shows "err = None \<Longrightarrow> stored s' = (stored s)(resource_url a res i \<mapsto> body)"
    "stored s' = stored s \<or> stored s' = (stored s)(resource_url a res i \<mapsto> body)"
proof -
  let ?req = "\<lparr>rq_method = ''PUT'', rq_url = resource_url a res i,
    rq_headers = [(''Content-Type'', ''application/json'')] @ key_header a, rq_body = Some body\<rparr>"
  obtain r s1 where r: "send ?req s = (r, s1)" by fastforce
  with assms(1) have st: "(let new = (stored s)(resource_url a res i \<mapsto> body)
      in if \<exists>t. r = Inr (200, t) \<or> r = Inr (201, t) then stored s1 = new else stored s1 = stored s \<or> stored s1 = new)"
    unfolding admin_store_def by (metis http_request.select_convs(1,2,4))
  have "s1 = s'" "err = None \<longrightarrow> (\<exists>t. r = Inr (200, t) \<or> r = Inr (201, t))"
    using assms(2) r by (auto simp: putResource_def Let_def split: sum.splits prod.splits if_splits)
  with st show "err = None \<Longrightarrow> stored s' = (stored s)(resource_url a res i \<mapsto> body)"
    "stored s' = stored s \<or> stored s' = (stored s)(resource_url a res i \<mapsto> body)"
    by (auto simp: Let_def split: if_splits)
qed

lemma deleteResource_removes:
  assumes "admin_store send stored" "deleteResource send a res i s = (err, s')"
  shows "err = None \<Longrightarrow> stored s' = (stored s)(resource_url a res i := None)"
    "stored s' = stored s \<or> stored s' = (stored s)(resource_url a res i := None)"
proof -
  let ?req = "\<lparr>rq_method = ''DELETE'', rq_url = resource_url a res i, rq_headers = key_header a, rq_body = None\<rparr>"
  obtain r s1 where r: "send ?req s = (r, s1)" by fastforce
  with assms(1) have st: "(let new = (stored s)(resource_url a res i := None)
      in if \<exists>t. r = Inr (200, t) \<or> r = Inr (204, t) then stored s1 = new else stored s1 = stored s \<or> stored s1 = new)"
    unfolding admin_store_def by (metis http_request.select_convs(1,2))
  have "s1 = s'" "err = None \<longrightarrow> (\<exists>t. r = Inr (200, t) \<or> r = Inr (204, t))"
    using assms(2) r by (auto simp: deleteResource_def Let_def split: sum.splits prod.splits if_splits)
  with st show "err = None \<Longrightarrow> stored s' = (stored s)(resource_url a res i := None)"
    "stored s' = stored s \<or> stored s' = (stored s)(resource_url a res i := None)"
    by (auto simp: Let_def split: if_splits)
qed

subsection \<open>Registration\<close>

abbreviation known_routes :: "ApisixGateway \<Rightarrow> string \<Rightarrow> string list" where
  "known_routes a k \<equiv> (case ag_routeIDs a k of None \<Rightarrow> [] | Some rs \<Rightarrow> rs)"

lemma register_routes_errs:
  "register_routes send k i routes errs a s = (errs', a', s') \<Longrightarrow> errs \<noteq> [] \<Longrightarrow> errs' \<noteq> []"
  by (induction routes arbitrary: i errs a s) (auto simp: Let_def split: prod.splits option.splits)

lemma register_routes_stores:
  assumes "admin_store send stored"
  shows "register_routes send k i routes [] a s = ([], a', s') \<Longrightarrow>
    ag_config a' = ag_config a \<and>
    known_routes a' k = known_routes a k @ map (route_id k) [i..<i + length routes] \<and>
    (\<forall>j < length routes. stored s' (resource_url a ''routes'' (route_id k (i + j))) = Some (route_body k (routes ! j))) \<and>
    (\<forall>u. (\<forall>j < length routes. u \<noteq> resource_url a ''routes'' (route_id k (i + j))) \<longrightarrow> stored s' u = stored s u)"
proof (induction routes arbitrary: i a s)
  case (Cons route routes)
  obtain err s1 where p: "putResource send a ''routes'' (route_id k i) (route_body k route) s = (err, s1)" by fastforce
  show ?case
  proof (cases err)
    case (Some e)
    with Cons.prems p have "register_routes send k (Suc i) routes [route_id k i @ '': '' @ e] a s1 = ([], a', s')" by simp
    then show ?thesis using register_routes_errs by fastforce
  next
    case None
    let ?a = "a\<lparr>ag_routeIDs := (ag_routeIDs a)(k \<mapsto> known_routes a k @ [route_id k i])\<rparr>"
    let ?u = "\<lambda>j. resource_url a ''routes'' (route_id k (i + j))"
    have "register_routes send k (Suc i) routes [] ?a s1 = ([], a', s')" using Cons.prems p None by simp
    note IH = Cons.IH[OF this]
    have st: "stored s1 = (stored s)(?u 0 \<mapsto> route_body k route)"
      using putResource_stores(1)[OF assms p] None by simp
    have url: "resource_url ?a ''routes'' (route_id k (Suc i + j)) = ?u (Suc j)" for j by (simp add: resource_url_def)
    have ne: "?u 0 \<noteq> ?u (Suc j)" for j by (simp add: resource_url_inject route_id_inject)
    from IH have IHs: "\<And>j. j < length routes \<Longrightarrow> stored s' (?u (Suc j)) = Some (route_body k (routes ! j))"
      "\<And>u. (\<forall>j < length routes. u \<noteq> ?u (Suc j)) \<Longrightarrow> stored s' u = stored s1 u"
      unfolding url by blast+
    have "stored s' (?u j) = Some (route_body k ((route # routes) ! j))" if "j < length (route # routes)" for j
    proof (cases j)
      case 0
      then show ?thesis using IHs(2)[of "?u 0"] ne st by simp
    qed (use that IHs(1) in simp)
    moreover have "stored s' u = stored s u" if "\<forall>j < length (route # routes). u \<noteq> ?u j" for u
    proof -
      have "u \<noteq> ?u 0" "\<forall>j < length routes. u \<noteq> ?u (Suc j)" using that by force+
      with IHs(2) st show ?thesis by simp
    qed
    moreover have "[i..<i + length (route # routes)] = i # [Suc i..<Suc i + length routes]"
      using upt_conv_Cons[of i "i + length (route # routes)"] by simp
    ultimately show ?thesis using IH by simp
  qed
qed simp

lemma delete_routes_removes:
  assumes "admin_store send stored"
  shows "delete_routes send a ids s = (None, s') \<Longrightarrow>
    stored s' = (\<lambda>u. if u \<in> resource_url a ''routes'' ` set ids then None else stored s u)"
proof (induction ids arbitrary: s)
  case (Cons r ids)
  obtain err s1 where d: "deleteResource send a ''routes'' r s = (err, s1)" by fastforce
  with Cons.prems have "err = None" "delete_routes send a ids s1 = (None, s')" by (auto split: option.splits)
  with Cons.IH deleteResource_removes(1)[OF assms d] show ?case by (auto simp: fun_eq_iff)
qed simp

text \<open>The resources of a service.\<close>

definition service_urls :: "ApisixGateway \<Rightarrow> GatewayService \<Rightarrow> string set" where
  "service_urls a svc = insert (resource_url a ''upstreams'' (gs_ID svc))
     ((\<lambda>j. resource_url a ''routes'' (route_id (gs_ID svc) j)) ` {..<length (gs_Routes svc)})"

lemma registerServiceDirect_stores:
  assumes "admin_store send stored" "registerServiceDirect send svc a s = Some (None, a', s')"
  shows "ag_config a' = ag_config a \<and> known_routes a' (gs_ID svc) = map (route_id (gs_ID svc)) [0..<length (gs_Routes svc)] \<and>
    (\<exists>u. gs_Upstream svc = Some u \<and> stored s' (resource_url a ''upstreams'' (gs_ID svc)) = Some (toUpstreamBody u (gs_Name svc))) \<and>
    (\<forall>j < length (gs_Routes svc). stored s' (resource_url a ''routes'' (route_id (gs_ID svc) j)) =
       Some (route_body (gs_ID svc) (gs_Routes svc ! j))) \<and>
    (\<forall>v. v \<notin> service_urls a svc \<longrightarrow> stored s' v = stored s v)"
proof -
  let ?k = "gs_ID svc" and ?rs = "gs_Routes svc"
  obtain u where u: "gs_Upstream svc = Some u" using assms(2) by (cases "gs_Upstream svc") (auto simp: registerServiceDirect_def)
  obtain err s1 where p: "putResource send a ''upstreams'' ?k (toUpstreamBody u (gs_Name svc)) s = (err, s1)" by fastforce
  let ?a = "a\<lparr>ag_routeIDs := (ag_routeIDs a)(?k \<mapsto> [])\<rparr>"
  obtain errs a2 s2 where r: "register_routes send ?k 0 ?rs [] ?a s1 = (errs, a2, s2)" by (metis prod_cases3)
  have "err = None" and r': "register_routes send ?k 0 ?rs [] ?a s1 = ([], a', s')"
    using assms(2) u p r by (auto simp: registerServiceDirect_def Let_def split: option.splits if_splits)
  then have st: "stored s1 = (stored s)(resource_url a ''upstreams'' ?k \<mapsto> toUpstreamBody u (gs_Name svc))"
    using putResource_stores(1)[OF assms(1) p] by simp
  have url: "resource_url ?a r i = resource_url a r i" for r i by (simp add: resource_url_def)
  note rr = register_routes_stores[OF assms(1) r', unfolded url]
  have "stored s' (resource_url a ''upstreams'' ?k) = stored s1 (resource_url a ''upstreams'' ?k)"
    using rr route_url_not_upstream by metis
  moreover have "stored s' v = stored s v" if "v \<notin> service_urls a svc" for v
    using that rr st by (auto simp: service_urls_def)
  ultimately show ?thesis using rr u st by simp
qed

lemma deregisterServiceDirect_removes:
  assumes "admin_store send stored" "deregisterServiceDirect send k a s = (None, a', s')"
  shows "stored s' = (\<lambda>u. if u = resource_url a ''upstreams'' k \<or> u \<in> resource_url a ''routes'' ` set (known_routes a k)
      then None else stored s u) \<and> ag_routeIDs a' k = None"
proof -
  let ?a = "a\<lparr>ag_routeIDs := (ag_routeIDs a)(k := None)\<rparr>"
  obtain err s1 where d: "delete_routes send ?a (known_routes a k) s = (err, s1)" by fastforce
  obtain err2 s2 where u: "deleteResource send ?a ''upstreams'' k s1 = (err2, s2)" by fastforce
  have e: "err = None" "err2 = None" "s2 = s'" "a' = ?a"
    using assms(2) d u by (auto simp: deregisterServiceDirect_def Let_def split: option.splits)
  have url: "resource_url ?a r i = resource_url a r i" for r i by (simp add: resource_url_def)
  show ?thesis
    using delete_routes_removes[OF assms(1) d[unfolded e]] deleteResource_removes(1)[OF assms(1) u] e
    by (auto simp: fun_eq_iff url)
qed

section \<open>Properties\<close>

text \<open>C19: Registering and deregistering is a round trip on the admin server: a registration that
  reports no error has stored the upstream and every route with its body under its own URL and
  changed nothing else; a deregistration of it that reports no error removes exactly these
  resources, so that the server is as before except that they are gone.\<close>

theorem register_deregister_roundtrip:
  assumes "admin_store send stored" "registerServiceDirect send svc a s = Some (None, a1, s1)"
    "deregisterServiceDirect send (gs_ID svc) a1 s1 = (None, a2, s2)"
  shows "(\<forall>j < length (gs_Routes svc). stored s1 (resource_url a ''routes'' (route_id (gs_ID svc) j)) =
       Some (route_body (gs_ID svc) (gs_Routes svc ! j))) \<and>
    (\<exists>u. gs_Upstream svc = Some u \<and>
       stored s1 (resource_url a ''upstreams'' (gs_ID svc)) = Some (toUpstreamBody u (gs_Name svc))) \<and>
    stored s2 = (\<lambda>v. if v \<in> service_urls a svc then None else stored s v)"
proof -
  note reg = registerServiceDirect_stores[OF assms(1,2)]
  have url: "resource_url a1 r i = resource_url a r i" for r i using reg resource_url_config by metis
  have ids: "set (known_routes a1 (gs_ID svc)) = route_id (gs_ID svc) ` {..<length (gs_Routes svc)}"
    using reg by (simp add: atLeast0LessThan)
  have urls: "v = resource_url a1 ''upstreams'' (gs_ID svc) \<or>
      v \<in> resource_url a1 ''routes'' ` set (known_routes a1 (gs_ID svc)) \<longleftrightarrow> v \<in> service_urls a svc" for v
    unfolding ids service_urls_def url by (auto simp: image_image)
  have "stored s2 v = (if v \<in> service_urls a svc then None else stored s v)" for v
    using deregisterServiceDirect_removes[OF assms(1,3)] reg unfolding urls by simp
  then show ?thesis using reg by auto
qed

text \<open>A server that accepts every request, for the examples.\<close>

definition mem_server :: "(string \<rightharpoonup> json) transport" where
  "mem_server req m =
     (if rq_method req = ''PUT'' then (Inr (201, ''''), case rq_body req of None \<Rightarrow> m | Some b \<Rightarrow> m(rq_url req \<mapsto> b))
      else if rq_method req = ''DELETE'' then (Inr (200, ''''), m(rq_url req := None)) else (Inl ''method'', m))"

lemma mem_server_admin: "admin_store mem_server (\<lambda>m. m)"
  by (simp add: admin_store_def mem_server_def Let_def)

definition sample_config :: "string \<Rightarrow> bool option \<Rightarrow> ApisixConfig" where
  "sample_config mode d = \<lparr>ac_AdminURL = ''http://gw'', ac_APIKey = ''key'', ac_Timeout = 5, ac_RegisterMode = mode,
     ac_DeregisterOnShutdown = d, ac_LeaderLeaseName = '''', ac_LeaderLeaseNamespace = ''ns'', ac_LeaderIdentity = ''pod-0'',
     ac_LeaseDurationSeconds = 0, ac_RenewDeadlineSeconds = 0, ac_RetryPeriodSeconds = 0, ac_ReconcileIntervalSeconds = 0\<rparr>"

definition sample_gateway :: "string \<Rightarrow> bool option \<Rightarrow> ApisixGateway" where
  "sample_gateway mode d = \<lparr>ag_config = sample_config mode d, ag_timeout = duration_of 5 Second, ag_routeIDs = Map.empty,
     ag_controllers = Map.empty\<rparr>"

definition sample_service :: GatewayService where
  "sample_service = \<lparr>gs_ID = ''user'', gs_Name = ''user-service'',
     gs_Upstream = Some \<lparr>gu_Type = ''roundrobin'', gu_Nodes = [(''host:8080'', 1)], gu_Scheme = ''''\<rparr>,
     gs_Routes = [\<lparr>gr_Name = ''r'', gr_URI = ''/api*'', gr_Methods = [], gr_Upstream = None\<rparr>]\<rparr>"

lemma sample_register:
  "\<exists>a1 s1. registerServiceDirect mem_server sample_service (sample_gateway mode d) s = Some (None, a1, s1)"
  by (simp add: registerServiceDirect_def sample_service_def putResource_def mem_server_def Let_def)

lemma mem_server_deregisters: "\<exists>a2 s2. deregisterServiceDirect mem_server k a s = (None, a2, s2)"
proof -
  have del: "deleteResource mem_server b r i m = (None, m(resource_url b r i := None))" for b r i m
    by (simp add: deleteResource_def mem_server_def Let_def)
  have "\<exists>m'. delete_routes mem_server b ids m = (None, m')" for b ids m
    by (induction ids arbitrary: m) (simp_all add: del)
  then obtain m' where "delete_routes mem_server (a\<lparr>ag_routeIDs := (ag_routeIDs a)(k := None)\<rparr>) (known_routes a k) s = (None, m')"
    by blast
  then show ?thesis by (simp add: deregisterServiceDirect_def del Let_def)
qed

theorem register_deregister_roundtrip_witness:
  "\<exists>a1 s1 a2 s2. registerServiceDirect mem_server sample_service (sample_gateway ''single'' None) Map.empty = Some (None, a1, s1) \<and>
     deregisterServiceDirect mem_server ''user'' a1 s1 = (None, a2, s2) \<and> s2 = Map.empty"
proof -
  obtain a1 s1 where 1: "registerServiceDirect mem_server sample_service (sample_gateway ''single'' None) Map.empty = Some (None, a1, s1)"
    using sample_register by blast
  obtain a2 s2 where 2: "deregisterServiceDirect mem_server (gs_ID sample_service) a1 s1 = (None, a2, s2)"
    using mem_server_deregisters by blast
  from register_deregister_roundtrip[OF mem_server_admin 1 2] have "s2 = Map.empty" by (auto simp: fun_eq_iff)
  with 1 2 show ?thesis by (auto simp: sample_service_def)
qed

text \<open>A service registered again under its id with fewer routes leaves its former routes behind:
  registration forgets the ids it knew, so a route beyond the new number is neither replaced nor
  removed by the new registration or by the deregistration that follows.\<close>

theorem shrinking_service_orphans_routes:
  assumes "admin_store send stored" "stored s (resource_url a ''routes'' (route_id (gs_ID svc) j)) = Some b"
    "length (gs_Routes svc) \<le> j" "registerServiceDirect send svc a s = Some (None, a1, s1)"
    "deregisterServiceDirect send (gs_ID svc) a1 s1 = (None, a2, s2)"
  shows "stored s2 (resource_url a ''routes'' (route_id (gs_ID svc) j)) = Some b"
proof -
  note reg = registerServiceDirect_stores[OF assms(1,4)]
  have url: "resource_url a1 r i = resource_url a r i" for r i using reg resource_url_config by metis
  have "resource_url a ''routes'' (route_id (gs_ID svc) j) \<notin> service_urls a svc"
    using assms(3) route_url_not_upstream by (auto simp: service_urls_def resource_url_inject route_id_inject)
  with reg assms(2) have "stored s1 (resource_url a ''routes'' (route_id (gs_ID svc) j)) = Some b" by simp
  moreover have "route_id (gs_ID svc) j \<notin> set (known_routes a1 (gs_ID svc))"
    using reg assms(3) by (auto simp: route_id_inject)
  ultimately show ?thesis
    using deregisterServiceDirect_removes[OF assms(1,5)] route_url_not_upstream
    by (auto simp: url resource_url_inject)
qed

theorem shrinking_service_orphans_routes_witness:
  "\<exists>a1 s1 a2 s2. registerServiceDirect mem_server sample_service (sample_gateway ''single'' None)
       [resource_url (sample_gateway ''single'' None) ''routes'' (route_id ''user'' 1) \<mapsto> JInt 1] = Some (None, a1, s1) \<and>
     deregisterServiceDirect mem_server ''user'' a1 s1 = (None, a2, s2) \<and>
     s2 (resource_url (sample_gateway ''single'' None) ''routes'' (route_id ''user'' 1)) = Some (JInt 1)"
proof -
  let ?a = "sample_gateway ''single'' None"
  let ?s = "[resource_url ?a ''routes'' (route_id ''user'' 1) \<mapsto> JInt 1]"
  obtain a1 s1 where 1: "registerServiceDirect mem_server sample_service ?a ?s = Some (None, a1, s1)"
    using sample_register by blast
  obtain a2 s2 where 2: "deregisterServiceDirect mem_server (gs_ID sample_service) a1 s1 = (None, a2, s2)"
    using mem_server_deregisters by blast
  have k: "gs_ID sample_service = ''user''" "length (gs_Routes sample_service) = 1" by (simp_all add: sample_service_def)
  from shrinking_service_orphans_routes[OF mem_server_admin _ _ 1 2, of 1 "JInt 1"] 1 2 show ?thesis
    unfolding k by auto
qed

text \<open>A deregistration that fails half-way cannot be repeated: the ids of the routes are
  forgotten before the first one is deleted, so when deleting a route fails, a second call deletes
  the upstream only and may report success while the route is still there.\<close>

theorem failed_deregister_forgets_routes:
  assumes "admin_store send stored" "ag_routeIDs a k = Some (r # rs)"
    "deleteResource send a ''routes'' r s = (Some e, s1)" "stored s1 (resource_url a ''routes'' r) = Some b"
    "deleteResource send a ''upstreams'' k s1 = (None, s2)"
  shows "\<exists>a1 err. deregisterServiceDirect send k a s = (Some err, a1, s1) \<and>
    deregisterServiceDirect send k a1 s1 = (None, a1, s2) \<and> stored s2 (resource_url a ''routes'' r) = Some b"
proof -
  let ?a = "a\<lparr>ag_routeIDs := (ag_routeIDs a)(k := None)\<rparr>"
  have same: "deleteResource send ?a res i t = deleteResource send a res i t" for res i t
    by (simp add: deleteResource_def resource_url_def key_header_def)
  have "deregisterServiceDirect send k a s = (Some (''delete route '' @ r @ '' failed: '' @ e), ?a, s1)"
    using assms(2,3) by (simp add: deregisterServiceDirect_def same Let_def)
  moreover have "?a\<lparr>ag_routeIDs := (ag_routeIDs ?a)(k := None)\<rparr> = ?a" by simp
  then have "deregisterServiceDirect send k ?a s1 = (None, ?a, s2)"
    using assms(5) unfolding deregisterServiceDirect_def by (simp add: same Let_def)
  moreover have "stored s2 (resource_url a ''routes'' r) = Some b"
    using deleteResource_removes(1)[OF assms(1,5)] assms(4) route_url_not_upstream by simp
  ultimately show ?thesis by blast
qed

definition flaky_server :: "(nat \<times> (string \<rightharpoonup> json)) transport" where
  "flaky_server req nm = (case nm of (n, m) \<Rightarrow>
     if n = 0 then (let (r, m') = mem_server req m in (r, (0, m'))) else (Inr (503, ''busy''), (n - 1, m)))"

lemma flaky_server_admin: "admin_store flaky_server snd"
  by (auto simp: admin_store_def flaky_server_def mem_server_def Let_def split: prod.splits if_splits option.splits)

theorem failed_deregister_forgets_routes_witness:
  "\<exists>a1 err s1 s2. deregisterServiceDirect flaky_server ''user''
       ((sample_gateway ''single'' None)\<lparr>ag_routeIDs := [''user'' \<mapsto> [''user-route-0'']]\<rparr>)
       (1, [resource_url (sample_gateway ''single'' None) ''routes'' ''user-route-0'' \<mapsto> JInt 1]) = (Some err, a1, s1) \<and>
     deregisterServiceDirect flaky_server ''user'' a1 s1 = (None, a1, s2) \<and>
     snd s2 (resource_url (sample_gateway ''single'' None) ''routes'' ''user-route-0'') = Some (JInt 1)"
proof -
  let ?a = "(sample_gateway ''single'' None)\<lparr>ag_routeIDs := [''user'' \<mapsto> [''user-route-0'']]\<rparr>"
  let ?u = "resource_url (sample_gateway ''single'' None) ''routes'' ''user-route-0''"
  let ?m = "[?u \<mapsto> JInt 1]"
  have url: "resource_url ?a ''routes'' ''user-route-0'' = ?u" by (simp add: resource_url_def)
  obtain e where e: "deleteResource flaky_server ?a ''routes'' ''user-route-0'' (1, ?m) = (Some e, (0, ?m))"
    by (simp add: deleteResource_def flaky_server_def)
  have 2: "deleteResource flaky_server ?a ''upstreams'' ''user'' (0, ?m) =
      (None, (0, ?m(resource_url ?a ''upstreams'' ''user'' := None)))"
    by (simp add: deleteResource_def flaky_server_def mem_server_def)
  show ?thesis
    using failed_deregister_forgets_routes[OF flaky_server_admin _ e _ 2, of "[]" "JInt 1", unfolded url] by auto
qed

text \<open>In leader mode a service is never taken off the gateway at shutdown, not even by the
  leader and not even when \<open>deregister_on_shutdown\<close> is set: \<open>DeregisterService\<close> first stops the
  controller, which waits until the election has ended and its \<open>OnStoppedLeading\<close> callback has cleared
  the leader flag, and then asks whether it is the leader. No request is sent.\<close>

theorem leader_never_deregisters:
  assumes "registerMode a = ''leader''" "ag_controllers a k = Some c" "lc_started c"
    "flag_at_end c = lc_isLeader (OnStoppedLeading c)"
  shows "DeregisterService send flag_at_end k a s = (None, a\<lparr>ag_controllers := (ag_controllers a)(k := None)\<rparr>, s)"
  using assms
  by (simp add: DeregisterService_def controller_Stop_def IsLeader_def OnStoppedLeading_def Let_def)

definition in_cluster :: platform where
  "in_cluster = \<lparr>pf_getenv = (\<lambda>_. ''''), pf_namespace_file = None, pf_hostname = None, pf_cluster = None\<rparr>"

theorem leader_never_deregisters_witness:
  "\<exists>a. registerServiceByLeader in_cluster (\<lambda>_. False) sample_service (sample_gateway ''leader'' (Some True)) = (None, a) \<and>
     shouldDeregisterOnShutdown a \<and>
     snd (snd (DeregisterService mem_server (\<lambda>_. False) ''user'' a [''u'' \<mapsto> JInt 1])) = [''u'' \<mapsto> JInt 1]"
proof -
  let ?g = "sample_gateway ''leader'' (Some True)"
  obtain c where c: "newApisixLeaderController in_cluster ?g sample_service = Inr c" "\<not> lc_started c"
    by (simp add: newApisixLeaderController_def in_cluster_def sample_gateway_def sample_config_def trim_where_def
        is_space_def Let_def)
  let ?a = "?g\<lparr>ag_controllers := [''user'' \<mapsto> c\<lparr>lc_started := True\<rparr>]\<rparr>"
  have g: "ag_controllers ?g = Map.empty" "gs_ID sample_service = ''user''" "pf_cluster in_cluster = None"
    by (simp_all add: sample_gateway_def sample_service_def in_cluster_def)
  have "registerServiceByLeader in_cluster (\<lambda>_. False) sample_service ?g = (None, ?a)"
    using c by (simp add: registerServiceByLeader_def controller_Start_def g)
  moreover have m: "registerMode ?a = ''leader''" "shouldDeregisterOnShutdown ?a"
    by (simp_all add: registerMode_def shouldDeregisterOnShutdown_def sample_gateway_def sample_config_def)
  moreover have "DeregisterService mem_server (\<lambda>_. False) ''user'' ?a [''u'' \<mapsto> JInt 1] =
      (None, ?a\<lparr>ag_controllers := (ag_controllers ?a)(''user'' := None)\<rparr>, [''u'' \<mapsto> JInt 1])"
    by (rule leader_never_deregisters[OF m(1), where c = "c\<lparr>lc_started := True\<rparr>"]) (simp_all add: OnStoppedLeading_def)
  ultimately show ?thesis by (metis snd_conv)
qed

lemma off_mode_sends_nothing:
  "registerMode a = ''off'' \<Longrightarrow> RegisterService send pf flag svc a s = Some (None, a, s) \<and>
     DeregisterService send flag k a s = (None, a, s)"
  by (simp add: RegisterService_def DeregisterService_def)

end
