(* ===== verification/Registry.thy ===== *)
theory Registry
  imports Telemetry
begin

section \<open>Service registration in etcd\<close>

text \<open>
  Models \<open>register/register.go\<close>, \<open>register/etcd.go\<close> and \<open>register/service.go\<close>. The etcd client is a parameter: a
  record of the calls the code makes, on an abstract cluster state \<open>'e\<close>, each answering an error text
  or its result. The JSON coding of a \<open>ServiceInfo\<close> is a pair of functions. \<open>ServiceRegistry\<close> works on any
  implementation of the interface \<open>Register\<close>, whose operations are its arguments.
\<close>

record ServiceInfo =
  si_Name :: string
  si_ID :: string
  si_Address :: string
  si_Port :: int
  si_Tags :: "string list"
  si_Meta :: "(string \<times> string) list"

record EtcdConfig =
  ec_Endpoints :: "string list"
  ec_DialTimeout :: int
  ec_TTL :: int
  ec_ServiceName :: string
  ec_Address :: string
  ec_Port :: int
  ec_Tags :: "string list"

record 'e etcd_client =
  et_Grant :: "int \<Rightarrow> 'e \<Rightarrow> (string + int) \<times> 'e"
  et_Put :: "string \<Rightarrow> string \<Rightarrow> int \<Rightarrow> 'e \<Rightarrow> string option \<times> 'e"
  et_KeepAlive :: "int \<Rightarrow> 'e \<Rightarrow> string option \<times> 'e"
  et_Revoke :: "int \<Rightarrow> 'e \<Rightarrow> string option \<times> 'e"
  et_Get :: "string \<Rightarrow> 'e \<Rightarrow> (string + (string \<times> string) list) \<times> 'e"
  et_Close :: "'e \<Rightarrow> string option \<times> 'e"

subsection \<open>The service registry\<close>

record ServiceRegistry =
  sr_info :: "ServiceInfo option"
  sr_cancelled :: bool

definition NewServiceRegistry :: "log_state \<Rightarrow> ServiceRegistry outcome" where
  "NewServiceRegistry ls =
     (case GetLogger ''service_registry'' ls of
        Panicked \<Rightarrow> Panicked | Returned _ \<Rightarrow> Returned \<lparr>sr_info = None, sr_cancelled = False\<rparr>)"

text \<open>\<open>sid\<close> is the session id drawn for the instance.\<close>

definition registry_Register ::
  "(bool \<Rightarrow> ServiceInfo \<Rightarrow> 'r \<Rightarrow> string option \<times> 'r) \<Rightarrow> string \<Rightarrow> string \<Rightarrow> string \<Rightarrow> int \<Rightarrow> string list \<Rightarrow>
     (string \<times> string) list \<Rightarrow> ServiceRegistry \<Rightarrow> 'r \<Rightarrow> string option \<times> ServiceRegistry \<times> 'r" where
  "registry_Register reg sid name address port tags meta s r =
     (let info = \<lparr>si_Name = name, si_ID = name @ ''-'' @ sid, si_Address = address, si_Port = port,
            si_Tags = tags, si_Meta = meta\<rparr>;
          s = s\<lparr>sr_info := Some info\<rparr>;
          (err, r) = reg (sr_cancelled s) info r
      in (err, s, r))"

definition registry_Deregister ::
  "(string \<Rightarrow> 'r \<Rightarrow> string option \<times> 'r) \<Rightarrow> ServiceRegistry \<Rightarrow> 'r \<Rightarrow> string option \<times> ServiceRegistry \<times> 'r" where
  "registry_Deregister dereg s r =
     (case sr_info s of
        None \<Rightarrow> (None, s, r)
      | Some info \<Rightarrow>
          (let s = s\<lparr>sr_cancelled := True\<rparr>;
               (err, r) = dereg (si_ID info) r
           in (err, s, r)))"

definition Discover :: "(bool \<Rightarrow> string \<Rightarrow> 'r \<Rightarrow> 'x) \<Rightarrow> string \<Rightarrow> ServiceRegistry \<Rightarrow> 'r \<Rightarrow> 'x" where
  "Discover get serviceName s r = get (sr_cancelled s) serviceName r"

text \<open>The error of \<open>Deregister\<close> is dropped; the result is that of closing the register.\<close>

definition registry_Close where
  "registry_Close dereg close s r =
     (let (_, s, r) = registry_Deregister dereg s r; (err, r) = close r in (err, s, r))"

subsection \<open>The etcd implementation\<close>

record EtcdRegister =
  er_leaseID :: int
  er_ttl :: int
  er_prefix :: string
  er_registry :: "ServiceRegistry option"
  er_config :: EtcdConfig

definition dial_timeout :: "EtcdConfig \<Rightarrow> duration" where
  "dial_timeout config = duration_of (if ec_DialTimeout config > 0 then ec_DialTimeout config else 5) Second"

text \<open>\<open>parsed\<close> is the decoded configuration, \<open>dial\<close> the error of \<open>clientv3.New\<close> for it, if any.\<close>

definition NewEtcdRegister ::
  "EtcdConfig option \<Rightarrow> (string list \<Rightarrow> duration \<Rightarrow> string option) \<Rightarrow> (string + EtcdRegister) outcome" where
  "NewEtcdRegister parsed dial =
     (case parsed of
        None \<Rightarrow> Panicked
      | Some config \<Rightarrow>
          (case dial (ec_Endpoints config) (dial_timeout config) of
             Some e \<Rightarrow> Returned (Inl e)
           | None \<Rightarrow>
               let ttl = (if ec_TTL config > 0 then ec_TTL config else 10)
               in Returned (Inr \<lparr>er_leaseID = 0, er_ttl = ttl, er_prefix = ''/services/'', er_registry = None,
                    er_config = config\<rparr>)))"

definition etcd_Register ::
  "'e etcd_client \<Rightarrow> (ServiceInfo \<Rightarrow> string + string) \<Rightarrow> ServiceInfo \<Rightarrow> EtcdRegister \<Rightarrow> 'e \<Rightarrow>
     string option \<times> EtcdRegister \<times> 'e" where
  "etcd_Register cl marshal info r e =
     (case et_Grant cl (er_ttl r) e of
        (Inl err, e) \<Rightarrow> (Some err, r, e)
      | (Inr lease, e) \<Rightarrow>
          (let r = r\<lparr>er_leaseID := lease\<rparr>
           in case marshal info of
                Inl err \<Rightarrow> (Some err, r, e)
              | Inr data \<Rightarrow>
                  (let key = er_prefix r @ si_Name info @ ''/'' @ si_ID info
                   in case et_Put cl key data lease e of
                        (Some err, e) \<Rightarrow> (Some err, r, e)
                      | (None, e) \<Rightarrow>
                          (case et_KeepAlive cl lease e of
                             (Some err, e) \<Rightarrow> (Some err, r, e)
                           | (None, e) \<Rightarrow> (None, r, e)))))"

definition etcd_Deregister :: "'e etcd_client \<Rightarrow> string \<Rightarrow> EtcdRegister \<Rightarrow> 'e \<Rightarrow> string option \<times> EtcdRegister \<times> 'e" where
  "etcd_Deregister cl serviceID r e =
     (if er_leaseID r \<noteq> 0 then (let (err, e) = et_Revoke cl (er_leaseID r) e in (err, r, e)) else (None, r, e))"

fun decode_services :: "(string \<Rightarrow> ServiceInfo option) \<Rightarrow> (string \<times> string) list \<Rightarrow> ServiceInfo list" where
  "decode_services unmarshal [] = []"
| "decode_services unmarshal ((k, v) # kvs) =
     (case unmarshal v of
        None \<Rightarrow> decode_services unmarshal kvs
      | Some info \<Rightarrow> info # decode_services unmarshal kvs)"

definition etcd_GetService ::
  "'e etcd_client \<Rightarrow> (string \<Rightarrow> ServiceInfo option) \<Rightarrow> string \<Rightarrow> EtcdRegister \<Rightarrow> 'e \<Rightarrow>
     (string + ServiceInfo list) \<times> 'e" where
  "etcd_GetService cl unmarshal serviceName r e =
     (let key = er_prefix r @ serviceName @ ''/''
      in case et_Get cl key e of
           (Inl err, e) \<Rightarrow> (Inl err, e)
         | (Inr kvs, e) \<Rightarrow> (Inr (decode_services unmarshal kvs), e))"

text \<open>\<open>Watch\<close>: the current list first, then one list per watch event whose query succeeds; \<open>states\<close> are
  the cluster states at the events.\<close>

definition etcd_Watch ::
  "'e etcd_client \<Rightarrow> (string \<Rightarrow> ServiceInfo option) \<Rightarrow> string \<Rightarrow> EtcdRegister \<Rightarrow> 'e \<Rightarrow> 'e list \<Rightarrow>
     string + ServiceInfo list list" where
  "etcd_Watch cl unmarshal serviceName r e states =
     (case fst (etcd_GetService cl unmarshal serviceName r e) of
        Inl err \<Rightarrow> Inl err
      | Inr services \<Rightarrow>
          Inr (services # concat (map (\<lambda>e. case fst (etcd_GetService cl unmarshal serviceName r e) of
                                           Inl _ \<Rightarrow> [] | Inr l \<Rightarrow> [l]) states)))"

definition etcd_Close :: "'e etcd_client \<Rightarrow> EtcdRegister \<Rightarrow> 'e \<Rightarrow> string option \<times> EtcdRegister \<times> 'e" where
  "etcd_Close cl r e =
     (let (r, e) = (case er_registry r of
            None \<Rightarrow> (r, e)
          | Some reg \<Rightarrow>
              (let (_, reg, (r, e)) = registry_Deregister
                     (\<lambda>sid (r, e). let (err, r, e) = etcd_Deregister cl sid r e in (err, (r, e))) reg (r, e)
               in (r\<lparr>er_registry := Some reg\<rparr>, e)));
          (err, e) = et_Close cl e
      in (err, r, e))"

text \<open>\<open>Init\<close> under \<open>sync.Once\<close>: the instance is created and the service registered; every error panics. The
  once is spent by a panicking call too.\<close>

record etcd_singleton =
  es_done :: bool
  es_instance :: "EtcdRegister option"

definition etcd_Init ::
  "log_state \<Rightarrow> 'e etcd_client \<Rightarrow> (ServiceInfo \<Rightarrow> string + string) \<Rightarrow> EtcdConfig option \<Rightarrow> (string list \<Rightarrow> duration \<Rightarrow> string option) \<Rightarrow>
     string \<Rightarrow> etcd_singleton \<Rightarrow> 'e \<Rightarrow> unit outcome \<times> etcd_singleton \<times> 'e" where
  "etcd_Init ls cl marshal parsed dial sid st e =
     (if es_done st then (Returned (), st, e)
      else case NewEtcdRegister parsed dial of
             Returned (Inr r) \<Rightarrow>
               (case NewServiceRegistry ls of
                  Panicked \<Rightarrow> (Panicked, \<lparr>es_done = True, es_instance = Some r\<rparr>, e)
                | Returned sr \<Rightarrow>
                    (let c = er_config r;
                         (err, reg, (r, e)) = registry_Register
                           (\<lambda>_ info (r, e). let (err, r, e) = etcd_Register cl marshal info r e in (err, (r, e)))
                           sid (ec_ServiceName c) (ec_Address c) (ec_Port c) (ec_Tags c) [] sr (r, e);
                         st = \<lparr>es_done = True, es_instance = Some (r\<lparr>er_registry := Some reg\<rparr>)\<rparr>
                     in (case err of None \<Rightarrow> Returned () | Some _ \<Rightarrow> Panicked, st, e)))
           | _ \<Rightarrow> (Panicked, st\<lparr>es_done := True\<rparr>, e))"

section \<open>Lemmas\<close>

text \<open>What the code relies on of etcd, for calls that succeed: a granted lease is new, non-zero and
  attached to no key, a put stores the value under the lease, revoking removes the keys of the lease
  and no others, reading by prefix answers exactly the keys with that prefix.\<close>

definition etcd_laws :: "'e etcd_client \<Rightarrow> ('e \<Rightarrow> string \<rightharpoonup> string \<times> int) \<Rightarrow> bool" where
  "etcd_laws cl kv \<longleftrightarrow>
     (\<forall>ttl e l e'. et_Grant cl ttl e = (Inr l, e') \<longrightarrow> kv e' = kv e \<and> l \<noteq> 0 \<and> (\<forall>k v. kv e k \<noteq> Some (v, l))) \<and>
     (\<forall>k v l e e'. et_Put cl k v l e = (None, e') \<longrightarrow> kv e' = (kv e)(k \<mapsto> (v, l))) \<and>
     (\<forall>l e e'. et_KeepAlive cl l e = (None, e') \<longrightarrow> kv e' = kv e) \<and>
     (\<forall>l e e'. et_Revoke cl l e = (None, e') \<longrightarrow>
        kv e' = (\<lambda>k. case kv e k of Some (v, m) \<Rightarrow> if m = l then None else Some (v, m) | None \<Rightarrow> None)) \<and>
     (\<forall>p e kvs e'. et_Get cl p e = (Inr kvs, e') \<longrightarrow>
        kv e' = kv e \<and> (\<forall>k v. (k, v) \<in> set kvs \<longleftrightarrow> prefix p k \<and> (\<exists>l. kv e k = Some (v, l))))"

lemma etcd_lawsD:
  assumes "etcd_laws cl kv"
  shows "et_Grant cl ttl e = (Inr l, e') \<Longrightarrow> kv e' = kv e \<and> l \<noteq> 0 \<and> (\<forall>k v. kv e k \<noteq> Some (v, l))"
    "et_Put cl k v l e = (None, e') \<Longrightarrow> kv e' = (kv e)(k \<mapsto> (v, l))"
    "et_KeepAlive cl l e = (None, e') \<Longrightarrow> kv e' = kv e"
    "et_Revoke cl l e = (None, e') \<Longrightarrow>
       kv e' = (\<lambda>k. case kv e k of Some (v, m) \<Rightarrow> if m = l then None else Some (v, m) | None \<Rightarrow> None)"
    "et_Get cl p e = (Inr kvs, e') \<Longrightarrow>
       kv e' = kv e \<and> (\<forall>k v. (k, v) \<in> set kvs \<longleftrightarrow> prefix p k \<and> (\<exists>l. kv e k = Some (v, l)))"
proof -
  from assms have laws: "\<And>ttl e l e'. et_Grant cl ttl e = (Inr l, e') \<Longrightarrow> kv e' = kv e \<and> l \<noteq> 0 \<and> (\<forall>k v. kv e k \<noteq> Some (v, l))"
    "\<And>k v l e e'. et_Put cl k v l e = (None, e') \<Longrightarrow> kv e' = (kv e)(k \<mapsto> (v, l))"
    "\<And>l e e'. et_KeepAlive cl l e = (None, e') \<Longrightarrow> kv e' = kv e"
    unfolding etcd_laws_def by simp_all
  show "et_Grant cl ttl e = (Inr l, e') \<Longrightarrow> kv e' = kv e \<and> l \<noteq> 0 \<and> (\<forall>k v. kv e k \<noteq> Some (v, l))" by (rule laws)
  show "et_Put cl k v l e = (None, e') \<Longrightarrow> kv e' = (kv e)(k \<mapsto> (v, l))" by (rule laws)
  show "et_KeepAlive cl l e = (None, e') \<Longrightarrow> kv e' = kv e" by (rule laws)
  show "et_Revoke cl l e = (None, e') \<Longrightarrow>
       kv e' = (\<lambda>k. case kv e k of Some (v, m) \<Rightarrow> if m = l then None else Some (v, m) | None \<Rightarrow> None)"
    using assms unfolding etcd_laws_def by simp
  show "et_Get cl p e = (Inr kvs, e') \<Longrightarrow>
       kv e' = kv e \<and> (\<forall>k v. (k, v) \<in> set kvs \<longleftrightarrow> prefix p k \<and> (\<exists>l. kv e k = Some (v, l)))"
    using assms unfolding etcd_laws_def by simp
qed

abbreviation service_key :: "EtcdRegister \<Rightarrow> ServiceInfo \<Rightarrow> string" where
  "service_key r info \<equiv> er_prefix r @ si_Name info @ ''/'' @ si_ID info"

lemma etcd_Register_stores:
  assumes "etcd_laws cl kv" "etcd_Register cl marshal info r e = (None, r', e')"
  shows "\<exists>data. marshal info = Inr data \<and> er_leaseID r' \<noteq> 0 \<and> er_prefix r' = er_prefix r \<and>
    kv e' = (kv e)(service_key r info \<mapsto> (data, er_leaseID r')) \<and> (\<forall>k v. kv e k \<noteq> Some (v, er_leaseID r'))"
proof -
  obtain l e1 where g: "et_Grant cl (er_ttl r) e = (Inr l, e1)"
    using assms(2) by (auto simp: etcd_Register_def split: prod.splits sum.splits)
  obtain data where d: "marshal info = Inr data"
    using assms(2) g by (auto simp: etcd_Register_def Let_def split: sum.splits)
  obtain e2 where p: "et_Put cl (service_key r info) data l e1 = (None, e2)"
    using assms(2) g d by (auto simp: etcd_Register_def Let_def split: prod.splits option.splits)
  have k: "et_KeepAlive cl l e2 = (None, e')" and r': "r' = r\<lparr>er_leaseID := l\<rparr>"
    using assms(2) g d p by (auto simp: etcd_Register_def Let_def split: prod.splits option.splits)
  show ?thesis
    using etcd_lawsD(1)[OF assms(1) g] etcd_lawsD(2)[OF assms(1) p] etcd_lawsD(3)[OF assms(1) k] d r' by simp
qed

lemma decode_services_set: "set (decode_services dec kvs) = {i. \<exists>k v. (k, v) \<in> set kvs \<and> dec v = Some i}"
  by (induction dec kvs rule: decode_services.induct) (auto split: option.splits)

lemma etcd_GetService_set:
  assumes "etcd_laws cl kv" "etcd_GetService cl dec name r e = (Inr l, e')"
  shows "kv e' = kv e \<and>
    set l = {i. \<exists>k v m. kv e k = Some (v, m) \<and> prefix (er_prefix r @ name @ ''/'') k \<and> dec v = Some i}"
proof -
  obtain kvs where g: "et_Get cl (er_prefix r @ name @ ''/'') e = (Inr kvs, e')" "l = decode_services dec kvs"
    using assms(2) by (auto simp: etcd_GetService_def split: prod.splits sum.splits)
  from etcd_lawsD(5)[OF assms(1) g(1)] show ?thesis
    unfolding g(2) decode_services_set by (auto; blast)
qed

text \<open>A cluster in memory, for the examples: an association list of keys with values and leases.\<close>

type_synonym mem_etcd = "(string \<times> string \<times> int) list"

definition mem_lease :: "mem_etcd \<Rightarrow> int" where
  "mem_lease xs = 1 + sum_list (map (\<lambda>(k, v, m). \<bar>m\<bar>) xs)"

definition mem_client :: "mem_etcd etcd_client" where
  "mem_client = \<lparr>et_Grant = (\<lambda>ttl xs. (Inr (mem_lease xs), xs)),
     et_Put = (\<lambda>k v l xs. (None, (k, v, l) # xs)),
     et_KeepAlive = (\<lambda>l xs. (None, xs)),
     et_Revoke = (\<lambda>l xs. (None, map (\<lambda>k. (k, the (map_of xs k))) (filter (\<lambda>k. snd (the (map_of xs k)) \<noteq> l) (map fst xs)))),
     et_Get = (\<lambda>p xs. (Inr (map (\<lambda>k. (k, fst (the (map_of xs k)))) (filter (prefix p) (map fst xs))), xs)),
     et_Close = (\<lambda>xs. (None, xs))\<rparr>"

lemma mem_lease_fresh: "(k, v, m) \<in> set xs \<Longrightarrow> m < mem_lease xs"
proof (induction xs)
  case (Cons x xs)
  have "0 \<le> sum_list (map (\<lambda>(k, v, m). \<bar>m\<bar>) ys)" for ys :: mem_etcd by (intro sum_list_nonneg) auto
  from this[of xs] Cons show ?case by (cases x) (auto simp: mem_lease_def)
qed simp

lemma map_of_key: "k \<in> set (map fst xs) \<longleftrightarrow> (\<exists>y. map_of xs k = Some y)"
  using map_of_eq_None_iff[of xs k] by (cases "map_of xs k") auto

lemma mem_client_laws: "etcd_laws mem_client map_of"
proof -
  have "kv \<noteq> Some (v, mem_lease xs)" if "kv = map_of xs k" for kv xs k v
    using that mem_lease_fresh[of k v "mem_lease xs" xs] by (auto dest: map_of_SomeD)
  moreover have "mem_lease xs \<noteq> 0" for xs
  proof -
    have "0 \<le> sum_list (map (\<lambda>(k, v, m). \<bar>m\<bar>) xs)" by (intro sum_list_nonneg) auto
    then show ?thesis by (simp add: mem_lease_def)
  qed
  moreover have "map_of (snd (et_Revoke mem_client l xs)) k =
      (case map_of xs k of Some (v, m) \<Rightarrow> if m = l then None else Some (v, m) | None \<Rightarrow> None)" for l xs k
  proof (cases "map_of xs k")
    case None
    then have "k \<notin> set (map fst xs)" by (simp only: map_of_key) simp
    with None show ?thesis by (simp add: mem_client_def map_of_map_restrict restrict_map_def)
  next
    case (Some y)
    then have "k \<in> set (map fst xs)" by (simp only: map_of_key) simp
    with Some show ?thesis by (cases y) (simp add: mem_client_def map_of_map_restrict restrict_map_def)
  qed
  moreover have "(k, v) \<in> set (map (\<lambda>k. (k, fst (the (map_of xs k)))) (filter (prefix p) (map fst xs))) \<longleftrightarrow>
      prefix p k \<and> (\<exists>l. map_of xs k = Some (v, l))" for k v p and xs :: mem_etcd
  proof -
    have "(k, v) \<in> set (map (\<lambda>k. (k, fst (the (map_of xs k)))) (filter (prefix p) (map fst xs))) \<longleftrightarrow>
        prefix p k \<and> k \<in> set (map fst xs) \<and> v = fst (the (map_of xs k))" by auto
    then show ?thesis unfolding map_of_key by auto
  qed
  ultimately show ?thesis unfolding etcd_laws_def
    by (auto simp: mem_client_def fun_eq_iff simp del: set_map)
qed

definition sample_register :: EtcdRegister where
  "sample_register = \<lparr>er_leaseID = 0, er_ttl = 10, er_prefix = ''/services/'', er_registry = None,
     er_config = \<lparr>ec_Endpoints = [], ec_DialTimeout = 0, ec_TTL = 0, ec_ServiceName = ''user'', ec_Address = ''10.0.0.1'',
       ec_Port = 80, ec_Tags = []\<rparr>\<rparr>"

definition sample_info :: "string \<Rightarrow> ServiceInfo" where
  "sample_info i = \<lparr>si_Name = ''user'', si_ID = i, si_Address = ''10.0.0.1'', si_Port = 80, si_Tags = [], si_Meta = []\<rparr>"

definition sample_marshal :: "ServiceInfo \<Rightarrow> string + string" where
  "sample_marshal i = (if i = sample_info (si_ID i) then Inr (si_ID i) else Inl ''unsupported'')"

lemma mem_register:
  "\<exists>r' e'. etcd_Register mem_client sample_marshal (sample_info i) r e = (None, r', e') \<and> er_prefix r' = er_prefix r"
  by (simp add: etcd_Register_def mem_client_def sample_marshal_def sample_info_def Let_def)

subsection \<open>The singleton\<close>

definition etcd_attempt where
  "etcd_attempt ls cl marshal parsed dial sid = (\<lambda>(st, e). etcd_Init ls cl marshal parsed dial sid st e)"

interpretation etcd_once: once_quiet "\<lambda>(st, e). es_done st" "etcd_attempt ls cl marshal parsed dial sid"
  for ls and cl :: "'e etcd_client" and marshal parsed dial sid
  by unfold_locales
    (auto simp: etcd_attempt_def etcd_Init_def Let_def split: prod.splits outcome.splits sum.splits if_splits)

section \<open>Properties\<close>

text \<open>What was registered is discovered: after a registration that succeeds, asking for the
  service by name answers the registered instance, and every instance that was found before is
  found as well (unless it had the same id).\<close>

theorem registered_is_discovered:
  assumes "etcd_laws cl kv" "\<And>i t. marshal i = Inr t \<Longrightarrow> unmarshal t = Some i"
    "etcd_Register cl marshal info r e = (None, r', e1)"
    "etcd_GetService cl unmarshal (si_Name info) r' e1 = (Inr found, e2)"
  shows "info \<in> set found \<and>
    (\<forall>k v m i. kv e k = Some (v, m) \<longrightarrow> k \<noteq> service_key r info \<longrightarrow>
       prefix (er_prefix r @ si_Name info @ ''/'') k \<longrightarrow> unmarshal v = Some i \<longrightarrow> i \<in> set found)"
proof -
  from etcd_Register_stores[OF assms(1,3)] obtain data where
    d: "marshal info = Inr data" "er_prefix r' = er_prefix r"
      "kv e1 = (kv e)(service_key r info \<mapsto> (data, er_leaseID r'))" by blast
  note found = etcd_GetService_set[OF assms(1,4), THEN conjunct2, unfolded d(2,3)]
  have "prefix (er_prefix r @ si_Name info @ ''/'') (service_key r info)" by (simp add: prefix_def)
  then have "info \<in> set found" unfolding found using assms(2)[OF d(1)] by fastforce
  moreover have "i \<in> set found" if "kv e k = Some (v, m)" "k \<noteq> service_key r info"
    "prefix (er_prefix r @ si_Name info @ ''/'') k" "unmarshal v = Some i" for k v m i
    unfolding found using that by fastforce
  ultimately show ?thesis by blast
qed

theorem registered_is_discovered_witness:
  "\<exists>r' e1 found. etcd_Register mem_client sample_marshal (sample_info ''user-1'') sample_register [] = (None, r', e1) \<and>
     etcd_GetService mem_client (\<lambda>t. Some (sample_info t)) ''user'' r' e1 = (Inr found, e1) \<and>
     sample_info ''user-1'' \<in> set found"
proof -
  obtain r' e1 where 1: "etcd_Register mem_client sample_marshal (sample_info ''user-1'') sample_register [] = (None, r', e1)"
    using mem_register by blast
  obtain found where 2: "etcd_GetService mem_client (\<lambda>t. Some (sample_info t)) (si_Name (sample_info ''user-1'')) r' e1 = (Inr found, e1)"
    by (simp add: etcd_GetService_def mem_client_def)
  have "unmarshal \<in> {\<lambda>t. Some (sample_info t)} \<Longrightarrow> sample_marshal i = Inr t \<Longrightarrow> unmarshal t = Some i" for i t unmarshal
    by (auto simp: sample_marshal_def split: if_splits)
  then have "sample_info ''user-1'' \<in> set found"
    using registered_is_discovered[OF mem_client_laws _ 1 2] by blast
  with 1 2 show ?thesis by (auto simp: sample_info_def)
qed

text \<open>\<open>Deregister\<close> takes no notice of the id it is given and revokes the lease of the last
  registration only: after registering two instances and deregistering the first by its id, the
  first is still in the registry and the second is gone.\<close>

theorem deregister_ignores_id:
  assumes "etcd_laws cl kv" "etcd_Register cl marshal i1 r e = (None, r1, e1)"
    "etcd_Register cl marshal i2 r1 e1 = (None, r2, e2)" "service_key r i1 \<noteq> service_key r i2"
    "etcd_Deregister cl (si_ID i1) r2 e2 = (None, r3, e3)"
  shows "(\<exists>d. marshal i1 = Inr d \<and> kv e3 (service_key r i1) = Some (d, er_leaseID r1)) \<and> kv e3 (service_key r i2) = None"
proof -
  from etcd_Register_stores[OF assms(1,2)] obtain d1 where
    d1: "marshal i1 = Inr d1" "er_prefix r1 = er_prefix r" "kv e1 = (kv e)(service_key r i1 \<mapsto> (d1, er_leaseID r1))" by blast
  from etcd_Register_stores[OF assms(1,3)] obtain d2 where
    d2: "er_leaseID r2 \<noteq> 0" "kv e2 = (kv e1)(service_key r i2 \<mapsto> (d2, er_leaseID r2))"
      "\<forall>k v. kv e1 k \<noteq> Some (v, er_leaseID r2)" using d1(2) by auto
  have rev: "et_Revoke cl (er_leaseID r2) e2 = (None, e3)"
    using assms(5) d2(1) by (auto simp: etcd_Deregister_def split: prod.splits)
  have "kv e1 (service_key r i1) = Some (d1, er_leaseID r1)" using d1(3) by simp
  then have "er_leaseID r1 \<noteq> er_leaseID r2" using d2(3) by metis
  then show ?thesis using etcd_lawsD(4)[OF assms(1) rev] d1 d2 assms(4) by simp
qed

theorem deregister_ignores_id_witness:
  "\<exists>r1 e1 r2 e2 r3 e3. etcd_Register mem_client sample_marshal (sample_info ''user-1'') sample_register [] = (None, r1, e1) \<and>
     etcd_Register mem_client sample_marshal (sample_info ''user-2'') r1 e1 = (None, r2, e2) \<and>
     etcd_Deregister mem_client ''user-1'' r2 e2 = (None, r3, e3) \<and>
     map_of e3 ''/services/user/user-1'' \<noteq> None \<and> map_of e3 ''/services/user/user-2'' = None"
proof -
  obtain r1 e1 where 1: "etcd_Register mem_client sample_marshal (sample_info ''user-1'') sample_register [] = (None, r1, e1)"
    using mem_register by blast
  obtain r2 e2 where 2: "etcd_Register mem_client sample_marshal (sample_info ''user-2'') r1 e1 = (None, r2, e2)"
    using mem_register by blast
  have "\<exists>r3 e3. etcd_Deregister mem_client (si_ID (sample_info ''user-1'')) r2 e2 = (None, r3, e3)"
    by (simp add: etcd_Deregister_def mem_client_def)
  then obtain r3 e3 where 3: "etcd_Deregister mem_client (si_ID (sample_info ''user-1'')) r2 e2 = (None, r3, e3)" by blast
  from deregister_ignores_id[OF mem_client_laws 1 2 _ 3] 1 2 3 show ?thesis
    by (auto simp: sample_info_def sample_register_def)
qed

end
