(* ===== verification/Databases.thy ===== *)
theory Databases
  imports Go_Errors Once_Init "HOL-Library.Char_ord"
begin

section \<open>The database layer\<close>

text \<open>
  Models the package \<open>databases\<close>: the DAO with its transactions (\<open>dao.go\<close>), the decorators and the session
  wrapper (\<open>common.go\<close>), entities (\<open>entity.go\<close>), pages, conditions, the configuration (\<open>constant.go\<close>), the
  choice of connections (\<open>mysql.go\<close>) and the manager (\<open>db_manager.go\<close>).

  gorm is a parameter: \<open>g_exec\<close> runs a statement, described by the chain of gorm calls the code builds,
  on the root connection or in a transaction, and \<open>g_begin\<close>, \<open>g_commit\<close>, \<open>g_rollback\<close> are its transaction
  calls, all on an abstract state \<open>'s\<close>. Values of type \<open>interface{}\<close> have the type \<open>'b\<close>.
\<close>

datatype db_error = RecordNotFound | DbErr string

datatype handle = Root | Tx nat

datatype 'b cond = CText string | CBean 'b

type_synonym 'b conds = "('b cond \<times> 'b list) list"

datatype 'b stmt =
    SCreate "'b list" "string list option option"
  | SUpdates 'b "'b conds"
  | SDelete 'b "'b option"
  | SFirst 'b 'b
  | SCount 'b "'b conds"
  | SFind "'b option" "'b conds" "(int \<times> int) option" string 'b
  | SRaw string "'b list"
  | SMigrate "'b list"

record stmt_result =
  res_Error :: "db_error option"
  res_RowsAffected :: int
  res_count :: int

record ('b, 's) gorm =
  g_begin :: "'s \<Rightarrow> (db_error option \<times> nat) \<times> 's"
  g_commit :: "nat \<Rightarrow> 's \<Rightarrow> db_error option \<times> 's"
  g_rollback :: "nat \<Rightarrow> 's \<Rightarrow> db_error option \<times> 's"
  g_exec :: "handle \<Rightarrow> 'b stmt \<Rightarrow> 's \<Rightarrow> stmt_result \<times> 's"

subsection \<open>Transactions of the DAO\<close>

record OrmBaseDao =
  dao_tx :: "nat option"
  dao_inTrans :: bool

definition NewBaseDao :: OrmBaseDao where
  "NewBaseDao = \<lparr>dao_tx = None, dao_inTrans = False\<rparr>"

definition NewSession :: "OrmBaseDao \<Rightarrow> OrmBaseDao" where
  "NewSession m = \<lparr>dao_tx = None, dao_inTrans = False\<rparr>"

definition dao_DB :: "OrmBaseDao \<Rightarrow> handle" where
  "dao_DB m = (if dao_inTrans m then (case dao_tx m of Some t \<Rightarrow> Tx t | None \<Rightarrow> Root) else Root)"

definition dao_Begin :: "('b, 's) gorm \<Rightarrow> OrmBaseDao \<times> 's \<Rightarrow> db_error option \<times> OrmBaseDao \<times> 's" where
  "dao_Begin g = (\<lambda>(m, s).
     if dao_inTrans m then (Some (DbErr ''transaction already started''), m, s)
     else case g_begin g s of
            ((err, t), s) \<Rightarrow>
              (let m = m\<lparr>dao_tx := Some t\<rparr>
               in case err of Some e \<Rightarrow> (Some e, m, s) | None \<Rightarrow> (None, m\<lparr>dao_inTrans := True\<rparr>, s)))"

definition dao_Close :: "('b, 's) gorm \<Rightarrow> OrmBaseDao \<times> 's \<Rightarrow> OrmBaseDao \<times> 's" where
  "dao_Close g = (\<lambda>(m, s).
     let s = (if dao_inTrans m then (case dao_tx m of Some t \<Rightarrow> snd (g_rollback g t s) | None \<Rightarrow> s) else s)
     in (m\<lparr>dao_inTrans := False, dao_tx := None\<rparr>, s))"

definition dao_Commit :: "('b, 's) gorm \<Rightarrow> OrmBaseDao \<times> 's \<Rightarrow> db_error option \<times> OrmBaseDao \<times> 's" where
  "dao_Commit g = (\<lambda>(m, s).
     case (dao_inTrans m, dao_tx m) of
       (True, Some t) \<Rightarrow> (let (err, s) = g_commit g t s in (err, m\<lparr>dao_inTrans := False, dao_tx := None\<rparr>, s))
     | _ \<Rightarrow> (Some (DbErr ''no active transaction''), m, s))"

definition dao_Rollback :: "('b, 's) gorm \<Rightarrow> OrmBaseDao \<times> 's \<Rightarrow> db_error option \<times> OrmBaseDao \<times> 's" where
  "dao_Rollback g = (\<lambda>(m, s).
     case (dao_inTrans m, dao_tx m) of
       (True, Some t) \<Rightarrow> (let (err, s) = g_rollback g t s in (err, m\<lparr>dao_inTrans := False, dao_tx := None\<rparr>, s))
     | _ \<Rightarrow> (Some (DbErr ''no active transaction''), m, s))"

subsection \<open>Statements of the DAO\<close>

definition affected :: "stmt_result \<Rightarrow> int \<times> db_error option" where
  "affected r = (case res_Error r of Some e \<Rightarrow> (0, Some e) | None \<Rightarrow> (res_RowsAffected r, None))"

definition run_stmt :: "('b, 's) gorm \<Rightarrow> OrmBaseDao \<Rightarrow> 'b stmt \<Rightarrow> 's \<Rightarrow> stmt_result \<times> 's" where
  "run_stmt g m st s = g_exec g (dao_DB m) st s"

definition InsertOne :: "('b, 's) gorm \<Rightarrow> OrmBaseDao \<Rightarrow> 'b \<Rightarrow> 's \<Rightarrow> (int \<times> db_error option) \<times> 's" where
  "InsertOne g m entry s = (let (r, s) = run_stmt g m (SCreate [entry] None) s in (affected r, s))"

definition InsertMany :: "('b, 's) gorm \<Rightarrow> OrmBaseDao \<Rightarrow> 'b list \<Rightarrow> 's \<Rightarrow> (int \<times> db_error option) \<times> 's" where
  "InsertMany g m entries s =
     (if length entries = 0 then ((0, None), s)
      else (let (r, s) = run_stmt g m (SCreate entries None) s in (affected r, s)))"

definition dao_Update :: "('b, 's) gorm \<Rightarrow> OrmBaseDao \<Rightarrow> 'b \<Rightarrow> 'b list \<Rightarrow> 's \<Rightarrow> (int \<times> db_error option) \<times> 's" where
  "dao_Update g m bean wh s =
     (let query = (case wh of [] \<Rightarrow> [] | [w] \<Rightarrow> [(CBean w, [])] | w # ws \<Rightarrow> [(CBean w, ws)]);
          (r, s) = run_stmt g m (SUpdates bean query) s
      in (affected r, s))"

definition UpdateById :: "('b, 's) gorm \<Rightarrow> OrmBaseDao \<Rightarrow> 'b \<Rightarrow> 'b \<Rightarrow> 's \<Rightarrow> (int \<times> db_error option) \<times> 's" where
  "UpdateById g m i bean s = (let (r, s) = run_stmt g m (SUpdates bean [(CText ''id = ?'', [i])]) s in (affected r, s))"

definition Upsert :: "('b, 's) gorm \<Rightarrow> OrmBaseDao \<Rightarrow> 'b \<Rightarrow> 's \<Rightarrow> (int \<times> db_error option) \<times> 's" where
  "Upsert g m bean s = (let (r, s) = run_stmt g m (SCreate [bean] (Some None)) s in (affected r, s))"

definition UpsertById :: "('b, 's) gorm \<Rightarrow> OrmBaseDao \<Rightarrow> 'b \<Rightarrow> 'b \<Rightarrow> 's \<Rightarrow> (int \<times> db_error option) \<times> 's" where
  "UpsertById g m i bean s = (let (r, s) = run_stmt g m (SCreate [bean] (Some (Some [''id'']))) s in (affected r, s))"

fun UpsertMany_loop :: "('b, 's) gorm \<Rightarrow> OrmBaseDao \<Rightarrow> int \<Rightarrow> 'b list \<Rightarrow> 's \<Rightarrow> (int \<times> db_error option) \<times> 's" where
  "UpsertMany_loop g m totalAffected [] s = ((totalAffected, None), s)"
| "UpsertMany_loop g m totalAffected (bean # beans) s =
     (case Upsert g m bean s of
        ((_, Some e), s) \<Rightarrow> ((totalAffected, Some e), s)
      | ((n, None), s) \<Rightarrow> UpsertMany_loop g m (totalAffected + n) beans s)"

definition UpsertMany where
  "UpsertMany g m beans s = UpsertMany_loop g m 0 beans s"

definition dao_Delete :: "('b, 's) gorm \<Rightarrow> OrmBaseDao \<Rightarrow> 'b \<Rightarrow> 's \<Rightarrow> (int \<times> db_error option) \<times> 's" where
  "dao_Delete g m bean s = (let (r, s) = run_stmt g m (SDelete bean None) s in (affected r, s))"

definition DeleteById :: "('b, 's) gorm \<Rightarrow> OrmBaseDao \<Rightarrow> 'b \<Rightarrow> 'b \<Rightarrow> 's \<Rightarrow> (int \<times> db_error option) \<times> 's" where
  "DeleteById g m i bean s = (let (r, s) = run_stmt g m (SDelete bean (Some i)) s in (affected r, s))"

definition dao_Query :: "('b, 's) gorm \<Rightarrow> OrmBaseDao \<Rightarrow> string \<Rightarrow> 'b list \<Rightarrow> 's \<Rightarrow> db_error option \<times> 's" where
  "dao_Query g m sql Args s = (let (r, s) = run_stmt g m (SRaw sql Args) s in (res_Error r, s))"

definition found :: "stmt_result \<Rightarrow> bool \<times> db_error option" where
  "found r = (case res_Error r of
     Some RecordNotFound \<Rightarrow> (False, None) | Some e \<Rightarrow> (False, Some e) | None \<Rightarrow> (True, None))"

definition FindById :: "('b, 's) gorm \<Rightarrow> OrmBaseDao \<Rightarrow> 'b \<Rightarrow> 'b \<Rightarrow> 's \<Rightarrow> (bool \<times> db_error option) \<times> 's" where
  "FindById g m i bean s = (let (r, s) = run_stmt g m (SFirst bean i) s in (found r, s))"

definition FindOne :: "('b, 's) gorm \<Rightarrow> OrmBaseDao \<Rightarrow> 'b \<Rightarrow> 's \<Rightarrow> (bool \<times> db_error option) \<times> 's" where
  "FindOne g m bean s = (let (r, s) = run_stmt g m (SFirst bean bean) s in (found r, s))"

definition Count :: "('b, 's) gorm \<Rightarrow> OrmBaseDao \<Rightarrow> 'b \<Rightarrow> 's \<Rightarrow> (int \<times> db_error option) \<times> 's" where
  "Count g m bean s = (let (r, s) = run_stmt g m (SCount bean []) s in ((res_count r, res_Error r), s))"

definition Exists :: "('b, 's) gorm \<Rightarrow> OrmBaseDao \<Rightarrow> 'b \<Rightarrow> 's \<Rightarrow> (bool \<times> db_error option) \<times> 's" where
  "Exists g m bean s =
     (case Count g m bean s of
        ((_, Some e), s) \<Rightarrow> ((False, Some e), s)
      | ((n, None), s) \<Rightarrow> ((n > 0, None), s))"

definition first_cond :: "'b list \<Rightarrow> 'b conds" where
  "first_cond condiBean = (case condiBean of [] \<Rightarrow> [] | c # _ \<Rightarrow> [(CBean c, [])])"

definition FindMany :: "('b, 's) gorm \<Rightarrow> OrmBaseDao \<Rightarrow> 'b \<Rightarrow> string \<Rightarrow> 'b list \<Rightarrow> 's \<Rightarrow> db_error option \<times> 's" where
  "FindMany g m rows sortBy condiBean s =
     (let (r, s) = run_stmt g m (SFind None (first_cond condiBean) None sortBy rows) s in (res_Error r, s))"

record Pageable =
  pg_skip :: int
  pg_limit :: int
  pg_sort :: string

definition NewPageable :: "int \<Rightarrow> int \<Rightarrow> string \<Rightarrow> Pageable" where
  "NewPageable skip limit sortBy = \<lparr>pg_skip = skip, pg_limit = limit, pg_sort = sortBy\<rparr>"

text \<open>\<open>model_of\<close> is the reflection on the rows pointer: a new element, when it points to a slice.\<close>

definition FindAndCount ::
  "('b, 's) gorm \<Rightarrow> ('b \<Rightarrow> 'b option) \<Rightarrow> OrmBaseDao \<Rightarrow> 'b \<Rightarrow> Pageable \<Rightarrow> 'b list \<Rightarrow> 's \<Rightarrow> (int \<times> db_error option) \<times> 's" where
  "FindAndCount g model_of m rows pageable condiBean s =
     (case model_of rows of
        None \<Rightarrow> ((0, Some (DbErr ''rowsSlicePtr must be a pointer to slice'')), s)
      | Some model \<Rightarrow>
          (let (r, s) = run_stmt g m (SCount model (first_cond condiBean)) s
           in case res_Error r of
                Some e \<Rightarrow> ((0, Some e), s)
              | None \<Rightarrow>
                  (let (r2, s) = run_stmt g m (SFind (Some model) (first_cond condiBean)
                         (Some (pg_skip pageable, pg_limit pageable)) (pg_sort pageable) rows) s
                   in ((res_count r, res_Error r2), s))))"

definition Migrations :: "('b, 's) gorm \<Rightarrow> 'b list \<Rightarrow> 's \<Rightarrow> db_error option \<times> 's" where
  "Migrations g tables s = (let (r, s) = g_exec g Root (SMigrate tables) s in (res_Error r, s))"

definition quoted :: "string \<Rightarrow> string" where
  "quoted t = [CHR 0x27] @ t @ [CHR 0x27]"

definition metas_query :: "string \<Rightarrow> string option" where
  "metas_query dialect =
     (if dialect = ''mysql'' then Some ''SHOW TABLES''
      else if dialect = ''postgres''
      then Some (''SELECT tablename FROM pg_tables WHERE schemaname = '' @ quoted ''public'')
      else None)"

text \<open>\<open>scan\<close> runs a raw query on the root connection and answers the rows it filled in.\<close>

definition GetDBMetas ::
  "string \<Rightarrow> (string \<Rightarrow> 'b list \<Rightarrow> 's \<Rightarrow> (db_error + string list) \<times> 's) \<Rightarrow> 's \<Rightarrow> (db_error + string set) \<times> 's" where
  "GetDBMetas dialect scan s =
     (case metas_query dialect of
        None \<Rightarrow> (Inl (DbErr ''unsupported database type''), s)
      | Some query \<Rightarrow>
          (case scan query [] s of
             (Inl e, s) \<Rightarrow> (Inl e, s)
           | (Inr tables, s) \<Rightarrow> (Inr (set tables), s)))"

text \<open>The queries are the source's, with the white space of the raw strings written as one blank.\<close>

definition table_metas_query :: "string \<Rightarrow> string option" where
  "table_metas_query dialect =
     (if dialect = ''mysql''
      then Some ''SELECT COLUMN_NAME, COLUMN_TYPE, IS_NULLABLE, COLUMN_KEY, COLUMN_DEFAULT, EXTRA FROM information_schema.COLUMNS WHERE TABLE_SCHEMA = DATABASE() AND TABLE_NAME = ?''
      else if dialect = ''postgres''
      then Some (''SELECT column_name, data_type, is_nullable FROM information_schema.columns WHERE table_name = ? AND table_schema = '' @ quoted ''public'')
      else None)"

definition GetTableMetas ::
  "string \<Rightarrow> (string \<Rightarrow> string list \<Rightarrow> 's \<Rightarrow> (db_error + 'r list) \<times> 's) \<Rightarrow> string \<Rightarrow> 's \<Rightarrow> (db_error + 'r list) \<times> 's" where
  "GetTableMetas dialect scan tableName s =
     (case table_metas_query dialect of
        None \<Rightarrow> (Inl (DbErr ''unsupported database type''), s)
      | Some query \<Rightarrow> scan query [tableName] s)"

subsection \<open>Stored procedures\<close>

definition proc_char :: "char \<Rightarrow> bool" where
  "proc_char c \<longleftrightarrow> (CHR ''a'' \<le> c \<and> c \<le> CHR ''z'') \<or> (CHR ''A'' \<le> c \<and> c \<le> CHR ''Z'') \<or>
     (CHR ''0'' \<le> c \<and> c \<le> CHR ''9'') \<or> c = CHR ''_'' \<or> c = CHR ''.''"

fun placeholders_loop :: "nat \<Rightarrow> 'b list \<Rightarrow> string \<Rightarrow> string" where
  "placeholders_loop i [] acc = acc"
| "placeholders_loop i (_ # args) acc =
     placeholders_loop (Suc i) args ((if i > 0 then acc @ '', '' else acc) @ ''?'')"

definition call_sql :: "string \<Rightarrow> 'b list \<Rightarrow> string" where
  "call_sql procName args = ''CALL '' @ procName @ ''('' @ placeholders_loop 0 args [] @ '')''"

text \<open>A result set as the driver delivers it: its columns or an error, and its rows, each with its
  values or a scan error. Byte slices become strings.\<close>

datatype sql_value = VBytes string | VString string | VOther int

definition plain_value :: "sql_value \<Rightarrow> sql_value" where
  "plain_value v = (case v of VBytes b \<Rightarrow> VString b | _ \<Rightarrow> v)"

type_synonym result_set = "db_error + (string list \<times> (db_error + sql_value list) list)"

fun read_rows :: "string list \<Rightarrow> (db_error + sql_value list) list \<Rightarrow> db_error + (string \<times> sql_value) list list" where
  "read_rows columns [] = Inr []"
| "read_rows columns (Inl e # rows) = Inl e"
| "read_rows columns (Inr values # rows) =
     (case read_rows columns rows of
        Inl e \<Rightarrow> Inl e
      | Inr rs \<Rightarrow> Inr (zip columns (map plain_value values) # rs))"

fun read_sets :: "result_set list \<Rightarrow> db_error + (string \<times> sql_value) list list list" where
  "read_sets [] = Inr []"
| "read_sets (Inl e # sets) = Inl e"
| "read_sets (Inr (columns, rows) # sets) =
     (case read_rows columns rows of
        Inl e \<Rightarrow> Inl e
      | Inr rs \<Rightarrow> (case read_sets sets of Inl e \<Rightarrow> Inl e | Inr rss \<Rightarrow> Inr (rs # rss)))"

definition CallProcedure ::
  "(string \<Rightarrow> 'b list \<Rightarrow> 's \<Rightarrow> (db_error + result_set list) \<times> 's) \<Rightarrow> string \<Rightarrow> 'b list \<Rightarrow> 's \<Rightarrow>
     (db_error + (string \<times> sql_value) list list list) \<times> 's" where
  "CallProcedure query procName args s =
     (if \<not> list_all proc_char procName then (Inl (DbErr (''invalid procedure name: '' @ procName)), s)
      else case query (call_sql procName args) args s of
             (Inl e, s) \<Rightarrow> (Inl e, s)
           | (Inr sets, s) \<Rightarrow> (read_sets sets, s))"

subsection \<open>Decorators\<close>

datatype decorated_error = ErrGetEmpty | ErrUpdatedEmpty | ErrInsertedEmpty | ErrDeletedEmpty | CallErr db_error

definition DoGet :: "bool \<times> db_error option \<Rightarrow> decorated_error option" where
  "DoGet r = (case r of (has, Some e) \<Rightarrow> Some (CallErr e) | (has, None) \<Rightarrow> if \<not> has then Some ErrGetEmpty else None)"

definition DoUpdate :: "int \<times> db_error option \<Rightarrow> decorated_error option" where
  "DoUpdate r = (case r of (n, Some e) \<Rightarrow> Some (CallErr e) | (n, None) \<Rightarrow> if 0 = n then Some ErrUpdatedEmpty else None)"

definition DoInsert :: "int \<times> db_error option \<Rightarrow> decorated_error option" where
  "DoInsert r = (case r of (n, Some e) \<Rightarrow> Some (CallErr e) | (n, None) \<Rightarrow> if 0 = n then Some ErrInsertedEmpty else None)"

definition DoDelete :: "int \<times> db_error option \<Rightarrow> decorated_error option" where
  "DoDelete r = (case r of (n, Some e) \<Rightarrow> Some (CallErr e) | (n, None) \<Rightarrow> if 0 = n then Some ErrDeletedEmpty else None)"

datatype SessionDoctor = SessionDoctorCommit | SessionDoctorRollback

text \<open>The handler's value, verdict and error, or a panic. A panic is recovered after the rollback, and
  the function then returns the zero values of its unnamed results.\<close>

definition WarpSession ::
  "('b, 's) gorm \<Rightarrow> (nat \<Rightarrow> 's \<Rightarrow> ('v option \<times> SessionDoctor \<times> db_error option) result \<times> 's) \<Rightarrow> 's \<Rightarrow>
     ('v option \<times> int \<times> db_error option) \<times> 's" where
  "WarpSession g h s =
     (case g_begin g s of
        ((Some e, _), s) \<Rightarrow> ((None, 0, Some e), s)
      | ((None, tx), s) \<Rightarrow>
          (case h tx s of
             (Panic _, s) \<Rightarrow> ((None, 0, None), snd (g_rollback g tx s))
           | (Ok (val, doctor, Some e), s) \<Rightarrow> ((None, 0, Some e), snd (g_rollback g tx s))
           | (Ok (val, doctor, None), s) \<Rightarrow>
               (let (err, s) = (if doctor = SessionDoctorCommit then g_commit g tx s else g_rollback g tx s)
                in case err of Some e \<Rightarrow> ((None, 0, Some e), s) | None \<Rightarrow> ((val, 0, None), s))))"

subsection \<open>The session wrapper\<close>

text \<open>It works on any \<open>SessionDao\<close>: the operations it calls, on the state \<open>'d\<close> of the session.\<close>

record 'd session_ops =
  so_begin :: "'d \<Rightarrow> db_error option \<times> 'd"
  so_commit :: "'d \<Rightarrow> db_error option \<times> 'd"
  so_rollback :: "'d \<Rightarrow> db_error option \<times> 'd"
  so_close :: "'d \<Rightarrow> 'd"

record 'd SessionWrapper =
  sw_session :: 'd
  sw_err :: "db_error option"

definition NewSessionWrapper :: "'d session_ops \<Rightarrow> 'd \<Rightarrow> 'd SessionWrapper" where
  "NewSessionWrapper ops d = (let (err, d) = so_begin ops d in \<lparr>sw_session = d, sw_err = err\<rparr>)"

definition Execute :: "'d session_ops \<Rightarrow> ('d \<Rightarrow> db_error option \<times> 'd) \<Rightarrow> 'd SessionWrapper \<Rightarrow> 'd SessionWrapper" where
  "Execute ops call sw =
     (if sw_err sw \<noteq> None then sw
      else case call (sw_session sw) of
             (None, d) \<Rightarrow> sw\<lparr>sw_session := d\<rparr>
           | (Some e, d) \<Rightarrow> \<lparr>sw_session = snd (so_rollback ops d), sw_err = Some e\<rparr>)"

definition wrapper_Commit :: "'d session_ops \<Rightarrow> 'd SessionWrapper \<Rightarrow> db_error option \<times> 'd" where
  "wrapper_Commit ops sw =
     (case sw_err sw of
        None \<Rightarrow> so_commit ops (sw_session sw)
      | Some e \<Rightarrow> (Some e, snd (so_rollback ops (sw_session sw))))"

definition CommitAndClose :: "'d session_ops \<Rightarrow> 'd SessionWrapper \<Rightarrow> db_error option \<times> 'd" where
  "CommitAndClose ops sw =
     (let (err, d) = (case sw_err sw of None \<Rightarrow> wrapper_Commit ops sw | Some e \<Rightarrow> (Some e, sw_session sw))
      in (err, so_close ops d))"

definition wrapper_Close :: "'d session_ops \<Rightarrow> 'd SessionWrapper \<Rightarrow> db_error option \<times> 'd" where
  "wrapper_Close ops sw =
     (let d = (case sw_err sw of None \<Rightarrow> sw_session sw | Some _ \<Rightarrow> snd (so_rollback ops (sw_session sw)))
      in (sw_err sw, so_close ops d))"

text \<open>The operations of the DAO as a session.\<close>

definition orm_session :: "('b, 's) gorm \<Rightarrow> (OrmBaseDao \<times> 's) session_ops" where
  "orm_session g = \<lparr>so_begin = dao_Begin g, so_commit = dao_Commit g, so_rollback = dao_Rollback g, so_close = dao_Close g\<rparr>"

text \<open>The use the wrapper is made for: begin, a sequence of calls, commit and close.\<close>

definition wrapped_run :: "'d session_ops \<Rightarrow> ('d \<Rightarrow> db_error option \<times> 'd) list \<Rightarrow> 'd \<Rightarrow> db_error option \<times> 'd" where
  "wrapped_run ops calls d = CommitAndClose ops (foldl (\<lambda>sw call. Execute ops call sw) (NewSessionWrapper ops d) calls)"

subsection \<open>Entities\<close>

record 'b entity =
  en_session :: "OrmBaseDao option"
  en_dao :: OrmBaseDao
  en_objectPtr :: 'b

definition NewEntity :: "OrmBaseDao \<Rightarrow> 'b \<Rightarrow> 'b entity" where
  "NewEntity dao objectPtr = \<lparr>en_session = None, en_dao = dao, en_objectPtr = objectPtr\<rparr>"

definition entity_NewSession :: "'b entity \<Rightarrow> 'b entity" where
  "entity_NewSession e = e\<lparr>en_session := Some (NewSession (en_dao e))\<rparr>"

definition entity_dao :: "'b entity \<Rightarrow> OrmBaseDao" where
  "entity_dao e = (case en_session e of Some d \<Rightarrow> d | None \<Rightarrow> en_dao e)"

definition entity_Exists where "entity_Exists g e s = Exists g (entity_dao e) (en_objectPtr e) s"
definition entity_Count where "entity_Count g e s = Count g (entity_dao e) (en_objectPtr e) s"
definition entity_Create where "entity_Create g e s = InsertOne g (entity_dao e) (en_objectPtr e) s"
definition entity_Update where "entity_Update g e wh s = dao_Update g (entity_dao e) (en_objectPtr e) wh s"
definition entity_Delete where "entity_Delete g e s = dao_Delete g (entity_dao e) (en_objectPtr e) s"
definition entity_Get where "entity_Get g e s = FindOne g (entity_dao e) (en_objectPtr e) s"

text \<open>\<open>pk\<close> is the assertion to \<open>Table\<close> with its primary key; \<^term>\<open>None\<close> panics.\<close>

definition entity_Entity :: "'b entity \<Rightarrow> 'b" where "entity_Entity e = en_objectPtr e"
definition entity_Id :: "('b \<Rightarrow> 'i option) \<Rightarrow> 'b entity \<Rightarrow> 'i option" where "entity_Id pk e = pk (en_objectPtr e)"

definition UpdateByPk where
  "UpdateByPk g pk e s = map_option (\<lambda>i. UpdateById g (entity_dao e) i (en_objectPtr e) s) (pk (en_objectPtr e))"

definition DeleteByPk where
  "DeleteByPk g pk e s = map_option (\<lambda>i. DeleteById g (entity_dao e) i (en_objectPtr e) s) (pk (en_objectPtr e))"

text \<open>The session methods use the session without a check: without one they panic.\<close>

definition on_session ::
  "(OrmBaseDao \<times> 's \<Rightarrow> db_error option \<times> OrmBaseDao \<times> 's) \<Rightarrow> 'b entity \<Rightarrow> 's \<Rightarrow> (db_error option \<times> 'b entity \<times> 's) option" where
  "on_session f e s =
     (case en_session e of
        None \<Rightarrow> None
      | Some d \<Rightarrow> (let (err, d, s) = f (d, s) in Some (err, e\<lparr>en_session := Some d\<rparr>, s)))"

definition entity_Begin where "entity_Begin g = on_session (dao_Begin g)"
definition entity_Commit where "entity_Commit g = on_session (dao_Commit g)"
definition entity_Rollback where "entity_Rollback g = on_session (dao_Rollback g)"
definition entity_Close where "entity_Close g = on_session (\<lambda>ms. (None, dao_Close g ms))"

definition CheckWhereInfo :: "string \<Rightarrow> 'b option \<Rightarrow> string \<Rightarrow> (bool \<times> string \<times> 'b) list \<Rightarrow> (bool \<times> string \<times> 'b) list" where
  "CheckWhereInfo w v tp db =
     (case v of
        None \<Rightarrow> db
      | Some v \<Rightarrow>
          if tp = ''and'' then db @ [(True, w, v)]
          else if tp = ''in'' then db @ [(True, w @ '' IN ?'', v)]
          else if tp = ''or'' then db @ [(False, w, v)]
          else if tp = ''notin'' then db @ [(True, w @ '' NOT IN ?'', v)]
          else if tp = ''where'' then db @ [(True, w, v)]
          else db)"

subsection \<open>Configuration and connections\<close>

record db_config =
  dc_Name :: string
  dc_MaxIdle :: int
  dc_MaxConn :: int
  dc_Master :: string
  dc_Slaves :: "string list"
  dc_UseMasterSlave :: bool
  dc_DbType :: string

definition Config_Validate :: "db_config \<Rightarrow> string option" where
  "Config_Validate c =
     (if dc_Name c = '''' then Some ''database name is required''
      else if dc_Master c = '''' then Some ''master connection string is required''
      else if dc_MaxIdle c < 0 then Some ''max_idle must be >= 0''
      else if dc_MaxConn c \<le> 0 then Some ''max_conn must be > 0''
      else if dc_MaxIdle c > dc_MaxConn c then Some ''max_idle cannot be greater than max_conn''
      else None)"

definition Config_SetDefaults :: "db_config \<Rightarrow> db_config" where
  "Config_SetDefaults c =
     (let c = (if dc_MaxIdle c = 0 then c\<lparr>dc_MaxIdle := 10\<rparr> else c);
          c = (if dc_MaxConn c = 0 then c\<lparr>dc_MaxConn := 100\<rparr> else c)
      in if dc_DbType c = '''' then c\<lparr>dc_DbType := ''mysql''\<rparr> else c)"

text \<open>A connection is described by what is opened: driver, address, pool sizes, replicas. \<open>open_conn\<close>
  and \<open>use_replicas\<close> are gorm's.\<close>

record db_conn =
  cn_driver :: string
  cn_dsn :: string
  cn_pool :: "int \<times> int"
  cn_replicas :: "(string \<times> string) list"

definition dialect_of :: "string \<Rightarrow> string" where
  "dialect_of t = (if t = ''mysql'' then ''mysql'' else if t = ''postgres'' then ''postgres'' else ''mysql'')"

definition NewSingleConn :: "(string \<Rightarrow> string \<Rightarrow> string option) \<Rightarrow> db_config option \<Rightarrow> string + db_conn" where
  "NewSingleConn open_conn c =
     (case c of
        None \<Rightarrow> Inl ''config or config.Url can not be null''
      | Some c \<Rightarrow>
          if dc_Master c = '''' then Inl ''config or config.Url can not be null''
          else (case open_conn (dialect_of (dc_DbType c)) (dc_Master c) of
                  Some e \<Rightarrow> Inl e
                | None \<Rightarrow> Inr \<lparr>cn_driver = dialect_of (dc_DbType c), cn_dsn = dc_Master c,
                    cn_pool = (dc_MaxIdle c, dc_MaxConn c), cn_replicas = []\<rparr>))"

definition NewMSConn ::
  "(string \<Rightarrow> string \<Rightarrow> string option) \<Rightarrow> ((string \<times> string) list \<Rightarrow> string option) \<Rightarrow> db_config option \<Rightarrow> string + db_conn" where
  "NewMSConn open_conn use_replicas c =
     (case c of
        None \<Rightarrow> Inl ''config or config.Url can not be null''
      | Some cfg \<Rightarrow>
          if dc_Master cfg = '''' then Inl ''config or config.Url can not be null''
          else (case NewSingleConn open_conn c of
                  Inl e \<Rightarrow> Inl e
                | Inr conn \<Rightarrow>
                    if length (dc_Slaves cfg) = 0 then Inr conn
                    else let replicas = map (\<lambda>slave. (if dc_DbType cfg = ''postgres'' then ''postgres'' else ''mysql'', slave))
                                            (dc_Slaves cfg)
                         in case use_replicas replicas of
                              Some e \<Rightarrow> Inl e
                            | None \<Rightarrow> Inr (conn\<lparr>cn_replicas := replicas\<rparr>)))"

definition NewDBInterface ::
  "(string \<Rightarrow> string \<Rightarrow> string option) \<Rightarrow> ((string \<times> string) list \<Rightarrow> string option) \<Rightarrow> db_config \<Rightarrow> db_conn outcome" where
  "NewDBInterface open_conn use_replicas c =
     (if dc_UseMasterSlave c
      then (case NewMSConn open_conn use_replicas (Some c) of Inl _ \<Rightarrow> Panicked | Inr conn \<Rightarrow> Returned conn)
      else (case NewSingleConn open_conn (Some c) of Inl _ \<Rightarrow> Panicked | Inr conn \<Rightarrow> Returned conn))"

text \<open>\<open>GetConnStr\<close> fills a template with the entries of a map; \<open>print\<close> prints a value, and a key that is missing prints as
  \<open><no value>\<close>.\<close>

definition template_field :: "('b \<Rightarrow> string) \<Rightarrow> (string \<rightharpoonup> 'b) \<Rightarrow> string \<Rightarrow> string" where
  "template_field print c key = (case c key of None \<Rightarrow> ''<no value>'' | Some v \<Rightarrow> print v)"

definition GetConnStr :: "('b \<Rightarrow> string) \<Rightarrow> (string \<rightharpoonup> 'b) \<Rightarrow> string \<Rightarrow> string + string" where
  "GetConnStr print c t =
     (let f = template_field print c
      in if t = ''mysql''
         then Inr (f ''user'' @ '':'' @ f ''pwd'' @ ''@tcp('' @ f ''host'' @ '':'' @ f ''port'' @ '')/'' @ f ''db'' @
                   ''?charset=utf8mb4&parseTime=true&loc=Local'')
         else if t = ''postgres''
         then Inr (''host='' @ f ''host'' @ '' port='' @ f ''port'' @ '' user='' @ f ''user'' @ '' dbname='' @ f ''db'' @
                   '' password='' @ f ''pwd'' @ '' sslmode=disable'')
         else Inl ''unsupported db type'')"

text \<open>\<open>ztime\<close>: a time printed without its zone; \<open>format\<close> is \<open>Time.Format\<close>.\<close>

definition ztime_Format where "ztime_Format format t = format ''2006-01-02 15:04:05'' t"
definition ztime_FormatSimple where "ztime_FormatSimple format t = format ''2006-01-02'' t"
definition ztime_MarshalJSON where "ztime_MarshalJSON format t = CHR 0x22 # format ''2006-01-02 15:04:05'' t @ [CHR 0x22]"

subsection \<open>The manager\<close>

text \<open>The package variables: the configurations, whether the once is spent, and the manager's map.\<close>

record db_manager =
  dm_config :: "db_config list"
  dm_once :: bool
  dm_db :: "(string \<rightharpoonup> db_conn) option"

text \<open>\<open>single\<close> and \<open>multiple\<close> are what decoding the bytes as one and as several configurations answers.\<close>

definition databases_Init :: "string \<Rightarrow> db_config option \<Rightarrow> db_config list option \<Rightarrow> db_manager \<Rightarrow> unit outcome \<times> db_manager" where
  "databases_Init config single multiple st =
     (if length config = 0 then (Panicked, st)
      else case single of
             Some c \<Rightarrow>
               if dc_Name c \<noteq> '''' then (Returned (), st\<lparr>dm_config := [c]\<rparr>)
               else (case multiple of None \<Rightarrow> (Panicked, st) | Some cs \<Rightarrow> (Returned (), st\<lparr>dm_config := cs\<rparr>))
           | None \<Rightarrow> (case multiple of None \<Rightarrow> (Panicked, st) | Some cs \<Rightarrow> (Returned (), st\<lparr>dm_config := cs\<rparr>)))"

fun open_all :: "(db_config \<Rightarrow> db_conn outcome) \<Rightarrow> db_config list \<Rightarrow> (string \<rightharpoonup> db_conn) \<Rightarrow> unit outcome \<times> (string \<rightharpoonup> db_conn)" where
  "open_all new_conn [] m = (Returned (), m)"
| "open_all new_conn (cfg # cfgs) m =
     (let cfg = Config_SetDefaults cfg
      in case Config_Validate cfg of
           Some _ \<Rightarrow> (Panicked, m)
         | None \<Rightarrow>
             (case new_conn cfg of
                Panicked \<Rightarrow> (Panicked, m)
              | Returned db \<Rightarrow> open_all new_conn cfgs (m(dc_Name cfg \<mapsto> db))))"

definition GetDatabaseManager ::
  "(db_config \<Rightarrow> db_conn outcome) \<Rightarrow> db_manager \<Rightarrow> (string \<rightharpoonup> db_conn) option outcome \<times> db_manager" where
  "GetDatabaseManager new_conn st =
     (if dm_config st = [] then (Panicked, st)
      else if dm_once st then (Returned (dm_db st), st)
      else case open_all new_conn (dm_config st) Map.empty of
             (Panicked, m) \<Rightarrow> (Panicked, st\<lparr>dm_once := True, dm_db := Some m\<rparr>)
           | (Returned _, m) \<Rightarrow> (Returned (Some m), st\<lparr>dm_once := True, dm_db := Some m\<rparr>))"

definition GetDBDao :: "(string \<rightharpoonup> db_conn) \<Rightarrow> string \<Rightarrow> OrmBaseDao option" where
  "GetDBDao m name = (case m name of Some _ \<Rightarrow> Some NewBaseDao | None \<Rightarrow> None)"

definition GetDbInterface :: "(string \<rightharpoonup> db_conn) \<Rightarrow> string \<Rightarrow> db_conn option" where
  "GetDbInterface m name = m name"

section \<open>Lemmas\<close>

subsection \<open>The contract of a session\<close>

datatype tx_event = Began nat | Committed nat | RolledBack nat

text \<open>A call that runs statements but does not itself begin or end transactions.\<close>

definition leaves_tx :: "('d \<Rightarrow> nat option) \<Rightarrow> ('d \<Rightarrow> tx_event list) \<Rightarrow> ('d \<Rightarrow> db_error option \<times> 'd) \<Rightarrow> bool" where
  "leaves_tx active trace call \<longleftrightarrow> (\<forall>d. active (snd (call d)) = active d \<and> trace (snd (call d)) = trace d)"

text \<open>What a transactional session promises: a successful begin opens one transaction, commit and
  rollback end it, closing rolls back what is open, and no operation does anything else to
  transactions. \<open>active\<close> is the open transaction, \<open>trace\<close> the transaction calls made so far.\<close>

locale tx_session =
  fixes ops :: "'d session_ops"
    and active :: "'d \<Rightarrow> nat option"
    and trace :: "'d \<Rightarrow> tx_event list"
  assumes begin_ok: "active d = None \<Longrightarrow> so_begin ops d = (None, d') \<Longrightarrow>
      \<exists>t. active d' = Some t \<and> trace d' = trace d @ [Began t]"
    and begin_failed: "active d = None \<Longrightarrow> so_begin ops d = (Some e, d') \<Longrightarrow> active d' = None \<and> trace d' = trace d"
    and commit_ends: "active d = Some t \<Longrightarrow> so_commit ops d = (r, d') \<Longrightarrow>
      active d' = None \<and> trace d' = trace d @ [Committed t]"
    and rollback_ends: "active d = Some t \<Longrightarrow> so_rollback ops d = (r, d') \<Longrightarrow>
      active d' = None \<and> trace d' = trace d @ [RolledBack t]"
    and close_idle: "active d = None \<Longrightarrow> active (so_close ops d) = None \<and> trace (so_close ops d) = trace d"
begin

lemma Execute_failed: "sw_err sw \<noteq> None \<Longrightarrow> foldl (\<lambda>sw call. Execute ops call sw) sw calls = sw"
  by (induction calls) (simp_all add: Execute_def)

text \<open>Executing a sequence of calls on an open transaction: either all succeed and the transaction
  is still open, or the first failure rolls it back.\<close>

lemma Execute_all:
  assumes "\<forall>c \<in> set calls. leaves_tx active trace c" "sw_err sw = None" "active (sw_session sw) = Some t"
    "foldl (\<lambda>sw call. Execute ops call sw) sw calls = sw'"
  shows "(sw_err sw' = None \<and> active (sw_session sw') = Some t \<and> trace (sw_session sw') = trace (sw_session sw)) \<or>
    (sw_err sw' \<noteq> None \<and> active (sw_session sw') = None \<and> trace (sw_session sw') = trace (sw_session sw) @ [RolledBack t])"
  using assms
proof (induction calls arbitrary: sw)
  case (Cons call calls)
  obtain err d where c: "call (sw_session sw) = (err, d)" by fastforce
  with Cons.prems have d: "active d = Some t" "trace d = trace (sw_session sw)"
    by (auto simp: leaves_tx_def) (metis snd_conv)+
  show ?case
  proof (cases err)
    case None
    then have "Execute ops call sw = sw\<lparr>sw_session := d\<rparr>" using c Cons.prems(2) by (simp add: Execute_def)
    with Cons.IH[of "sw\<lparr>sw_session := d\<rparr>"] Cons.prems d show ?thesis by simp
  next
    case (Some e)
    obtain r d2 where r: "so_rollback ops d = (r, d2)" by fastforce
    have x: "Execute ops call sw = \<lparr>sw_session = d2, sw_err = Some e\<rparr>"
      using c Some r Cons.prems(2) by (simp add: Execute_def)
    then have "sw' = \<lparr>sw_session = d2, sw_err = Some e\<rparr>"
      using Cons.prems(4) Execute_failed[of "\<lparr>sw_session = d2, sw_err = Some e\<rparr>" calls] by simp
    with rollback_ends[OF d(1) r] d(2) show ?thesis by simp
  qed
qed simp

lemma wrapped_run_atomic:
  assumes "active d = None" "\<forall>c \<in> set calls. leaves_tx active trace c" "wrapped_run ops calls d = (err, d')"
  shows "active d' = None \<and>
    ((trace d' = trace d \<and> err \<noteq> None) \<or>
     (\<exists>t. trace d' = trace d @ [Began t, Committed t] \<or> (trace d' = trace d @ [Began t, RolledBack t] \<and> err \<noteq> None)))"
proof -
  let ?go = "\<lambda>sw. foldl (\<lambda>sw call. Execute ops call sw) sw calls"
  obtain e1 d1 where b: "so_begin ops d = (e1, d1)" by fastforce
  let ?sw = "\<lparr>sw_session = d1, sw_err = e1\<rparr>"
  have run: "wrapped_run ops calls d = CommitAndClose ops (?go ?sw)"
    by (simp add: wrapped_run_def NewSessionWrapper_def b)
  show ?thesis
  proof (cases e1)
    case (Some e)
    with run Execute_failed[of ?sw] assms(3) have "err = Some e" "d' = so_close ops d1"
      by (auto simp: CommitAndClose_def)
    with begin_failed[OF assms(1)] b Some close_idle show ?thesis by auto
  next
    case None
    with begin_ok[OF assms(1)] b obtain t where t: "active d1 = Some t" "trace d1 = trace d @ [Began t]" by blast
    have all: "(sw_err (?go ?sw) = None \<and> active (sw_session (?go ?sw)) = Some t \<and> trace (sw_session (?go ?sw)) = trace d1) \<or>
      (sw_err (?go ?sw) \<noteq> None \<and> active (sw_session (?go ?sw)) = None \<and>
       trace (sw_session (?go ?sw)) = trace d1 @ [RolledBack t])"
      using Execute_all[OF assms(2) _ _ refl, of ?sw t] None t by simp
    then show ?thesis
    proof
      assume ok: "sw_err (?go ?sw) = None \<and> active (sw_session (?go ?sw)) = Some t \<and> trace (sw_session (?go ?sw)) = trace d1"
      obtain r d2 where c: "so_commit ops (sw_session (?go ?sw)) = (r, d2)" by fastforce
      then have d': "d' = so_close ops d2" using run assms(3) ok
        by (auto simp: CommitAndClose_def wrapper_Commit_def)
      from commit_ends[OF _ c] ok have "active d2 = None" "trace d2 = trace d1 @ [Committed t]" by auto
      with close_idle t(2) d' show ?thesis by auto
    next
      assume bad: "sw_err (?go ?sw) \<noteq> None \<and> active (sw_session (?go ?sw)) = None \<and>
        trace (sw_session (?go ?sw)) = trace d1 @ [RolledBack t]"
      then have "err = sw_err (?go ?sw)" "d' = so_close ops (sw_session (?go ?sw))"
        using run assms(3) by (auto simp: CommitAndClose_def)
      with bad close_idle t(2) show ?thesis by auto
    qed
  qed
qed

end

text \<open>gorm with its transaction calls recorded.\<close>

definition traced :: "('b, 's) gorm \<Rightarrow> ('b, 's \<times> tx_event list) gorm" where
  "traced g = \<lparr>
     g_begin = (\<lambda>(s, l). case g_begin g s of
        ((None, t), s) \<Rightarrow> ((None, t), (s, l @ [Began t])) | ((Some e, t), s) \<Rightarrow> ((Some e, t), (s, l))),
     g_commit = (\<lambda>t (s, l). let (r, s) = g_commit g t s in (r, (s, l @ [Committed t]))),
     g_rollback = (\<lambda>t (s, l). let (r, s) = g_rollback g t s in (r, (s, l @ [RolledBack t]))),
     g_exec = (\<lambda>h st (s, l). let (r, s) = g_exec g h st s in (r, (s, l)))\<rparr>"

definition dao_active :: "OrmBaseDao \<times> 's \<times> tx_event list \<Rightarrow> nat option" where
  "dao_active = (\<lambda>(m, _). if dao_inTrans m then dao_tx m else None)"

definition dao_trace :: "OrmBaseDao \<times> 's \<times> tx_event list \<Rightarrow> tx_event list" where
  "dao_trace = (\<lambda>(m, s, l). l)"

interpretation orm: tx_session "orm_session (traced g)" dao_active dao_trace
  for g :: "('b, 's) gorm"
proof unfold_locales
  fix d :: "OrmBaseDao \<times> 's \<times> tx_event list" and d' e t r
  note defs = orm_session_def traced_def dao_active_def dao_trace_def
  show "so_begin (orm_session (traced g)) d = (None, d') \<Longrightarrow>
      \<exists>t. dao_active d' = Some t \<and> dao_trace d' = dao_trace d @ [Began t]"
    by (cases d) (auto simp: defs dao_Begin_def Let_def split: if_splits option.splits prod.splits)
  show "dao_active d = None \<Longrightarrow> so_begin (orm_session (traced g)) d = (Some e, d') \<Longrightarrow>
      dao_active d' = None \<and> dao_trace d' = dao_trace d"
    by (cases d) (auto simp: defs dao_Begin_def Let_def split: if_splits option.splits prod.splits)
  show "dao_active d = Some t \<Longrightarrow> so_commit (orm_session (traced g)) d = (r, d') \<Longrightarrow>
      dao_active d' = None \<and> dao_trace d' = dao_trace d @ [Committed t]"
    by (cases d) (auto simp: defs dao_Commit_def Let_def split: if_splits option.splits prod.splits bool.splits)
  show "dao_active d = Some t \<Longrightarrow> so_rollback (orm_session (traced g)) d = (r, d') \<Longrightarrow>
      dao_active d' = None \<and> dao_trace d' = dao_trace d @ [RolledBack t]"
    by (cases d) (auto simp: defs dao_Rollback_def Let_def split: if_splits option.splits prod.splits bool.splits)
  show "dao_active d = None \<Longrightarrow> dao_active (so_close (orm_session (traced g)) d) = None \<and>
      dao_trace (so_close (orm_session (traced g)) d) = dao_trace d"
    by (cases d) (auto simp: defs dao_Close_def Let_def split: if_splits option.splits)
qed

subsection \<open>Statements and configuration\<close>

lemma placeholders_loop_count:
  "count_list (placeholders_loop i args acc) (CHR ''?'') = count_list acc (CHR ''?'') + length args"
  by (induction args arbitrary: i acc) simp_all

lemma placeholders_loop_chars:
  "set (placeholders_loop i args acc) \<subseteq> set acc \<union> {CHR ''?'', CHR '','', CHR '' ''}"
proof (induction args arbitrary: i acc)
  case (Cons a args)
  let ?acc = "(if i > 0 then acc @ '', '' else acc) @ ''?''"
  have "set ?acc \<subseteq> set acc \<union> {CHR ''?'', CHR '','', CHR '' ''}" by auto
  with Cons.IH[of "Suc i" ?acc] show ?case by fastforce
qed auto

lemma proc_char_not_special:
  "proc_char c \<Longrightarrow> c \<notin> {CHR ''?'', CHR '';'', CHR 0x27, CHR 0x22, CHR ''('', CHR '')'', CHR '' '', CHR ''-'', CHR 0x60, CHR ''#''}"
  by (auto simp: proc_char_def less_eq_char_def)

text \<open>The comment of \<open>GetConnStr\<close> documents the keys \<open>passwd\<close> and \<open>dbname\<close>; the templates read \<open>pwd\<close> and \<open>db\<close>, so that the
  documented map gives a connection string without password and database.\<close>

lemma GetConnStr_documented_keys:
  assumes "c ''pwd'' = None" "c ''db'' = None" "c ''user'' = Some u" "c ''host'' = Some h" "c ''port'' = Some p"
  shows "GetConnStr print c ''mysql'' = Inr (print u @ '':<no value>@tcp('' @ print h @ '':'' @ print p @
           '')/<no value>?charset=utf8mb4&parseTime=true&loc=Local'')"
  using assms by (simp add: GetConnStr_def template_field_def Let_def)

subsection \<open>The singleton\<close>

lemma GetDatabaseManager_spends_once:
  assumes "dm_config st \<noteq> []" "\<not> dm_once st"
  shows "dm_once (snd (GetDatabaseManager new_conn st))"
proof -
  obtain x m where "open_all new_conn (dm_config st) Map.empty = (x, m)" by fastforce
  with assms show ?thesis by (cases x) (simp_all add: GetDatabaseManager_def)
qed

interpretation db_once: once_init "\<lambda>st. dm_once st \<or> dm_config st = []" "GetDatabaseManager new_conn"
  for new_conn :: "db_config \<Rightarrow> db_conn outcome"
proof unfold_locales
  fix st r st'
  assume "\<not> (dm_once st \<or> dm_config st = [])" "GetDatabaseManager new_conn st = (r, st')"
  then have "dm_once st'" using GetDatabaseManager_spends_once[of st new_conn] by (metis snd_conv)
  then show "(dm_once st' \<or> dm_config st' = []) \<or> st' = st" by blast
qed (auto simp: GetDatabaseManager_def)

section \<open>Properties\<close>


definition counting_gorm :: "(nat, nat) gorm" where
  "counting_gorm = \<lparr>g_begin = (\<lambda>s. ((None, s), Suc s)), g_commit = (\<lambda>t s. (None, s)), g_rollback = (\<lambda>t s. (None, s)),
     g_exec = (\<lambda>h st s. (\<lparr>res_Error = None, res_RowsAffected = 1, res_count = 1\<rparr>, s))\<rparr>"


text \<open>C21: \<open>WarpSession\<close> ends the transaction it opens exactly once, on every path: it commits exactly when
  the handler returns without an error and asks for it, and rolls back otherwise. But when the handler
  panics, the recovered call returns nil values and a nil error: the caller is told of success
  although everything was rolled back.\<close>

theorem warp_session_ends_once:
  assumes "\<And>t w. snd (snd (h t w)) = snd w" "g_begin g s = ((None, t), s1)" "h t (s1, l @ [Began t]) = (r, w)"
    "WarpSession (traced g) h (s, l) = ((val, n, err), (s', l'))"
  shows "(l' = l @ [Began t, if \<exists>v. r = Ok (v, SessionDoctorCommit, None) then Committed t else RolledBack t]) \<and>
    (\<forall>p. r = Panic p \<longrightarrow> val = None \<and> err = None)"
proof -
  have b: "g_begin (traced g) (s, l) = ((None, t), (s1, l @ [Began t]))" using assms(2) by (simp add: traced_def)
  obtain s2 where w: "w = (s2, l @ [Began t])" using assms(1)[of t "(s1, l @ [Began t])"] assms(3) by (cases w) auto
  show ?thesis
    using assms(3,4) b unfolding WarpSession_def w
    by (auto simp: traced_def Let_def split: prod.splits result.splits option.splits if_splits SessionDoctor.splits)
qed

theorem warp_session_ends_once_witness:
  "\<exists>s'. WarpSession (traced counting_gorm) (\<lambda>t w. (Panic (PanicVal ''nil map''), w) ::
       (nat option \<times> SessionDoctor \<times> db_error option) result \<times> _) (3, []) = ((None, 0, None), (s', [Began 3, RolledBack 3]))"
proof -
  let ?h = "\<lambda>(t :: nat) (w :: nat \<times> tx_event list). (Panic (PanicVal ''nil map''), w) :: (nat option \<times> SessionDoctor \<times> db_error option) result \<times> _"
  obtain val n err s' l' where r: "WarpSession (traced counting_gorm) ?h (3, []) = ((val, n, err), (s', l'))"
    by (metis prod_cases3 surj_pair)
  have b: "g_begin counting_gorm 3 = ((None, 3), 4)" by (simp add: counting_gorm_def)
  from warp_session_ends_once[OF _ b _ r] have "l' = [Began 3, RolledBack 3]" "val = None" "err = None" by auto
  moreover have "n = 0" using r by (simp add: WarpSession_def traced_def counting_gorm_def)
  ultimately show ?thesis using r by simp
qed



text \<open>The default for idle connections can turn a valid configuration into an invalid one: with
  \<open>max_idle\<close> left out and \<open>max_conn\<close> between 1 and 9 the configuration passes \<open>Validate\<close>, but \<open>SetDefaults\<close> raises
  \<open>max_idle\<close> to 10, \<open>Validate\<close> then fails and \<open>GetDatabaseManager\<close> panics. The once is spent by that panic: every
  later call returns a manager that holds only the databases opened before the failing one.\<close>

theorem defaults_break_small_pools:
  assumes "dc_Name c \<noteq> ''''" "dc_Master c \<noteq> ''''" "dc_MaxIdle c = 0" "0 < dc_MaxConn c" "dc_MaxConn c < 10"
    "dm_config st = cfgs @ c # cfgs'" "\<not> dm_once st" "open_all new_conn cfgs Map.empty = (Returned (), m)"
  shows "Config_Validate c = None \<and>
    Config_Validate (Config_SetDefaults c) = Some ''max_idle cannot be greater than max_conn'' \<and>
    (\<exists>st'. GetDatabaseManager new_conn st = (Panicked, st') \<and> GetDatabaseManager new_conn st' = (Returned (Some m), st'))"
proof -
  have v: "Config_Validate c = None"
    "Config_Validate (Config_SetDefaults c) = Some ''max_idle cannot be greater than max_conn''"
    using assms(1-5) by (simp_all add: Config_Validate_def Config_SetDefaults_def Let_def)
  have "open_all new_conn (cfgs @ c # cfgs') m0 = (Panicked, m)" if "open_all new_conn cfgs m0 = (Returned (), m)" for m0
    using that
  proof (induction cfgs arbitrary: m0)
    case (Cons d ds)
    then show ?case by (auto simp: Let_def split: option.splits outcome.splits)
  qed (simp add: v(2) Let_def)
  with assms(6-8) v show ?thesis by (auto simp: GetDatabaseManager_def)
qed

definition small_pool :: db_config where
  "small_pool = \<lparr>dc_Name = ''main'', dc_MaxIdle = 0, dc_MaxConn = 5, dc_Master = ''dsn'', dc_Slaves = [],
     dc_UseMasterSlave = False, dc_DbType = ''mysql''\<rparr>"

theorem defaults_break_small_pools_witness:
  "\<exists>st'. GetDatabaseManager (\<lambda>c. Panicked) \<lparr>dm_config = [small_pool], dm_once = False, dm_db = None\<rparr> = (Panicked, st') \<and>
     GetDatabaseManager (\<lambda>c. Panicked) st' = (Returned (Some Map.empty), st')"
  using defaults_break_small_pools[of small_pool "\<lparr>dm_config = [small_pool], dm_once = False, dm_db = None\<rparr>" "[]" "[]"
      "\<lambda>c. Panicked" Map.empty]
  by (simp add: small_pool_def)

text \<open>\<open>UpsertById\<close> does not use the id it is given.\<close>

lemma UpsertById_ignores_id: "UpsertById g m i bean s = UpsertById g m j bean s"
  by (simp add: UpsertById_def)

end
