(* ===== verification/Data_Clients.thy ===== *)
theory Data_Clients
  imports Once_Init "HOL-Library.Monad_Syntax"
begin

section \<open>MongoDB and ClickHouse clients\<close>

text \<open>
  Models the packages \<open>mongodb\<close> and \<open>clickhouse\<close>. The drivers are arguments: records of the calls the code makes on an
  abstract server. The two packages share the shape of their managers; what they share is stated once, in the
  locale \<open>client_manager\<close>, and interpreted with the accessors of both.
\<close>

subsection \<open>MongoDB: configuration\<close>

record mongo_Config =
  mg_Name :: string
  mg_URI :: string
  mg_Database :: string
  mg_MaxPool :: nat
  mg_MinPool :: nat
  mg_TimeoutS :: int

definition mongo_SetDefaults :: "mongo_Config \<Rightarrow> mongo_Config" where
  "mongo_SetDefaults c =
     (let c = (if mg_MaxPool c = 0 then c\<lparr>mg_MaxPool := 10\<rparr> else c);
          c = (if mg_MinPool c = 0 then c\<lparr>mg_MinPool := 2\<rparr> else c)
      in if mg_TimeoutS c = 0 then c\<lparr>mg_TimeoutS := 5\<rparr> else c)"

definition mongo_Validate :: "mongo_Config \<Rightarrow> string option" where
  "mongo_Validate c =
     (if mg_Name c = '''' then Some ''mongodb: config name is required''
      else if mg_URI c = '''' then Some ''mongodb: uri is required''
      else if mg_Database c = '''' then Some ''mongodb: database is required''
      else None)"

subsection \<open>MongoDB: client\<close>

text \<open>An id is an object id, known by its hexadecimal text, or something else. The driver calls take the database and the collection.\<close>

datatype bson_id = ObjectID string | OtherID nat

datatype mongo_error = ErrNotFound | DriverError string | ErrNoDocuments

record ('doc, 'f, 'u, 's) mongo_driver =
  md_Connect :: "mongo_Config \<Rightarrow> 's \<Rightarrow> string option \<times> 's"
  md_Ping :: "duration \<Rightarrow> 's \<Rightarrow> string option \<times> 's"
  md_InsertOne :: "string \<Rightarrow> string \<Rightarrow> 'doc \<Rightarrow> 's \<Rightarrow> (string + bson_id) \<times> 's"
  md_InsertMany :: "string \<Rightarrow> string \<Rightarrow> 'doc list \<Rightarrow> 's \<Rightarrow> (string + bson_id list) \<times> 's"
  md_FindOne :: "string \<Rightarrow> string \<Rightarrow> 'f \<Rightarrow> 's \<Rightarrow> (mongo_error + 'doc) \<times> 's"
  md_Find :: "string \<Rightarrow> string \<Rightarrow> 'f \<Rightarrow> 's \<Rightarrow> (string + 'doc list) \<times> 's"
  md_Update :: "bool \<Rightarrow> string \<Rightarrow> string \<Rightarrow> 'f \<Rightarrow> 'u \<Rightarrow> 's \<Rightarrow> (string + int) \<times> 's"
  md_Delete :: "bool \<Rightarrow> string \<Rightarrow> string \<Rightarrow> 'f \<Rightarrow> 's \<Rightarrow> (string + int) \<times> 's"
  md_Count :: "string \<Rightarrow> string \<Rightarrow> 'f \<Rightarrow> 's \<Rightarrow> (string + int) \<times> 's"

record mongoClient =
  mc_database :: string
  mc_timeout :: duration

definition bsonID :: "bson_id \<Rightarrow> string" where
  "bsonID i = (case i of ObjectID hex \<Rightarrow> hex | OtherID _ \<Rightarrow> '''')"

definition newMongoClient :: "('doc, 'f, 'u, 's) mongo_driver \<Rightarrow> mongo_Config \<Rightarrow> 's \<Rightarrow> (string + mongoClient) \<times> 's" where
  "newMongoClient d cfg s =
     (let timeout = duration_of (mg_TimeoutS cfg) Second
      in case md_Connect d cfg s of
           (Some err, s) \<Rightarrow> (Inl err, s)
         | (None, s) \<Rightarrow>
             (case md_Ping d timeout s of
                (Some err, s) \<Rightarrow> (Inl (''ping failed: '' @ err), s)
              | (None, s) \<Rightarrow> (Inr \<lparr>mc_database = mg_Database cfg, mc_timeout = timeout\<rparr>, s)))"

definition mongo_InsertOne where
  "mongo_InsertOne d c coll doc s =
     (case md_InsertOne d (mc_database c) coll doc s of
        (Inl err, s) \<Rightarrow> (Inl err, s) | (Inr i, s) \<Rightarrow> (Inr (bsonID i), s))"

definition mongo_InsertMany where
  "mongo_InsertMany d c coll docs s =
     (case md_InsertMany d (mc_database c) coll docs s of
        (Inl err, s) \<Rightarrow> (Inl err, s) | (Inr ids, s) \<Rightarrow> (Inr (map bsonID ids), s))"

definition mongo_FindOne where
  "mongo_FindOne d c coll filt s =
     (case md_FindOne d (mc_database c) coll filt s of
        (Inl ErrNoDocuments, s) \<Rightarrow> (Inl ErrNotFound, s) | (r, s) \<Rightarrow> (r, s))"

definition mongo_FindMany where "mongo_FindMany d c coll filt s = md_Find d (mc_database c) coll filt s"

definition mongo_UpdateOne where "mongo_UpdateOne d c coll filt upd s = md_Update d False (mc_database c) coll filt upd s"
definition mongo_UpdateMany where "mongo_UpdateMany d c coll filt upd s = md_Update d True (mc_database c) coll filt upd s"
definition mongo_DeleteOne where "mongo_DeleteOne d c coll filt s = md_Delete d False (mc_database c) coll filt s"
definition mongo_DeleteMany where "mongo_DeleteMany d c coll filt s = md_Delete d True (mc_database c) coll filt s"
definition mongo_CountDocuments where "mongo_CountDocuments d c coll filt s = md_Count d (mc_database c) coll filt s"

subsection \<open>ClickHouse: configuration and client\<close>

record ch_Config =
  ch_Name :: string
  ch_Addr :: string
  ch_Database :: string
  ch_Username :: string
  ch_Password :: string
  ch_MaxConn :: int
  ch_MaxIdle :: int
  ch_DialTimeoutS :: int

definition ch_SetDefaults :: "ch_Config \<Rightarrow> ch_Config" where
  "ch_SetDefaults c =
     (let c = (if ch_MaxConn c = 0 then c\<lparr>ch_MaxConn := 10\<rparr> else c);
          c = (if ch_MaxIdle c = 0 then c\<lparr>ch_MaxIdle := 5\<rparr> else c)
      in if ch_DialTimeoutS c = 0 then c\<lparr>ch_DialTimeoutS := 5\<rparr> else c)"

definition ch_Validate :: "ch_Config \<Rightarrow> string option" where
  "ch_Validate c =
     (if ch_Name c = '''' then Some ''clickhouse: config name is required''
      else if ch_Addr c = '''' then Some ''clickhouse: addr is required''
      else if ch_Database c = '''' then Some ''clickhouse: database is required''
      else None)"

record ('a, 's) sql_driver =
  sd_Open :: "ch_Config \<Rightarrow> 's \<Rightarrow> nat \<times> 's"
  sd_Ping :: "nat \<Rightarrow> 's \<Rightarrow> string option \<times> 's"
  sd_Close :: "nat \<Rightarrow> 's \<Rightarrow> 's"
  sd_Exec :: "nat \<Rightarrow> string \<Rightarrow> 'a list \<Rightarrow> 's \<Rightarrow> string option \<times> 's"

text \<open>A client is the number of its pool.\<close>

definition newClickHouseClient :: "('a, 's) sql_driver \<Rightarrow> ch_Config \<Rightarrow> 's \<Rightarrow> (string + nat) \<times> 's" where
  "newClickHouseClient d cfg s =
     (let (db, s) = sd_Open d cfg s
      in case sd_Ping d db s of
           (Some err, s) \<Rightarrow> (Inl (''clickhouse ping failed: '' @ err), sd_Close d db s)
         | (None, s) \<Rightarrow> (Inr db, s))"

definition openDB where
  "openDB d cfg s = (case newClickHouseClient d cfg s of (Inl err, s) \<Rightarrow> (None, s) | (Inr db, s) \<Rightarrow> (Some db, s))"

definition ch_Exec where "ch_Exec d db query args s = sd_Exec d db query args s"

definition ch_AsyncInsert where
  "ch_AsyncInsert d db query wait args s =
     (let suffix = (if wait then ''ASYNC INSERT WAIT'' else ''ASYNC INSERT'')
      in sd_Exec d db (suffix @ '' '' @ query) args s)"

subsection \<open>ClickHouse: rows into structs\<close>

text \<open>A struct type is its list of fields, a struct value the list of their values.\<close>

record go_field =
  fl_Name :: string
  fl_Tag :: string
  fl_exported :: bool

definition field_tag :: "go_field \<Rightarrow> string" where
  "field_tag f = (if fl_Tag f = '''' then fl_Name f else fl_Tag f)"

text \<open>The map from tags to field numbers; a later field replaces an earlier one of the same tag.\<close>

fun field_map :: "nat \<Rightarrow> go_field list \<Rightarrow> (string \<rightharpoonup> nat) \<Rightarrow> string \<rightharpoonup> nat" where
  "field_map i [] m = m"
| "field_map i (f # fs) m = field_map (Suc i) fs (m(field_tag f \<mapsto> i))"

text \<open>The pointer for each column: a field, or \<^term>\<open>None\<close> for the value to discard. The address of an unexported field cannot be
  taken out of the reflection value: that panics.\<close>

fun structFields :: "go_field list \<Rightarrow> (string \<rightharpoonup> nat) \<Rightarrow> string list \<Rightarrow> nat option list outcome" where
  "structFields fs m [] = Returned []"
| "structFields fs m (col # cols) =
     (case m col of
        None \<Rightarrow> (case structFields fs m cols of Panicked \<Rightarrow> Panicked | Returned ps \<Rightarrow> Returned (None # ps))
      | Some i \<Rightarrow>
          if \<not> fl_exported (fs ! i) then Panicked
          else (case structFields fs m cols of Panicked \<Rightarrow> Panicked | Returned ps \<Rightarrow> Returned (Some i # ps)))"

text \<open>\<open>rows.Scan\<close> converts and stores the values column by column, up to the first error.\<close>

fun rows_Scan :: "(go_field \<Rightarrow> 'v \<Rightarrow> string + 'v) \<Rightarrow> go_field list \<Rightarrow> nat option list \<Rightarrow> 'v list \<Rightarrow> 'v list \<Rightarrow> string option \<times> 'v list" where
  "rows_Scan conv fs (None # ps) (v # vs) st = rows_Scan conv fs ps vs st"
| "rows_Scan conv fs (Some i # ps) (v # vs) st =
     (case conv (fs ! i) v of Inl err \<Rightarrow> (Some err, st) | Inr x \<Rightarrow> rows_Scan conv fs ps vs (st[i := x]))"
| "rows_Scan conv fs _ _ st = (None, st)"

datatype dest_type = NotPointer | ToStruct "go_field list" | ToOther
datatype dest_elem = ElemStruct "go_field list" | ElemOther
datatype slice_dest = NoSlicePointer | SliceOf bool dest_elem

record 'v sql_rows =
  sr_cols :: "string + string list"
  sr_rows :: "'v list list"
  sr_Err :: "string option"

fun scan_loop where
  "scan_loop conv fs zero cols [] acc = (Returned None, acc)"
| "scan_loop conv fs zero cols (row # rows) acc =
     (case structFields fs (field_map 0 fs Map.empty) cols of
        Panicked \<Rightarrow> (Panicked, acc)
      | Returned ps \<Rightarrow>
          (case rows_Scan conv fs ps row zero of
             (Some err, _) \<Rightarrow> (Returned (Some err), acc)
           | (None, st) \<Rightarrow> scan_loop conv fs zero cols rows (acc @ [st])))"

text \<open>A slice of something that is no struct panics at the first row.\<close>

definition scanRows ::
  "(go_field \<Rightarrow> 'v \<Rightarrow> string + 'v) \<Rightarrow> 'v list \<Rightarrow> 'v sql_rows \<Rightarrow> slice_dest \<Rightarrow> 'v list list \<Rightarrow> string option outcome \<times> 'v list list" where
  "scanRows conv zero rows dest out =
     (case dest of
        NoSlicePointer \<Rightarrow> (Returned (Some ''clickhouse: dest must be a pointer to a slice''), out)
      | SliceOf isPtr elem \<Rightarrow>
          (case sr_cols rows of
             Inl err \<Rightarrow> (Returned (Some err), out)
           | Inr cols \<Rightarrow>
               (case elem of
                  ElemOther \<Rightarrow> (if sr_rows rows = [] then Returned (sr_Err rows) else Panicked, out)
                | ElemStruct fs \<Rightarrow>
                    (case scan_loop conv fs zero cols (sr_rows rows) out of
                       (Returned None, out) \<Rightarrow> (Returned (sr_Err rows), out)
                     | other \<Rightarrow> other))))"

definition scanRow where
  "scanRow conv cols row dest st =
     (case cols of
        Inl err \<Rightarrow> (Returned (Some err), st)
      | Inr cols \<Rightarrow>
          (case dest of
             NotPointer \<Rightarrow> (Returned (Some ''clickhouse: dest must be a pointer''), st)
           | ToOther \<Rightarrow> (Panicked, st)
           | ToStruct fs \<Rightarrow>
               (case structFields fs (field_map 0 fs Map.empty) cols of
                  Panicked \<Rightarrow> (Panicked, st)
                | Returned ps \<Rightarrow> (let (err, st) = rows_Scan conv fs ps row st in (Returned err, st)))))"

text \<open>\<open>run\<close> is \<open>QueryContext\<close>.\<close>

definition ch_Query where
  "ch_Query run conv zero dest query args out =
     (case run query args of
        Inl err \<Rightarrow> (Returned (Some err), out) | Inr rows \<Rightarrow> scanRows conv zero rows dest out)"

definition ch_QueryRow where
  "ch_QueryRow run conv dest query args st =
     (case run query args of
        Inl err \<Rightarrow> (Returned (Some err), st)
      | Inr rows \<Rightarrow>
          (case sr_rows rows of
             [] \<Rightarrow> (Returned (Some (case sr_Err rows of Some err \<Rightarrow> err | None \<Rightarrow> ''sql: no rows in result set'')), st)
           | row # _ \<Rightarrow> scanRow conv (sr_cols rows) row dest st))"

subsection \<open>Managers\<close>

text \<open>Both managers open one client per configuration and store it under its name; the first failure panics. A null in the JSON
  list is a nil configuration, on which \<open>SetDefaults\<close> panics.\<close>

fun open_clients ::
  "('c \<Rightarrow> 'c) \<Rightarrow> ('c \<Rightarrow> string option) \<Rightarrow> ('c \<Rightarrow> 's \<Rightarrow> (string + 'cli) \<times> 's) \<Rightarrow> ('c \<Rightarrow> string) \<Rightarrow> 'c option list \<Rightarrow>
     (string \<rightharpoonup> 'cli) \<Rightarrow> 's \<Rightarrow> (string \<rightharpoonup> 'cli) outcome \<times> 's" where
  "open_clients defaults validate connect name [] m s = (Returned m, s)"
| "open_clients defaults validate connect name (None # cs) m s = (Panicked, s)"
| "open_clients defaults validate connect name (Some c # cs) m s =
     (let c = defaults c
      in case validate c of
           Some err \<Rightarrow> (Panicked, s)
         | None \<Rightarrow>
             (case connect c s of
                (Inl err, s) \<Rightarrow> (Panicked, s)
              | (Inr cli, s) \<Rightarrow> open_clients defaults validate connect name cs (m(name c \<mapsto> cli)) s))"

definition newMongoManager where
  "newMongoManager d cs s = open_clients mongo_SetDefaults mongo_Validate (newMongoClient d) mg_Name cs Map.empty s"

definition newClickHouseManager where
  "newClickHouseManager d cs s = open_clients ch_SetDefaults ch_Validate (newClickHouseClient d) ch_Name cs Map.empty s"

record ('c, 'cli) manager_state =
  ms_once :: bool
  ms_manager :: "(string \<rightharpoonup> 'cli) option"
  ms_config :: "'c option list"

text \<open>\<open>Init\<close>: \<open>single\<close> and \<open>multiple\<close> are what the text decodes to as one object and as a list.\<close>

definition manager_Init :: "('c \<Rightarrow> string) \<Rightarrow> bool \<Rightarrow> 'c option \<Rightarrow> 'c option list option \<Rightarrow> ('c, 'cli) manager_state \<Rightarrow>
    unit outcome \<times> ('c, 'cli) manager_state" where
  "manager_Init name empty_text single multiple st =
     (if empty_text then (Panicked, st)
      else case single of
        Some c \<Rightarrow> (if name c \<noteq> '''' then (Returned (), st\<lparr>ms_config := [Some c]\<rparr>)
                   else case multiple of None \<Rightarrow> (Panicked, st) | Some cs \<Rightarrow> (Returned (), st\<lparr>ms_config := cs\<rparr>))
      | None \<Rightarrow> (case multiple of None \<Rightarrow> (Panicked, st) | Some cs \<Rightarrow> (Returned (), st\<lparr>ms_config := cs\<rparr>)))"

definition mongo_Init where "mongo_Init = manager_Init mg_Name"
definition ch_Init where "ch_Init = manager_Init ch_Name"

text \<open>The accessor under the once: a panic of \<open>build\<close> leaves the manager nil with the once spent.\<close>

definition get_manager where
  "get_manager build = (\<lambda>(st, s).
     if ms_config st = [] then (Panicked, st, s)
     else if ms_once st then (Returned (ms_manager st), st, s)
     else case build (ms_config st) s of
       (Panicked, s) \<Rightarrow> (Panicked, st\<lparr>ms_once := True\<rparr>, s)
     | (Returned m, s) \<Rightarrow> (Returned (Some m), st\<lparr>ms_once := True, ms_manager := Some m\<rparr>, s))"

definition GetMongoManager where "GetMongoManager d = get_manager (newMongoManager d)"
definition GetClickHouseManager where "GetClickHouseManager d = get_manager (newClickHouseManager d)"

text \<open>\<open>GetClient\<close>: the method locks the manager, which panics when it is nil; \<^term>\<open>None\<close> is the nil client of an unknown name.\<close>

definition get_client where
  "get_client get name st =
     (case get st of
        (Panicked, st) \<Rightarrow> (Panicked, st)
      | (Returned None, st) \<Rightarrow> (Panicked, st)
      | (Returned (Some m), st) \<Rightarrow> (Returned (m name), st))"

definition mongo_GetClient where "mongo_GetClient d = get_client (GetMongoManager d)"
definition ch_GetClient where "ch_GetClient d = get_client (GetClickHouseManager d)"

section \<open>Lemmas\<close>

subsection \<open>The interface of the managers\<close>

text \<open>An accessor under a once that answers nil after a failed first call, and the lookup of a client through it.\<close>

locale client_manager = once_init +
  fixes client :: "string \<Rightarrow> 'a \<Rightarrow> 'cli option outcome \<times> 'a" and table :: "'b \<Rightarrow> (string \<rightharpoonup> 'cli) option"
    and inv :: "'a \<Rightarrow> bool"
  assumes client_get: "client n st = (case attempt st of
      (Panicked, st) \<Rightarrow> (Panicked, st)
    | (Returned m, st) \<Rightarrow> (case table m of None \<Rightarrow> Panicked | Some t \<Rightarrow> Returned (t n), st))"
    and inv_attempt: "inv st \<Longrightarrow> inv (snd (attempt st))"
    and failed_nil: "inv st \<Longrightarrow> attempt st = (Panicked, st') \<Longrightarrow> finished st' \<Longrightarrow>
      fst (attempt st') = Panicked \<or> (\<exists>m. fst (attempt st') = Returned m \<and> table m = None)"
begin

lemma failed_is_final:
  assumes "inv st" "attempt st = (Panicked, st')" "finished st'"
  shows "call_times (client n) k st' = (replicate k Panicked, st')"
proof -
  have s: "snd (attempt st') = st'" using finished_stable assms(3) by blast
  have "client n st' = (Panicked, st')"
    using failed_nil[OF assms] s unfolding client_get[of n st'] by (cases "attempt st'") auto
  then show ?thesis by (induction k) simp_all
qed

text \<open>Once the accessor has answered, every name is looked up in the same table.\<close>

lemma answer_is_stable:
  assumes "attempt st = (Returned m, st')" "finished st'" "fst (attempt st') = Returned m" "table m = Some t"
  shows "client n st = (Returned (t n), st') \<and> call_times (client n) k st' = (replicate k (Returned (t n)), st')"
proof -
  have s: "attempt st' = (Returned m, st')" using finished_stable assms(2,3) by (metis prod.collapse)
  have "client n st' = (Returned (t n), st')" unfolding client_get[of n st'] s by (simp add: assms(4))
  then have "call_times (client n) k st' = (replicate k (Returned (t n)), st')" by (induction k) simp_all
  then show ?thesis unfolding client_get[of n st] assms(1) by (simp add: assms(4))
qed

end

lemma get_manager_cases:
  assumes "get_manager build (st, s) = (r, st', s')"
  obtains (empty) "ms_config st = []" "r = Panicked" "st' = st" "s' = s"
  | (again) "ms_config st \<noteq> []" "ms_once st" "r = Returned (ms_manager st)" "st' = st" "s' = s"
  | (failed) "ms_config st \<noteq> []" "\<not> ms_once st" "r = Panicked" "st' = st\<lparr>ms_once := True\<rparr>" "build (ms_config st) s = (Panicked, s')"
  | (built) m where "ms_config st \<noteq> []" "\<not> ms_once st" "r = Returned (Some m)" "st' = st\<lparr>ms_once := True, ms_manager := Some m\<rparr>"
      "build (ms_config st) s = (Returned m, s')"
proof (cases "ms_config st = []")
  case True
  with assms have "r = Panicked" "st' = st" "s' = s" by (simp_all add: get_manager_def)
  with True show thesis by (rule empty)
next
  case config: False
  show thesis
  proof (cases "ms_once st")
    case True
    with assms config have "r = Returned (ms_manager st)" "st' = st" "s' = s" by (auto simp: get_manager_def)
    with config True show thesis by (rule again)
  next
    case False
    obtain x s1 where b: "build (ms_config st) s = (x, s1)" by (rule prod.exhaust)
    show thesis
    proof (cases x)
      case Panicked
      with assms config False b have "r = Panicked" "st' = st\<lparr>ms_once := True\<rparr>" "build (ms_config st) s = (Panicked, s')"
        by (simp_all add: get_manager_def)
      with config False show thesis by (rule failed)
    next
      case (Returned m)
      with assms config False b have "r = Returned (Some m)" "st' = st\<lparr>ms_once := True, ms_manager := Some m\<rparr>"
        "build (ms_config st) s = (Returned m, s')" by (simp_all add: get_manager_def)
      with config False show thesis by (rule built)
    qed
  qed
qed

lemma get_manager_spent:
  "ms_once st \<or> ms_config st = [] \<Longrightarrow>
   get_manager build (st, s) = (if ms_config st = [] then Panicked else Returned (ms_manager st), st, s)"
  by (auto simp: get_manager_def)

interpretation managers: client_manager "\<lambda>(st, s). ms_once st \<or> ms_config st = []" "get_manager build"
  "get_client (get_manager build)" "\<lambda>m. m" "\<lambda>(st, s). \<not> ms_once st \<longrightarrow> ms_manager st = None"
  for build :: "'c option list \<Rightarrow> 's \<Rightarrow> (string \<rightharpoonup> 'cli) outcome \<times> 's"
proof (unfold_locales, goal_cases)
  case (1 p)
  then show ?case by (cases p) (simp add: get_manager_spent)
next
  case (2 p r p')
  then show ?case by (cases p; cases p') (auto elim: get_manager_cases)
next
  case (3 n p)
  obtain r q where g: "get_manager build p = (r, q)" by (rule prod.exhaust)
  show ?case
  proof (cases r)
    case (Returned m)
    then show ?thesis by (cases m) (simp_all add: get_client_def g)
  qed (simp add: get_client_def g)
next
  case (4 p)
  obtain st s r st' s' where "p = (st, s)" "get_manager build p = (r, st', s')" by (metis prod.collapse)
  with 4 show ?case by (auto elim!: get_manager_cases)
next
  case (5 p p')
  obtain st s st' s' where p: "p = (st, s)" "p' = (st', s')" by fastforce
  with 5 have g: "get_manager build (st, s) = (Panicked, st', s')" and i: "\<not> ms_once st \<longrightarrow> ms_manager st = None" by auto
  from g show ?case unfolding p by (cases rule: get_manager_cases) (use i in \<open>auto simp: get_manager_spent\<close>)
qed


subsection \<open>Opening the clients\<close>

text \<open>What a successful opening leaves: a client for exactly the configured names, made from the last configuration of a name
  after its defaults were set, and every configuration was valid.\<close>

lemma open_clients_ok:
  assumes "open_clients defaults validate connect name cs m s = (Returned m', s')"
  shows "(\<forall>c \<in> set cs. \<exists>x. c = Some x \<and> validate (defaults x) = None) \<and>
         dom m' = dom m \<union> (\<lambda>c. name (defaults (the c))) ` set cs \<and>
         (\<forall>n. n \<notin> (\<lambda>c. name (defaults (the c))) ` set cs \<longrightarrow> m' n = m n)"
  using assms
proof (induction defaults validate connect name cs m s rule: open_clients.induct)
  case (3 defaults validate connect name c cs m s)
  obtain cli s1 where v: "validate (defaults c) = None" "connect (defaults c) s = (Inr cli, s1)"
    "open_clients defaults validate connect name cs (m(name (defaults c) \<mapsto> cli)) s1 = (Returned m', s')"
    using 3(2) by (auto simp: Let_def split: option.splits prod.splits sum.splits)
  from 3(1)[OF refl v(1) v(2)[symmetric] refl v(3)] v(1) show ?case by auto
qed simp_all

subsection \<open>Scanning\<close>

lemma field_map_other: "t \<notin> field_tag ` set fs \<Longrightarrow> field_map i fs m t = m t"
  by (induction fs arbitrary: i m) auto

lemma field_map_field:
  "distinct (map field_tag fs) \<Longrightarrow> k < length fs \<Longrightarrow> field_map i fs m (field_tag (fs ! k)) = Some (i + k)"
proof (induction fs arbitrary: i m k)
  case (Cons f fs)
  then show ?case by (cases k) (auto simp: field_map_other)
qed simp

lemma field_map_iff:
  assumes "distinct (map field_tag fs)"
  shows "field_map 0 fs Map.empty t = Some k \<longleftrightarrow> k < length fs \<and> field_tag (fs ! k) = t"
proof (cases "t \<in> field_tag ` set fs")
  case True
  then obtain j where j: "j < length fs" "t = field_tag (fs ! j)" by (auto simp: in_set_conv_nth)
  then have "field_map 0 fs Map.empty t = Some j" using field_map_field[OF assms j(1), of 0 Map.empty] by simp
  moreover have "k < length fs \<Longrightarrow> field_tag (fs ! k) = t \<Longrightarrow> k = j" using assms j by (auto simp: distinct_conv_nth)
  ultimately show ?thesis using j by auto
next
  case False
  then show ?thesis by (auto simp: field_map_other)
qed

lemma structFields_exported: "list_all fl_exported fs \<Longrightarrow> \<forall>t i. m t = Some i \<longrightarrow> i < length fs \<Longrightarrow> structFields fs m cols = Returned (map m cols)"
proof (induction cols)
  case (Cons col cols)
  then show ?case by (cases "m col") (simp_all add: list_all_length)
qed simp

text \<open>The struct a row gives: each field the value of the column with its tag, the others what they were.\<close>

definition row_struct :: "(go_field \<Rightarrow> 'v \<Rightarrow> 'v) \<Rightarrow> go_field list \<Rightarrow> string list \<Rightarrow> 'v list \<Rightarrow> 'v list \<Rightarrow> 'v list" where
  "row_struct cv fs cols row st =
     map (\<lambda>k. case map_of (zip cols row) (field_tag (fs ! k)) of None \<Rightarrow> st ! k | Some v \<Rightarrow> cv (fs ! k) v) [0..<length fs]"

lemma rows_Scan_struct:
  assumes "distinct (map field_tag fs)" "distinct cols" "length row = length cols" "length st = length fs" "\<forall>f v. conv f v = Inr (cv f v)"
  shows "rows_Scan conv fs (map (field_map 0 fs Map.empty) cols) row st = (None, row_struct cv fs cols row st)"
  using assms(2-4)
proof (induction cols arbitrary: row st)
  case Nil
  then show ?case using map_nth[of st] by (simp add: row_struct_def)
next
  case (Cons col cols)
  then obtain v row' where row: "row = v # row'" "length row' = length cols" by (cases row) auto
  note iff = field_map_iff[OF assms(1), of col]
  show ?case
  proof (cases "field_map 0 fs Map.empty col")
    case None
    then have "\<forall>k < length fs. field_tag (fs ! k) \<noteq> col" using iff by auto
    then have "row_struct cv fs (col # cols) row st = row_struct cv fs cols row' st" by (auto simp: row row_struct_def)
    then show ?thesis using Cons row None by simp
  next
    case (Some i)
    have uniq: "field_tag (fs ! k) = col \<longleftrightarrow> k = i" if "k < length fs" for k using that field_map_iff[OF assms(1), of col k] Some by auto
    have "map_of (zip cols row') col = None" using Cons.prems by (auto simp: map_of_eq_None_iff dest: set_zip_leftD)
    then have "row_struct cv fs (col # cols) row st = row_struct cv fs cols row' (st[i := cv (fs ! i) v])"
      using uniq Some iff Cons.prems(3) unfolding row_struct_def row by (intro map_cong) (auto simp: nth_list_update split: option.split)
    then show ?thesis using Cons row Some assms(5) by simp
  qed
qed

lemma scan_loop_structs:
  assumes "distinct (map field_tag fs)" "list_all fl_exported fs" "distinct cols" "length zero = length fs" "\<forall>f v. conv f v = Inr (cv f v)"
    and "\<forall>row \<in> set rows. length row = length cols"
  shows "scan_loop conv fs zero cols rows acc = (Returned None, acc @ map (\<lambda>row. row_struct cv fs cols row zero) rows)"
  using assms(6)
proof (induction rows arbitrary: acc)
  case (Cons row rows)
  have "structFields fs (field_map 0 fs Map.empty) cols = Returned (map (field_map 0 fs Map.empty) cols)"
    using assms(2) field_map_iff[OF assms(1)] by (intro structFields_exported) auto
  moreover have "rows_Scan conv fs (map (field_map 0 fs Map.empty) cols) row zero = (None, row_struct cv fs cols row zero)"
    using assms Cons.prems by (intro rows_Scan_struct) auto
  ultimately show ?case using Cons by simp
qed simp

text \<open>The first call of an accessor decides what every later lookup answers.\<close>

lemma manager_decides:
  assumes "ms_config st \<noteq> []" "\<not> ms_once st" "ms_manager st = None" "build (ms_config st) s = (r, s1)"
  shows "r = Panicked \<Longrightarrow> get_manager build (st, s) = (Panicked, st\<lparr>ms_once := True\<rparr>, s1) \<and>
      call_times (get_client (get_manager build) name) k (st\<lparr>ms_once := True\<rparr>, s1) = (replicate k Panicked, st\<lparr>ms_once := True\<rparr>, s1)"
    and "r = Returned m \<Longrightarrow> call_times (get_client (get_manager build) name) k (st\<lparr>ms_once := True, ms_manager := Some m\<rparr>, s1) =
      (replicate k (Returned (m name)), st\<lparr>ms_once := True, ms_manager := Some m\<rparr>, s1)"
proof -
  assume p: "r = Panicked"
  have g: "get_manager build (st, s) = (Panicked, st\<lparr>ms_once := True\<rparr>, s1)" using assms p by (simp add: get_manager_def)
  show "get_manager build (st, s) = (Panicked, st\<lparr>ms_once := True\<rparr>, s1) \<and>
      call_times (get_client (get_manager build) name) k (st\<lparr>ms_once := True\<rparr>, s1) = (replicate k Panicked, st\<lparr>ms_once := True\<rparr>, s1)"
    using managers.failed_is_final[OF _ g, of name k] assms(3) g by simp
next
  let ?st = "st\<lparr>ms_once := True, ms_manager := Some m\<rparr>"
  assume "r = Returned m"
  with assms have g: "get_manager build (st, s) = (Returned (Some m), ?st, s1)" by (simp add: get_manager_def)
  have "get_manager build (?st, s1) = (Returned (Some m), ?st, s1)" using assms(1) by (simp add: get_manager_spent)
  then show "call_times (get_client (get_manager build) name) k (?st, s1) = (replicate k (Returned (m name)), ?st, s1)"
    using managers.answer_is_stable[OF g, of m name k] by simp
qed

section \<open>Properties\<close>

text \<open>C35: a query into a slice of structs appends, for each row of the answer in order, the struct whose fields have the values
  of the columns of their tag (the db tag, or the name without one), whatever the order of the columns; columns
  without a field are dropped and fields without a column keep their zero value.\<close>

theorem query_fills_structs:
  assumes "run query args = Inr rows" "sr_cols rows = Inr cols"
    and "distinct (map field_tag fs)" "list_all fl_exported fs" "distinct cols" "length zero = length fs" "\<forall>f v. conv f v = Inr (cv f v)"
    and "\<forall>row \<in> set (sr_rows rows). length row = length cols"
  shows "ch_Query run conv zero (SliceOf isPtr (ElemStruct fs)) query args out =
           (Returned (sr_Err rows), out @ map (\<lambda>row. row_struct cv fs cols row zero) (sr_rows rows))"
  using assms(1,2) scan_loop_structs[OF assms(3-8), of out] by (simp add: ch_Query_def scanRows_def)

definition sample_rows :: "int sql_rows" where
  "sample_rows = \<lparr>sr_cols = Inr [''age'', ''extra'', ''Name''], sr_rows = [[1, 2, 3], [4, 5, 6]], sr_Err = None\<rparr>"

definition sample_fields :: "go_field list" where
  "sample_fields = [\<lparr>fl_Name = ''Name'', fl_Tag = '''', fl_exported = True\<rparr>, \<lparr>fl_Name = ''Age'', fl_Tag = ''age'', fl_exported = True\<rparr>,
     \<lparr>fl_Name = ''City'', fl_Tag = ''city'', fl_exported = True\<rparr>]"

theorem query_fills_structs_witness:
  "ch_Query (\<lambda>_ _. Inr sample_rows) (\<lambda>f v. Inr v) [0, 0, 0] (SliceOf True (ElemStruct sample_fields)) ''SELECT'' ([] :: int list) [] =
     (Returned None, [[3, 1, 0], [6, 4, 0]])"
proof -
  have h: "sr_cols sample_rows = Inr [''age'', ''extra'', ''Name'']" "distinct (map field_tag sample_fields)" "list_all fl_exported sample_fields"
    "distinct [''age'', ''extra'', ''Name'']" "length [0, 0, 0 :: int] = length sample_fields" "\<forall>f v. Inr v = Inr v"
    "\<forall>row \<in> set (sr_rows sample_rows). length row = length [''age'', ''extra'', ''Name'']"
    by (simp_all add: sample_rows_def sample_fields_def field_tag_def)
  have "row_struct (\<lambda>f v. v) sample_fields [''age'', ''extra'', ''Name''] [a, b, c] [0, 0, 0] = [c, a, 0]" for a b c :: int
    by (simp add: row_struct_def sample_fields_def field_tag_def upt_conv_Cons)
  then show ?thesis
    using query_fills_structs[where run = "\<lambda>_ _. Inr sample_rows" and cv = "\<lambda>f v. v" and conv = "\<lambda>f v. Inr v" and isPtr = True and
        query = "''SELECT''" and args = "[] :: int list" and out = "[]", OF refl h(1-5) _ h(7)]
    by (simp add: sample_rows_def)
qed

text \<open>the managers of MongoDB and ClickHouse are built by the first call that finds a configuration. If that call fails, on an
  invalid configuration, a refused connection or a null in the list, it panics and every later GetClient panics as well;
  the driver is not asked again. If it succeeds every configuration was valid, exactly the configured names have a client, and
  every later call answers from the same table.\<close>

theorem data_managers_decide_once:
  assumes "ms_config st \<noteq> []" "\<not> ms_once st" "ms_manager st = None"
    and "newMongoManager d (ms_config st) s = (r, s1)" "newClickHouseManager d' (ms_config st') s' = (r', s1')"
    and "ms_config st' \<noteq> []" "\<not> ms_once st'" "ms_manager st' = None"
  shows "(r = Panicked \<longrightarrow> GetMongoManager d (st, s) = (Panicked, st\<lparr>ms_once := True\<rparr>, s1) \<and>
            call_times (mongo_GetClient d name) k (st\<lparr>ms_once := True\<rparr>, s1) = (replicate k Panicked, st\<lparr>ms_once := True\<rparr>, s1)) \<and>
         (\<forall>m. r = Returned m \<longrightarrow>
            (\<forall>c \<in> set (ms_config st). \<exists>x. c = Some x \<and> mongo_Validate (mongo_SetDefaults x) = None) \<and>
            dom m = (\<lambda>c. mg_Name (mongo_SetDefaults (the c))) ` set (ms_config st) \<and>
            call_times (mongo_GetClient d name) k (st\<lparr>ms_once := True, ms_manager := Some m\<rparr>, s1) =
              (replicate k (Returned (m name)), st\<lparr>ms_once := True, ms_manager := Some m\<rparr>, s1)) \<and>
         (r' = Panicked \<longrightarrow> GetClickHouseManager d' (st', s') = (Panicked, st'\<lparr>ms_once := True\<rparr>, s1') \<and>
            call_times (ch_GetClient d' name) k (st'\<lparr>ms_once := True\<rparr>, s1') = (replicate k Panicked, st'\<lparr>ms_once := True\<rparr>, s1')) \<and>
         (\<forall>m. r' = Returned m \<longrightarrow>
            (\<forall>c \<in> set (ms_config st'). \<exists>x. c = Some x \<and> ch_Validate (ch_SetDefaults x) = None) \<and>
            dom m = (\<lambda>c. ch_Name (ch_SetDefaults (the c))) ` set (ms_config st') \<and>
            call_times (ch_GetClient d' name) k (st'\<lparr>ms_once := True, ms_manager := Some m\<rparr>, s1') =
              (replicate k (Returned (m name)), st'\<lparr>ms_once := True, ms_manager := Some m\<rparr>, s1'))"
proof (intro conjI impI allI)
  note mongo = manager_decides[of st "newMongoManager d" s, OF assms(1-4)] and ch = manager_decides[of st' "newClickHouseManager d'" s', OF assms(6-8,5)]
  show "GetMongoManager d (st, s) = (Panicked, st\<lparr>ms_once := True\<rparr>, s1)" if "r = Panicked"
    using mongo(1)[OF that] by (simp add: GetMongoManager_def)
  show "call_times (mongo_GetClient d name) k (st\<lparr>ms_once := True\<rparr>, s1) = (replicate k Panicked, st\<lparr>ms_once := True\<rparr>, s1)" if "r = Panicked"
    using mongo(1)[OF that] by (simp add: mongo_GetClient_def GetMongoManager_def)
  show "GetClickHouseManager d' (st', s') = (Panicked, st'\<lparr>ms_once := True\<rparr>, s1')" if "r' = Panicked"
    using ch(1)[OF that] by (simp add: GetClickHouseManager_def)
  show "call_times (ch_GetClient d' name) k (st'\<lparr>ms_once := True\<rparr>, s1') = (replicate k Panicked, st'\<lparr>ms_once := True\<rparr>, s1')" if "r' = Panicked"
    using ch(1)[OF that] by (simp add: ch_GetClient_def GetClickHouseManager_def)
next
  fix m assume m: "r = Returned m"
  note o = open_clients_ok[OF assms(4)[unfolded newMongoManager_def m]]
  show "\<forall>c \<in> set (ms_config st). \<exists>x. c = Some x \<and> mongo_Validate (mongo_SetDefaults x) = None"
    "dom m = (\<lambda>c. mg_Name (mongo_SetDefaults (the c))) ` set (ms_config st)" using o by simp_all
  show "call_times (mongo_GetClient d name) k (st\<lparr>ms_once := True, ms_manager := Some m\<rparr>, s1) =
      (replicate k (Returned (m name)), st\<lparr>ms_once := True, ms_manager := Some m\<rparr>, s1)"
    using manager_decides(2)[of st "newMongoManager d" s, OF assms(1-4) m] by (simp add: mongo_GetClient_def GetMongoManager_def)
next
  fix m assume m: "r' = Returned m"
  note o = open_clients_ok[OF assms(5)[unfolded newClickHouseManager_def m]]
  show "\<forall>c \<in> set (ms_config st'). \<exists>x. c = Some x \<and> ch_Validate (ch_SetDefaults x) = None"
    "dom m = (\<lambda>c. ch_Name (ch_SetDefaults (the c))) ` set (ms_config st')" using o by simp_all
  show "call_times (ch_GetClient d' name) k (st'\<lparr>ms_once := True, ms_manager := Some m\<rparr>, s1') =
      (replicate k (Returned (m name)), st'\<lparr>ms_once := True, ms_manager := Some m\<rparr>, s1')"
    using manager_decides(2)[of st' "newClickHouseManager d'" s', OF assms(6-8,5) m] by (simp add: ch_GetClient_def GetClickHouseManager_def)
qed

definition refusing_mongo :: "(unit, unit, unit, nat) mongo_driver" where
  "refusing_mongo = \<lparr>md_Connect = (\<lambda>_ s. (None, s)), md_Ping = (\<lambda>_ s. (Some ''refused'', Suc s)), md_InsertOne = (\<lambda>_ _ _ s. (Inl '''', s)),
     md_InsertMany = (\<lambda>_ _ _ s. (Inl '''', s)), md_FindOne = (\<lambda>_ _ _ s. (Inl ErrNoDocuments, s)), md_Find = (\<lambda>_ _ _ s. (Inl '''', s)),
     md_Update = (\<lambda>_ _ _ _ _ s. (Inl '''', s)), md_Delete = (\<lambda>_ _ _ _ s. (Inl '''', s)), md_Count = (\<lambda>_ _ _ s. (Inl '''', s))\<rparr>"

definition working_sql :: "(unit, nat) sql_driver" where
  "working_sql = \<lparr>sd_Open = (\<lambda>_ s. (s, Suc s)), sd_Ping = (\<lambda>_ s. (None, s)), sd_Close = (\<lambda>_ s. s), sd_Exec = (\<lambda>_ _ _ s. (None, s))\<rparr>"

definition mongo_state :: "(mongo_Config, mongoClient) manager_state" where
  "mongo_state = \<lparr>ms_once = False, ms_manager = None, ms_config = [Some \<lparr>mg_Name = ''main'', mg_URI = ''mongodb://h'', mg_Database = ''db'',
     mg_MaxPool = 0, mg_MinPool = 0, mg_TimeoutS = 0\<rparr>]\<rparr>"

definition ch_state :: "(ch_Config, nat) manager_state" where
  "ch_state = \<lparr>ms_once = False, ms_manager = None, ms_config = [Some \<lparr>ch_Name = ''main'', ch_Addr = ''h:9000'', ch_Database = ''db'',
     ch_Username = '''', ch_Password = '''', ch_MaxConn = 0, ch_MaxIdle = 0, ch_DialTimeoutS = 0\<rparr>]\<rparr>"

theorem data_managers_decide_once_witness:
  "call_times (mongo_GetClient refusing_mongo ''main'') 2 (mongo_state\<lparr>ms_once := True\<rparr>, Suc 0) =
     ([Panicked, Panicked], mongo_state\<lparr>ms_once := True\<rparr>, Suc 0) \<and>
   call_times (ch_GetClient working_sql ''main'') 2 (ch_state\<lparr>ms_once := True, ms_manager := Some [''main'' \<mapsto> 0]\<rparr>, Suc 0) =
     ([Returned (Some 0), Returned (Some 0)], ch_state\<lparr>ms_once := True, ms_manager := Some [''main'' \<mapsto> 0]\<rparr>, Suc 0)"
proof -
  have m: "newMongoManager refusing_mongo (ms_config mongo_state) 0 = (Panicked, Suc 0)"
    by (simp add: mongo_state_def newMongoManager_def newMongoClient_def mongo_SetDefaults_def mongo_Validate_def refusing_mongo_def Let_def)
  have c: "newClickHouseManager working_sql (ms_config ch_state) 0 = (Returned [''main'' \<mapsto> 0], Suc 0)"
    by (simp add: ch_state_def newClickHouseManager_def newClickHouseClient_def ch_SetDefaults_def ch_Validate_def working_sql_def Let_def)
  have h: "ms_config mongo_state \<noteq> []" "\<not> ms_once mongo_state" "ms_manager mongo_state = None"
    "ms_config ch_state \<noteq> []" "\<not> ms_once ch_state" "ms_manager ch_state = None"
    by (simp_all add: mongo_state_def ch_state_def)
  show ?thesis using data_managers_decide_once[OF h(1-3) m c h(4-6), of "''main''" 2] by (simp add: numeral_2_eq_2)
qed

end
