(* ===== verification/Http_Middleware.thy ===== *)
theory Http_Middleware
  imports Breaker Shedder Limiters "HOL-Library.Char_ord"
begin

section \<open>HTTP middleware and gRPC interceptors\<close>

text \<open>
  Models \<open>http_server/middleware\<close> and \<open>http_server/interceptor\<close>, the address checks of \<open>utils/system.go\<close> they use, and
  the retry loop of \<open>utils/http.go\<close>. A gin handler works on its context and on the rest of the state; it returns or
  panics. \<open>c.Next()\<close> is an argument of the middleware: it runs the remaining handlers, and whatever other requests do
  meanwhile. A middleware that does not call it aborts the request. The breaker, the shedder and the limiters are
  those of the other theories; a run-time panic in them is a panic of the middleware.
\<close>

record gin_ctx =
  gc_Method :: string
  gc_FullPath :: string
  gc_header :: "string \<Rightarrow> string"
  gc_query :: "string \<Rightarrow> string"
  gc_ClientIP :: string
  gc_URL :: string
  gc_RequestURI :: string
  gc_Host :: string
  gc_UserAgent :: string
  gc_span :: "nat option"
  gc_deadline :: "go_time option"
  gc_lang :: "string option"
  gc_status :: int
  gc_out :: "(string \<times> string) list"
  gc_body :: "(int \<times> string) option"
  gc_aborted :: bool

type_synonym 'w gin_next = "gin_ctx \<Rightarrow> 'w \<Rightarrow> unit outcome \<times> gin_ctx \<times> 'w"

definition AbortWithStatusJSON :: "int \<Rightarrow> int \<Rightarrow> string \<Rightarrow> gin_ctx \<Rightarrow> gin_ctx" where
  "AbortWithStatusJSON st code msg c = c\<lparr>gc_aborted := True, gc_status := st, gc_body := Some (code, msg)\<rparr>"

definition set_header :: "string \<Rightarrow> string \<Rightarrow> gin_ctx \<Rightarrow> gin_ctx" where
  "set_header k v c = c\<lparr>gc_out := filter (\<lambda>(k', _). k' \<noteq> k) (gc_out c) @ [(k, v)]\<rparr>"

subsection \<open>Circuit breakers by path\<close>

text \<open>The breakers are shared objects: the table maps a path to the address of its breaker.\<close>

record http_breakers =
  hb_map :: "string \<rightharpoonup> nat"
  hb_heap :: "GoogleBreaker list"

definition get_or_create :: "GoogleBreaker option \<Rightarrow> string \<Rightarrow> http_breakers \<Rightarrow> (nat \<times> http_breakers) option" where
  "get_or_create fresh path hb =
     (case hb_map hb path of
        Some a \<Rightarrow> Some (a, hb)
      | None \<Rightarrow>
          (case fresh of
             None \<Rightarrow> None
           | Some b \<Rightarrow> Some (length (hb_heap hb),
               hb\<lparr>hb_map := (hb_map hb)(path \<mapsto> length (hb_heap hb)), hb_heap := hb_heap hb @ [b]\<rparr>)))"

definition getHttpBreaker :: "go_time \<Rightarrow> string \<Rightarrow> http_breakers \<Rightarrow> (nat \<times> http_breakers) option" where
  "getHttpBreaker now path hb = get_or_create (NewGoogleBreaker now) path hb"

definition getHttpBreakerWithConfig ::
  "go_time \<Rightarrow> string \<Rightarrow> GoogleBreakerConfig \<Rightarrow> http_breakers \<Rightarrow> (nat \<times> http_breakers) option" where
  "getHttpBreakerWithConfig now path config hb = get_or_create (NewGoogleBreakerWithConfig config now) path hb"

definition set_breaker :: "nat \<Rightarrow> GoogleBreaker \<Rightarrow> http_breakers \<Rightarrow> http_breakers" where
  "set_breaker a b hb = hb\<lparr>hb_heap := (hb_heap hb)[a := b]\<rparr>"

text \<open>The body both variants share: \<open>t1\<close> and \<open>rnd\<close> are what \<open>Allow\<close> reads, \<open>t2\<close> the time the outcome is recorded.\<close>

definition breaker_body ::
  "(nat \<times> http_breakers) option \<Rightarrow> go_time \<Rightarrow> float64 \<Rightarrow> go_time \<Rightarrow> (http_breakers \<times> 'w) gin_next \<Rightarrow> gin_ctx \<Rightarrow>
     http_breakers \<times> 'w \<Rightarrow> unit outcome \<times> gin_ctx \<times> http_breakers \<times> 'w" where
  "breaker_body got t1 rnd t2 next c = (\<lambda>(hb0, w).
     case got of
       None \<Rightarrow> (Panicked, c, hb0, w)
     | Some (a, hb) \<Rightarrow>
         (case Allow t1 rnd (hb_heap hb ! a) of
            None \<Rightarrow> (Panicked, c, hb, w)
          | Some (Some err, b) \<Rightarrow>
              (Returned (), AbortWithStatusJSON 503 503 ''service unavailable (circuit breaker open)'' c,
               set_breaker a b hb, w)
          | Some (None, b) \<Rightarrow>
              (case next c (set_breaker a b hb, w) of
                 (Panicked, c, hb, w) \<Rightarrow> (Panicked, c, hb, w)
               | (Returned _, c, hb, w) \<Rightarrow>
                   (case (if gc_status c \<ge> 500 then promise_Reject t2 (hb_heap hb ! a) else promise_Accept t2 (hb_heap hb ! a)) of
                      None \<Rightarrow> (Panicked, c, hb, w)
                    | Some b \<Rightarrow> (Returned (), c, set_breaker a b hb, w)))))"

definition CircuitBreaker where
  "CircuitBreaker t0 t1 rnd t2 next c = (\<lambda>(hb, w).
     breaker_body (getHttpBreaker t0 (gc_FullPath c) hb) t1 rnd t2 next c (hb, w))"

definition CircuitBreakerWithGoogleConfig where
  "CircuitBreakerWithGoogleConfig config t0 t1 rnd t2 next c = (\<lambda>(hb, w).
     breaker_body (getHttpBreakerWithConfig t0 (gc_FullPath c) config hb) t1 rnd t2 next c (hb, w))"

subsection \<open>Load shedding and rate limits\<close>

definition AdaptiveShedding ::
  "allow_env \<Rightarrow> go_time \<Rightarrow> go_time \<Rightarrow> go_time \<Rightarrow> (AdaptiveShedder \<times> 'w) gin_next \<Rightarrow> gin_ctx \<Rightarrow> AdaptiveShedder \<times> 'w \<Rightarrow>
     unit outcome \<times> gin_ctx \<times> AdaptiveShedder \<times> 'w" where
  "AdaptiveShedding env t1 t2 t3 next c = (\<lambda>(sh, w).
     case shedder_Allow env sh of
       None \<Rightarrow> (Panicked, c, sh, w)
     | Some (Inl err, sh) \<Rightarrow>
         (Returned (), AbortWithStatusJSON 503 503 ''service overloaded, please retry later'' c, sh, w)
     | Some (Inr start, sh) \<Rightarrow>
         (case next c (sh, w) of
            (Panicked, c, sh, w) \<Rightarrow> (Panicked, c, sh, w)
          | (Returned _, c, sh, w) \<Rightarrow>
              if gc_status c \<ge> 500 then (Returned (), c, promise_Fail sh, w)
              else (case promise_Pass start t1 t2 t3 sh of
                      None \<Rightarrow> (Panicked, c, sh, w)
                    | Some sh \<Rightarrow> (Returned (), c, sh, w))))"

definition RateLimit where
  "RateLimit rdb now next c = (\<lambda>(limiter, s).
     let (ok, limiter, s) = TokenLimiter_Allow rdb now limiter s
     in if \<not> ok then (Returned (), AbortWithStatusJSON 429 429 ''too many requests'' c, limiter, s)
        else next c (limiter, s))"

definition PeriodRateLimit where
  "PeriodRateLimit rdb now next c = (\<lambda>(limiter, s).
     let key = gc_ClientIP c; (status, limiter, s) = Take rdb now key limiter s
     in if status = OverQuotaStatus then (Returned (), AbortWithStatusJSON 429 429 ''rate limit exceeded'' c, limiter, s)
        else next c (limiter, s))"

subsection \<open>Headers, language, deadline, metrics\<close>

definition Cors :: "'w gin_next \<Rightarrow> gin_ctx \<Rightarrow> 'w \<Rightarrow> unit outcome \<times> gin_ctx \<times> 'w" where
  "Cors next c w =
     (let c = set_header ''Access-Control-Allow-Origin'' ''*'' c;
          c = set_header ''Access-Control-Allow-Methods'' ''POST, GET, OPTIONS, PUT, DELETE, UPDATE'' c;
          c = set_header ''Access-Control-Allow-Headers'' ''*'' c;
          c = set_header ''Access-Control-Expose-Headers'' ''Content-Length, Access-Control-Allow-Origin, Access-Control-Allow-Headers, Cache-Control, Content-Language, Content-Type'' c
      in if gc_Method c = ''OPTIONS'' then (Returned (), c\<lparr>gc_aborted := True, gc_status := 204\<rparr>, w)
         else next c w)"

definition SetHeaders :: "(string \<times> string) list \<Rightarrow> 'w gin_next \<Rightarrow> gin_ctx \<Rightarrow> 'w \<Rightarrow> unit outcome \<times> gin_ctx \<times> 'w" where
  "SetHeaders headers next c w = next (foldl (\<lambda>c (k, v). set_header k v c) c headers) w"

definition supported_langs :: "string list" where
  "supported_langs = [''zh-CN'', ''zh-TW'', ''en-US'', ''ja-JP'', ''ru-RU'', ''de-DE'', ''fr-FR'', ''pt-BR'', ''ko-KR'',
     ''it-IT'', ''es-MX'', ''vi-VN'']"

text \<open>\<open>parse\<close> is \<open>language.Parse\<close> with the text of the tag it finds.\<close>

definition choose_lang :: "(string \<Rightarrow> string option) \<Rightarrow> gin_ctx \<Rightarrow> string" where
  "choose_lang parse c =
     (let lang = gc_header c ''X-Lang'';
          lang = (if lang = '''' then takeWhile (\<lambda>ch. ch \<noteq> CHR '','') (gc_header c ''Accept-Language'') else lang);
          lang = (if lang = '''' then gc_query c ''lang'' else lang);
          lang = (if lang = '''' then ''zh-CN'' else lang);
          lang = trim_space lang;
          lang = (case parse lang of Some tag \<Rightarrow> tag | None \<Rightarrow> lang)
      in if lang \<in> set supported_langs then lang else ''zh-CN'')"

definition I18nMiddleware :: "(string \<Rightarrow> string option) \<Rightarrow> 'w gin_next \<Rightarrow> gin_ctx \<Rightarrow> 'w \<Rightarrow> unit outcome \<times> gin_ctx \<times> 'w" where
  "I18nMiddleware parse next c w =
     (let lang = choose_lang parse c in next (set_header ''X-Lang'' lang (c\<lparr>gc_lang := Some lang\<rparr>)) w)"

definition LangFromContext :: "gin_ctx \<Rightarrow> string" where
  "LangFromContext c = (case gc_lang c of Some lang \<Rightarrow> lang | None \<Rightarrow> ''zh-CN'')"

text \<open>\<open>context.WithTimeout\<close> keeps an earlier deadline of the parent.\<close>

definition with_timeout :: "go_time \<Rightarrow> duration \<Rightarrow> go_time option \<Rightarrow> go_time option" where
  "with_timeout now d parent = Some (case parent of None \<Rightarrow> now + d | Some p \<Rightarrow> min p (now + d))"

definition Timeout :: "go_time \<Rightarrow> duration \<Rightarrow> 'w gin_next \<Rightarrow> gin_ctx \<Rightarrow> 'w \<Rightarrow> unit outcome \<times> gin_ctx \<times> 'w" where
  "Timeout now duration next c w = next (c\<lparr>gc_deadline := with_timeout now duration (gc_deadline c)\<rparr>) w"

definition requestResultByStatus :: "int \<Rightarrow> string" where
  "requestResultByStatus status = (if status \<ge> 400 then ''fail'' else ''success'')"

definition requestStatusClass :: "int \<Rightarrow> string" where
  "requestStatusClass status =
     (if status \<ge> 100 \<and> status < 200 then ''1xx''
      else if status \<ge> 200 \<and> status < 300 then ''2xx''
      else if status \<ge> 300 \<and> status < 400 then ''3xx''
      else if status \<ge> 400 \<and> status < 500 then ''4xx''
      else if status \<ge> 500 \<and> status < 600 then ''5xx''
      else ''unknown'')"

record http_metrics =
  hm_inFlight :: int
  hm_total :: "string \<times> string \<times> string \<Rightarrow> nat"
  hm_byResult :: "string \<times> string \<times> string \<Rightarrow> nat"
  hm_byClass :: "string \<times> string \<times> string \<Rightarrow> nat"
  hm_durations :: "(string \<times> string \<times> int) list"

definition bump_counter :: "'k \<Rightarrow> ('k \<Rightarrow> nat) \<Rightarrow> 'k \<Rightarrow> nat" where
  "bump_counter k m = m(k := m k + 1)"

definition Metrics ::
  "go_time \<Rightarrow> go_time \<Rightarrow> (http_metrics \<times> 'w) gin_next \<Rightarrow> gin_ctx \<Rightarrow> http_metrics \<times> 'w \<Rightarrow> unit outcome \<times> gin_ctx \<times> http_metrics \<times> 'w" where
  "Metrics start stop next c = (\<lambda>(hm, w).
     case next c (hm\<lparr>hm_inFlight := hm_inFlight hm + 1\<rparr>, w) of
       (Panicked, c, hm, w) \<Rightarrow> (Panicked, c, hm, w)
     | (Returned _, c, hm, w) \<Rightarrow>
         (let statusCode = gc_status c;
              path = (if gc_FullPath c = '''' then ''unknown'' else gc_FullPath c);
              m = gc_Method c
          in (Returned (), c,
              hm\<lparr>hm_inFlight := hm_inFlight hm - 1,
                 hm_total := bump_counter (m, path, itoa statusCode) (hm_total hm),
                 hm_byResult := bump_counter (m, path, requestResultByStatus statusCode) (hm_byResult hm),
                 hm_byClass := bump_counter (m, path, requestStatusClass statusCode) (hm_byClass hm),
                 hm_durations := (m, path, trunc_div (stop - start) Millisecond) # hm_durations hm\<rparr>, w)))"

text \<open>The trace of a request. \<open>extract\<close> is the propagator: the remote parent named by the headers. The span goes into the context
  of the request; \<open>span.End\<close> is deferred and runs after a panic too.\<close>

record http_span =
  hp_name :: string
  hp_parent :: "string option"
  hp_attrs :: "(string \<times> string) list"
  hp_error :: "string option"
  hp_ended :: bool

definition Tracing ::
  "((string \<Rightarrow> string) \<Rightarrow> string option) \<Rightarrow> (http_span list \<times> 'w) gin_next \<Rightarrow> gin_ctx \<Rightarrow> http_span list \<times> 'w \<Rightarrow>
     unit outcome \<times> gin_ctx \<times> http_span list \<times> 'w" where
  "Tracing extract next c = (\<lambda>(spans, w).
     let a = length spans;
         sp = \<lparr>hp_name = gc_FullPath c, hp_parent = extract (gc_header c),
               hp_attrs = [(''http.method'', gc_Method c), (''http.url'', gc_URL c), (''http.client_ip'', gc_ClientIP c)],
               hp_error = None, hp_ended = False\<rparr>
     in case next (c\<lparr>gc_span := Some a\<rparr>) (spans @ [sp], w) of
          (Panicked, c, spans, w) \<Rightarrow> (Panicked, c, spans[a := (spans ! a)\<lparr>hp_ended := True\<rparr>], w)
        | (Returned _, c, spans, w) \<Rightarrow>
            (let sp = (spans ! a)\<lparr>hp_attrs := hp_attrs (spans ! a) @ [(''http.status_code'', itoa (gc_status c))]\<rparr>;
                 sp = (if gc_status c \<ge> 500 then sp\<lparr>hp_error := Some ''server error''\<rparr> else sp)
             in (Returned (), c, spans[a := sp\<lparr>hp_ended := True\<rparr>], w)))"

text \<open>The request log. The body is what is still to be read, or the error of reading it; a response is written with \<open>Write\<close>, which the
  wrapper also keeps, or with \<open>WriteString\<close>, which it does not. \<open>pretty\<close> formats a text that is JSON, \<open>ids\<close> gives the trace and span id
  of the span in the context of the request. Without a logger the first log line panics.\<close>

datatype write_op = Write string | WriteString string

record http_io =
  io_body :: "string + string"
  io_writes :: "write_op list"
  io_log :: "(string \<times> (string \<times> string) list) list"

fun logged_bytes :: "write_op list \<Rightarrow> string" where
  "logged_bytes [] = ''''"
| "logged_bytes (Write b # ops) = b @ logged_bytes ops"
| "logged_bytes (WriteString b # ops) = logged_bytes ops"

definition Request ::
  "bool \<Rightarrow> (string \<Rightarrow> string option) \<Rightarrow> (nat option \<Rightarrow> string \<times> string) \<Rightarrow> (http_io \<times> 'w) gin_next \<Rightarrow> gin_ctx \<Rightarrow> http_io \<times> 'w \<Rightarrow>
     unit outcome \<times> gin_ctx \<times> http_io \<times> 'w" where
  "Request logger pretty ids next c = (\<lambda>(io, w).
     let requestBody = (case io_body io of
             Inl err \<Rightarrow> ''failed to read request body''
           | Inr b \<Rightarrow> (case pretty b of None \<Rightarrow> b | Some formatted \<Rightarrow> formatted));
         host = gc_Host c; uri = gc_RequestURI c; meth = gc_Method c; agent = gc_UserAgent c; ip = gc_ClientIP c;
         n = length (io_writes io)
     in case next c (io, w) of
          (Panicked, c, io, w) \<Rightarrow> (Panicked, c, io, w)
        | (Returned _, c, io, w) \<Rightarrow>
            (if \<not> logger then (Panicked, c, io, w)
             else let (traceID, spanID) = ids (gc_span c);
                      trace = [(''trace_id'', traceID), (''span_id'', spanID)];
                      lines = [(''request'', trace @ [(''method'', meth), (''uri'', uri), (''status'', itoa (gc_status c)), (''ip'', ip),
                                  (''agent'', agent), (''host'', host), (''body'', requestBody)]),
                               (''response'', trace @ [(''response'', logged_bytes (drop n (io_writes io)))])]
                  in (Returned (), c, io\<lparr>io_log := io_log io @ lines\<rparr>, w)))"

subsection \<open>Access control\<close>

text \<open>\<open>net.ParseIP\<close>: a text whose first dot or colon is a dot is read as four numbers up to 255 without leading zeros;
  \<open>ipv6\<close> says which texts are IPv6 addresses.\<close>

definition ipv4_field :: "string \<Rightarrow> bool" where
  "ipv4_field f = (f \<noteq> [] \<and> list_all is_digit f \<and> digits_value f \<le> 255 \<and> (length f = 1 \<or> hd f \<noteq> CHR ''0''))"

definition CheckIp :: "(string \<Rightarrow> bool) \<Rightarrow> string \<Rightarrow> bool" where
  "CheckIp ipv6 s =
     (case dropWhile (\<lambda>ch. ch \<noteq> CHR ''.'' \<and> ch \<noteq> CHR '':'') s of
        [] \<Rightarrow> False
      | ch # _ \<Rightarrow>
          if ch = CHR ''.'' then length (go_split ''.'' s) = 4 \<and> list_all ipv4_field (go_split ''.'' s)
          else ipv6 s)"

text \<open>\<open>strconv.Atoi\<close> with its error ignored: 0 for a syntax error, the nearest bound out of range.\<close>

definition atoi0 :: "string \<Rightarrow> int" where
  "atoi0 s =
     (let neg = (s \<noteq> [] \<and> hd s = CHR ''-'');
          ds = (if s \<noteq> [] \<and> (hd s = CHR ''-'' \<or> hd s = CHR ''+'') then tl s else s);
          v = int (digits_value ds)
      in if ds = [] \<or> \<not> list_all is_digit ds then 0
         else if neg then max (- v) (- (2 ^ 63)) else min v (2 ^ 63 - 1))"

text \<open>The index into the parts panics when there are fewer than four.\<close>

definition NetAToN :: "string \<Rightarrow> int option" where
  "NetAToN ipStr =
     (let bits = go_split ''.'' ipStr
      in if length bits < 4 then None
         else Some (wrap64 (atoi0 (bits ! 0) * 2 ^ 24 + atoi0 (bits ! 1) * 2 ^ 16 + atoi0 (bits ! 2) * 2 ^ 8 + atoi0 (bits ! 3))))"

definition IsInnerIp :: "(string \<Rightarrow> bool) \<Rightarrow> string \<Rightarrow> bool option" where
  "IsInnerIp ipv6 ipStr =
     (if \<not> CheckIp ipv6 ipStr then Some False
      else do {
        inputIpNum \<leftarrow> NetAToN ipStr;
        innerIpA \<leftarrow> NetAToN ''10.255.255.255'';
        innerIpB \<leftarrow> NetAToN ''172.16.255.255'';
        innerIpC \<leftarrow> NetAToN ''192.168.255.255'';
        innerIpD \<leftarrow> NetAToN ''100.64.255.255'';
        innerIpF \<leftarrow> NetAToN ''127.255.255.255'';
        Some (inputIpNum div 2 ^ 24 = innerIpA div 2 ^ 24 \<or> inputIpNum div 2 ^ 20 = innerIpB div 2 ^ 20 \<or>
              inputIpNum div 2 ^ 16 = innerIpC div 2 ^ 16 \<or> inputIpNum div 2 ^ 22 = innerIpD div 2 ^ 22 \<or>
              inputIpNum div 2 ^ 24 = innerIpF div 2 ^ 24) })"

datatype claim = ClaimStr string | ClaimOther nat

text \<open>The calls \<open>Access\<close> makes into other packages, on the rest of the state: the lazy set-up of \<open>common.go\<close>, the application's
  name and version from \<open>conf\<close>, \<open>jwt.JWTDecrypt\<close>, and \<open>redis.GetRedisDb\<close>, whose client may be nil: the call on it then
  panics. The texts of the answers are Chinese, here in English. \<open>URL.Query().Add\<close> works on a copy: it has no effect.\<close>

record 'w access_env =
  ae_initRedisClient :: "'w \<Rightarrow> unit outcome \<times> 'w"
  ae_GetAppName :: "'w \<Rightarrow> string outcome \<times> 'w"
  ae_GetAppVersion :: "'w \<Rightarrow> string outcome \<times> 'w"
  ae_JWTDecrypt :: "string \<Rightarrow> string \<Rightarrow> (string \<rightharpoonup> claim) option"
  ae_GetRedisDb :: "'w \<Rightarrow> (string \<Rightarrow> 'w \<Rightarrow> string option \<times> 'w) option outcome \<times> 'w"

definition refuse :: "string \<Rightarrow> gin_ctx \<Rightarrow> gin_ctx" where
  "refuse msg c = AbortWithStatusJSON 401 2 msg c"

text \<open>The branch of a request with a token: the text of the refusal, or \<^term>\<open>Inr ()\<close> to go on.\<close>

definition token_check :: "'w access_env \<Rightarrow> string \<Rightarrow> 'w \<Rightarrow> (string + unit) outcome \<times> 'w" where
  "token_check env jwtStr w =
     (case ae_GetAppName env w of
        (Panicked, w) \<Rightarrow> (Panicked, w)
      | (Returned appName, w) \<Rightarrow>
          (case ae_GetAppVersion env w of
             (Panicked, w) \<Rightarrow> (Panicked, w)
           | (Returned appVersion, w) \<Rightarrow>
               (case ae_JWTDecrypt env jwtStr (appName @ ''-'' @ appVersion) of
                  None \<Rightarrow> (Returned (Inl ''jwt parse error''), w)
                | Some jwtObj \<Rightarrow>
                    if jwtObj ''token'' = None \<or> jwtObj ''id'' = None then (Returned (Inl ''jwt parse error''), w)
                    else (case jwtObj ''id'' of
                            Some (ClaimStr uid) \<Rightarrow>
                              (case ae_GetRedisDb env w of
                                 (Panicked, w) \<Rightarrow> (Panicked, w)
                               | (Returned None, w) \<Rightarrow> (Panicked, w)
                               | (Returned (Some getKey), w) \<Rightarrow>
                                   (case getKey (appName @ '':user:token:'' @ uid) w of
                                      (None, w) \<Rightarrow> (Returned (Inl ''no token''), w)
                                    | (Some oldToken, w) \<Rightarrow>
                                        if jwtObj ''token'' \<noteq> Some (ClaimStr oldToken)
                                        then (Returned (Inl ''account is logged in elsewhere''), w)
                                        else (Returned (Inr ()), w)))
                          | _ \<Rightarrow> (Returned (Inl ''no user''), w)))))"

definition Access ::
  "(string \<Rightarrow> bool) \<Rightarrow> 'w access_env \<Rightarrow> 'w gin_next \<Rightarrow> gin_ctx \<Rightarrow> 'w \<Rightarrow> unit outcome \<times> gin_ctx \<times> 'w" where
  "Access ipv6 env next c w =
     (case ae_initRedisClient env w of
        (Panicked, w) \<Rightarrow> (Panicked, c, w)
      | (Returned _, w) \<Rightarrow>
          (let jwtStr = gc_header c ''jwt''
           in if jwtStr \<noteq> '''' then
                (case token_check env jwtStr w of
                   (Panicked, w) \<Rightarrow> (Panicked, c, w)
                 | (Returned (Inl msg), w) \<Rightarrow> (Returned (), refuse msg c, w)
                 | (Returned (Inr _), w) \<Rightarrow> next c w)
              else (case IsInnerIp ipv6 (gc_ClientIP c) of
                      None \<Rightarrow> (Panicked, c, w)
                    | Some ok \<Rightarrow> if \<not> ok then (Returned (), refuse ''server busy'' c, w) else next c w)))"

subsection \<open>gRPC interceptors\<close>

text \<open>The gRPC interceptor of the breaker works on the table of its own package.\<close>

datatype 'e rpc_error = Unavailable string | HandlerError 'e

definition getBreaker :: "go_time \<Rightarrow> string \<Rightarrow> http_breakers \<Rightarrow> (nat \<times> http_breakers) option" where
  "getBreaker now rpc hb = get_or_create (NewGoogleBreaker now) rpc hb"

definition UnaryBreakerInterceptor ::
  "go_time \<Rightarrow> go_time \<Rightarrow> float64 \<Rightarrow> go_time \<Rightarrow> string \<Rightarrow>
     (http_breakers \<times> 'w \<Rightarrow> ('r \<times> 'e option) outcome \<times> http_breakers \<times> 'w) \<Rightarrow> http_breakers \<times> 'w \<Rightarrow>
     ('r option \<times> 'e rpc_error option) outcome \<times> http_breakers \<times> 'w" where
  "UnaryBreakerInterceptor t0 t1 rnd t2 fullMethod handler = (\<lambda>(hb0, w).
     case getBreaker t0 fullMethod hb0 of
       None \<Rightarrow> (Panicked, hb0, w)
     | Some (a, hb) \<Rightarrow>
         (case Allow t1 rnd (hb_heap hb ! a) of
            None \<Rightarrow> (Panicked, hb, w)
          | Some (Some err, b) \<Rightarrow> (Returned (None, Some (Unavailable ''circuit breaker is open'')), set_breaker a b hb, w)
          | Some (None, b) \<Rightarrow>
              (case handler (set_breaker a b hb, w) of
                 (Panicked, hb, w) \<Rightarrow> (Panicked, hb, w)
               | (Returned (resp, err), hb, w) \<Rightarrow>
                   (case (case err of Some _ \<Rightarrow> promise_Reject t2 (hb_heap hb ! a) | None \<Rightarrow> promise_Accept t2 (hb_heap hb ! a)) of
                      None \<Rightarrow> (Panicked, hb, w)
                    | Some b \<Rightarrow> (Returned (Some resp, map_option HandlerError err), set_breaker a b hb, w)))))"

definition UnaryTimeoutInterceptor where
  "UnaryTimeoutInterceptor now timeout handler deadline w = handler (with_timeout now timeout deadline) w"

subsection \<open>Requests with retries\<close>

text \<open>\<open>attempt\<close> is \<open>client.Do\<close>: an error text or a status. A retry count given and positive replaces 3.\<close>

fun request_loop :: "('w \<Rightarrow> (string + int) \<times> 'w) \<Rightarrow> nat \<Rightarrow> string option \<Rightarrow> int \<Rightarrow> 'w \<Rightarrow> (string option \<times> int + int) \<times> 'w" where
  "request_loop attempt 0 err lastStatus w = (Inl (err, lastStatus), w)"
| "request_loop attempt (Suc n) err lastStatus w =
     (case attempt w of
        (Inl e, w) \<Rightarrow> request_loop attempt n (Some e) lastStatus w
      | (Inr st, w) \<Rightarrow> if st = 200 then (Inr st, w) else request_loop attempt n None st w)"

definition PerformHTTPRequest :: "('w \<Rightarrow> (string + int) \<times> 'w) \<Rightarrow> int list \<Rightarrow> 'w \<Rightarrow> (string + int) \<times> 'w" where
  "PerformHTTPRequest attempt retryCounts w =
     (let retryCount = (case retryCounts of r # _ \<Rightarrow> if r > 0 then r else 3 | [] \<Rightarrow> 3)
      in case request_loop attempt (nat retryCount) None 0 w of
           (Inr st, w) \<Rightarrow> (Inr st, w)
         | (Inl (Some e, _), w) \<Rightarrow> (Inl (''failed after '' @ itoa retryCount @ '' attempts. Last error: '' @ e), w)
         | (Inl (None, st), w) \<Rightarrow>
             (Inl (''failed after '' @ itoa retryCount @ '' attempts. (HTTP Status Code: '' @ itoa st @ '')''), w))"

definition GetRemoteAddr :: "(string \<Rightarrow> string) \<Rightarrow> string \<Rightarrow> string" where
  "GetRemoteAddr header remote =
     (let a = header ''X-Forwarded-For''; a = (if a = '''' then header ''X-Real-IP'' else a)
      in if a = '''' then remote else a)"


text \<open>\<open>NewContext\<close> of \<open>http_server/context.go\<close>; \<open>remote\<close> is the address of the connection.\<close>

definition ClientIDKey :: string where "ClientIDKey = ''X-Client-ID''"

record Context =
  cx_gin :: gin_ctx
  cx_RemoteAddr :: string
  cx_ClientId :: string
  cx_Header :: "string \<Rightarrow> string"

definition NewContext :: "string \<Rightarrow> gin_ctx \<Rightarrow> Context" where
  "NewContext remote c = \<lparr>cx_gin = c, cx_RemoteAddr = GetRemoteAddr (gc_header c) remote, cx_ClientId = gc_header c ClientIDKey,
     cx_Header = gc_header c\<rparr>"

text \<open>\<open>CustomValidator\<close> of \<open>http_server/validator.go\<close>; the library's check of a struct is a parameter.\<close>

record 'v CustomValidator =
  cv_Validator :: "'v \<Rightarrow> string option"

definition Validate :: "'v CustomValidator \<Rightarrow> 'v \<Rightarrow> string option" where
  "Validate cv i = cv_Validator cv i"

text \<open>\<open>Download\<close>: \<open>get\<close> is the request, \<open>read_all\<close> the body with the error that ended it.\<close>

definition Download :: "(string \<Rightarrow> string + 'r) \<Rightarrow> ('r \<Rightarrow> string \<times> string option) \<Rightarrow> string \<Rightarrow> string \<times> string option" where
  "Download get read_all url = (case get url of Inl err \<Rightarrow> ('''', Some err) | Inr resp \<Rightarrow> read_all resp)"

section \<open>Lemmas\<close>

subsection \<open>The breakers of the paths\<close>

text \<open>What the table means: the breaker of each path.\<close>

definition breakers_of :: "http_breakers \<Rightarrow> string \<rightharpoonup> GoogleBreaker" where
  "breakers_of hb p = map_option (\<lambda>a. hb_heap hb ! a) (hb_map hb p)"

definition breakers_ok :: "http_breakers \<Rightarrow> bool" where
  "breakers_ok hb \<longleftrightarrow> (\<forall>p a. hb_map hb p = Some a \<longrightarrow> a < length (hb_heap hb)) \<and> (\<forall>p q a. hb_map hb p = Some a \<and> hb_map hb q = Some a \<longrightarrow> p = q) \<and>
     list_all breaker_inv (hb_heap hb)"

lemma breakers_of_set:
  assumes "breakers_ok hb" "hb_map hb p = Some a"
  shows "breakers_of (set_breaker a b hb) = (breakers_of hb)(p \<mapsto> b)"
proof
  fix q
  show "breakers_of (set_breaker a b hb) q = ((breakers_of hb)(p \<mapsto> b)) q"
  proof (cases "q = p")
    case False
    have "hb_map hb q \<noteq> Some a" using assms False unfolding breakers_ok_def by blast
    with False show ?thesis by (cases "hb_map hb q") (auto simp: breakers_of_def set_breaker_def)
  qed (use assms in \<open>auto simp: breakers_of_def set_breaker_def breakers_ok_def\<close>)
qed

lemma breakers_ok_set: "breakers_ok hb \<Longrightarrow> breaker_inv b \<Longrightarrow> breakers_ok (set_breaker a b hb)"
  using set_update_subset_insert[of "hb_heap hb" a b] unfolding breakers_ok_def set_breaker_def list_all_iff
  by (simp, blast)

lemma set_breaker_map [simp]: "hb_map (set_breaker a b hb) = hb_map hb"
  by (simp add: set_breaker_def)

lemma get_or_create_ok:
  assumes "breakers_ok hb" "\<And>b. fresh = Some b \<Longrightarrow> breaker_inv b" "get_or_create fresh p hb = Some (a, hb')"
  shows "breakers_ok hb'" "hb_map hb' p = Some a" "a < length (hb_heap hb')"
    "breakers_of hb' = (breakers_of hb)(p \<mapsto> hb_heap hb' ! a)"
proof -
  have "breakers_ok hb' \<and> hb_map hb' p = Some a \<and> breakers_of hb' = (breakers_of hb)(p \<mapsto> hb_heap hb' ! a)"
  proof (cases "hb_map hb p")
    case (Some x)
    with assms(3) have "hb' = hb" "a = x" by (auto simp: get_or_create_def)
    with Some assms(1) show ?thesis by (auto simp: breakers_of_def fun_eq_iff)
  next
    case None
    with assms(3) obtain b where b: "fresh = Some b" "a = length (hb_heap hb)"
      "hb' = hb\<lparr>hb_map := (hb_map hb)(p \<mapsto> length (hb_heap hb)), hb_heap := hb_heap hb @ [b]\<rparr>"
      by (auto simp: get_or_create_def split: option.splits)
    have lt: "hb_map hb q = Some x \<Longrightarrow> x < length (hb_heap hb)" for q x using assms(1) by (auto simp: breakers_ok_def)
    have u: "hb_map hb' x = Some y \<Longrightarrow> hb_map hb' z = Some y \<Longrightarrow> x = z" for x y z
      using b(3) lt[of x] lt[of z] assms(1) unfolding breakers_ok_def by (auto split: if_splits)
    have l: "hb_map hb' x = Some y \<Longrightarrow> y < length (hb_heap hb')" for x y
      using b(3) lt[of x y] by (auto split: if_splits)
    have "list_all breaker_inv (hb_heap hb')" using assms(1) assms(2)[OF b(1)] b(3) by (simp add: breakers_ok_def)
    with u l have "breakers_ok hb'" unfolding breakers_ok_def by blast
    moreover have "breakers_of hb' = (breakers_of hb)(p \<mapsto> hb_heap hb' ! a)"
    proof
      fix q
      show "breakers_of hb' q = ((breakers_of hb)(p \<mapsto> hb_heap hb' ! a)) q"
        using b lt[of q] by (cases "hb_map hb q") (auto simp: breakers_of_def nth_append)
    qed
    ultimately show ?thesis using b by simp
  qed
  then show "breakers_ok hb'" "hb_map hb' p = Some a" "breakers_of hb' = (breakers_of hb)(p \<mapsto> hb_heap hb' ! a)" by auto
  then show "a < length (hb_heap hb')" by (auto simp: breakers_ok_def)
qed


lemma Allow_inv: "breaker_inv gb \<Longrightarrow> \<exists>e gb'. Allow t rnd gb = Some (e, gb') \<and> breaker_inv gb'"
  using breaker_accept_inv[of gb t rnd] by (auto simp: Allow_def)

text \<open>The specification: one breaker per path, in a map. The request passes or is refused by the breaker of its path;
  when the handler returns, its outcome is recorded there, when it panics nothing is.\<close>

definition breaker_request ::
  "GoogleBreaker \<Rightarrow> go_time \<Rightarrow> float64 \<Rightarrow> go_time \<Rightarrow> 'w gin_next \<Rightarrow> gin_ctx \<Rightarrow> (string \<rightharpoonup> GoogleBreaker) \<Rightarrow> 'w \<Rightarrow>
     unit outcome \<times> gin_ctx \<times> (string \<rightharpoonup> GoogleBreaker) \<times> 'w" where
  "breaker_request fresh t1 rnd t2 next c m w =
     (let p = gc_FullPath c;
          (e, b) = the (Allow t1 rnd (case m p of Some b \<Rightarrow> b | None \<Rightarrow> fresh))
      in if e \<noteq> None
         then (Returned (), AbortWithStatusJSON 503 503 ''service unavailable (circuit breaker open)'' c, m(p \<mapsto> b), w)
         else (case next c w of
                 (Panicked, c, w) \<Rightarrow> (Panicked, c, m(p \<mapsto> b), w)
               | (Returned _, c, w) \<Rightarrow>
                   (Returned (), c,
                    m(p \<mapsto> the ((if gc_status c \<ge> 500 then promise_Reject else promise_Accept) t2 b)), w)))"

definition beside :: "'w gin_next \<Rightarrow> ('h \<times> 'w) gin_next" where
  "beside next c = (\<lambda>(hb, w). let (r, c, w) = next c w in (r, c, hb, w))"

lemma breaker_body_refines:
  assumes "breakers_ok hb" "hb_map hb (gc_FullPath c) = Some a"
    "breaker_body (Some (a, hb)) t1 rnd t2 (beside next) c (hb0, w) = (r, c', hb', w')"
  shows "breakers_ok hb' \<and> breaker_request fresh t1 rnd t2 next c (breakers_of hb) w = (r, c', breakers_of hb', w')"
proof -
  let ?p = "gc_FullPath c"
  have inv: "breaker_inv (hb_heap hb ! a)" "a < length (hb_heap hb)"
    using assms(1,2) by (auto simp: breakers_ok_def list_all_length)
  obtain e b where b: "Allow t1 rnd (hb_heap hb ! a) = Some (e, b)" "breaker_inv b" using Allow_inv[OF inv(1)] by blast
  have p: "breakers_of hb ?p = Some (hb_heap hb ! a)" by (simp add: breakers_of_def assms(2))
  let ?hb1 = "set_breaker a b hb"
  have hb1: "breakers_ok ?hb1" "breakers_of ?hb1 = (breakers_of hb)(?p \<mapsto> b)"
    using breakers_ok_set breakers_of_set assms(1,2) b(2) by auto
  have at: "hb_heap ?hb1 ! a = b" using inv(2) by (simp add: set_breaker_def)
  show ?thesis
  proof (cases e)
    case (Some err)
    with assms(3) b hb1 p show ?thesis by (auto simp: breaker_body_def breaker_request_def)
  next
    case None
    obtain x c1 w1 where n: "next c w = (x, c1, w1)" by (metis prod_cases3)
    show ?thesis
    proof (cases x)
      case Panicked
      with None assms(3) b hb1 p n show ?thesis by (auto simp: breaker_body_def breaker_request_def beside_def)
    next
      case (Returned u)
      obtain b2 where b2: "(if gc_status c1 \<ge> 500 then promise_Reject else promise_Accept) t2 b = Some b2" "breaker_inv b2"
        using mark_inv[OF b(2), of t2] by (cases "gc_status c1 \<ge> 500") auto
      have "hb' = set_breaker a b2 ?hb1" "r = Returned ()" "c' = c1" "w' = w1"
        using Returned None assms(3) b n at b2(1) by (auto simp: breaker_body_def beside_def split: if_splits)
      moreover have "breakers_of (set_breaker a b2 ?hb1) = (breakers_of hb)(?p \<mapsto> b2)"
        using breakers_of_set[OF hb1(1)] assms(2) hb1(2) by simp
      ultimately show ?thesis
        using Returned None b n p b2 breakers_ok_set[OF hb1(1) b2(2)] by (simp add: breaker_request_def)
    qed
  qed
qed

lemma new_breaker_inv: "NewGoogleBreaker t = Some b \<Longrightarrow> breaker_inv b"
  using new_breaker[of DefaultGoogleBreakerConfig t] by (auto simp: NewGoogleBreaker_def DefaultGoogleBreakerConfig_def)

lemma new_breaker_exists: "\<exists>b. NewGoogleBreaker t = Some b"
  using new_breaker[of DefaultGoogleBreakerConfig t] by (auto simp: NewGoogleBreaker_def DefaultGoogleBreakerConfig_def)

subsection \<open>Addresses\<close>

lemma atoi0_digits: "n < 256 \<Longrightarrow> atoi0 (nat_digits n) = int n"
proof -
  assume n: "n < 256"
  have "hd (nat_digits n) \<noteq> CHR ''-''" "hd (nat_digits n) \<noteq> CHR ''+''"
    using nat_digits_all_digits[of n] digit_not_sign by (cases "nat_digits n"; auto)+
  with n nat_digits_all_digits[of n] show ?thesis by (simp add: atoi0_def Let_def)
qed

definition dotted :: "nat \<Rightarrow> nat \<Rightarrow> nat \<Rightarrow> nat \<Rightarrow> string" where
  "dotted a b c d = go_join ''.'' (map nat_digits [a, b, c, d])"

lemma split_dotted: "go_split ''.'' (dotted a b c d) = map nat_digits [a, b, c, d]"
proof -
  have "CHR ''.'' \<notin> set (nat_digits n)" for n
    using nat_digits_all_digits[of n] by (auto simp: list_all_iff is_digit_def)
  then show ?thesis unfolding dotted_def by (intro go_split_join_char) auto
qed

lemma NetAToN_dotted:
  assumes "a < 256" "b < 256" "c < 256" "d < 256"
  shows "NetAToN (dotted a b c d) = Some (int a * 2 ^ 24 + int b * 2 ^ 16 + int c * 2 ^ 8 + int d)"
  using assms by (simp add: NetAToN_def split_dotted atoi0_digits)

lemma div_range:
  "(x :: int) div 2 ^ 24 = q \<longleftrightarrow> q * 16777216 \<le> x \<and> x < q * 16777216 + 16777216"
  "x div 2 ^ 20 = q \<longleftrightarrow> q * 1048576 \<le> x \<and> x < q * 1048576 + 1048576"
  "x div 2 ^ 16 = q \<longleftrightarrow> q * 65536 \<le> x \<and> x < q * 65536 + 65536"
  "x div 2 ^ 22 = q \<longleftrightarrow> q * 4194304 \<le> x \<and> x < q * 4194304 + 4194304"
  by auto

lemma octet_range:
  assumes "0 \<le> x" "x < 16777216" "A * 16777216 \<le> lo" "hi \<le> A * 16777216 + 16777216"
  shows "lo \<le> a * 16777216 + x \<and> a * 16777216 + x < hi \<longleftrightarrow> a = A \<and> lo \<le> A * 16777216 + x \<and> A * 16777216 + x < (hi :: int)"
proof
  assume "lo \<le> a * 16777216 + x \<and> a * 16777216 + x < hi"
  moreover from this assms have "a < A + 1" "A - 1 < a" by linarith+
  ultimately show "a = A \<and> lo \<le> A * 16777216 + x \<and> A * 16777216 + x < hi" by simp
qed auto

lemma ipv4_field_digits: "n < 256 \<Longrightarrow> ipv4_field (nat_digits n)"
proof -
  assume "n < 256"
  moreover have "length (nat_digits n) = 1 \<or> hd (nat_digits n) \<noteq> CHR ''0''"
  proof (induction n rule: nat_digits.induct)
    case (1 n)
    show ?case
    proof (cases "n < 10")
      case True
      then show ?thesis by (subst nat_digits.simps) simp
    next
      case False
      have "hd (nat_digits (n div 10)) \<noteq> CHR ''0''"
      proof (cases "n div 10 < 10")
        case True
        have "0 < n div 10" using False by simp
        then have "of_char (digit_char (n div 10)) \<noteq> (48 :: nat)" using True by (simp add: digit_char_def)
        then have "digit_char (n div 10) \<noteq> CHR ''0''" by auto
        with True show ?thesis by (subst nat_digits.simps) simp
      next
        case False
        then have "length (nat_digits (n div 10)) \<noteq> 1" by (subst nat_digits.simps) simp
        with 1 \<open>\<not> n < 10\<close> show ?thesis by blast
      qed
      then have "hd (nat_digits n) \<noteq> CHR ''0''" using False by (subst nat_digits.simps) simp
      then show ?thesis by blast
    qed
  qed
  ultimately show ?thesis using nat_digits_all_digits[of n] by (auto simp: ipv4_field_def)
qed

lemma CheckIp_dotted:
  assumes "a < 256" "b < 256" "c < 256" "d < 256"
  shows "CheckIp ipv6 (dotted a b c d)"
proof -
  let ?P = "\<lambda>ch. ch \<noteq> CHR ''.'' \<and> ch \<noteq> CHR '':''"
  have "\<forall>ch \<in> set (nat_digits a). ?P ch"
    using nat_digits_all_digits[of a] by (auto simp: list_all_iff is_digit_def)
  moreover have "dotted a b c d = nat_digits a @ CHR ''.'' # go_join ''.'' (map nat_digits [b, c, d])"
    by (simp add: dotted_def)
  ultimately have "dropWhile ?P (dotted a b c d) = CHR ''.'' # go_join ''.'' (map nat_digits [b, c, d])"
    by (simp add: dropWhile_append3)
  with assms show ?thesis by (simp add: CheckIp_def split_dotted ipv4_field_digits)
qed


lemma CircuitBreaker_refines:
  assumes "breakers_ok hb" "NewGoogleBreaker t0 = Some fresh"
    "CircuitBreaker t0 t1 rnd t2 (beside next) c (hb, w) = (r, c', hb', w')"
  shows "breakers_ok hb' \<and> breaker_request fresh t1 rnd t2 next c (breakers_of hb) w = (r, c', breakers_of hb', w')"
proof -
  let ?p = "gc_FullPath c"
  obtain a hb1 where g: "get_or_create (Some fresh) ?p hb = Some (a, hb1)"
    by (cases "hb_map hb ?p") (auto simp: get_or_create_def)
  note ok = get_or_create_ok[OF assms(1) _ g]
  have inv: "Some fresh = Some b \<Longrightarrow> breaker_inv b" for b using new_breaker_inv[OF assms(2)] by simp
  have hb1: "breakers_ok hb1" "hb_map hb1 ?p = Some a" "breakers_of hb1 = (breakers_of hb)(?p \<mapsto> hb_heap hb1 ! a)"
    by (rule ok, erule inv)+
  have "breaker_body (Some (a, hb1)) t1 rnd t2 (beside next) c (hb, w) = (r, c', hb', w')"
    using assms(2,3) g by (simp add: CircuitBreaker_def getHttpBreaker_def)
  from breaker_body_refines[OF hb1(1,2) this]
  have spec: "breakers_ok hb'" "breaker_request fresh t1 rnd t2 next c (breakers_of hb1) w = (r, c', breakers_of hb', w')"
    by auto
  have same: "(case breakers_of hb1 ?p of Some b \<Rightarrow> b | None \<Rightarrow> fresh) = (case breakers_of hb ?p of Some b \<Rightarrow> b | None \<Rightarrow> fresh)"
    using g by (cases "hb_map hb ?p") (auto simp: get_or_create_def breakers_of_def)
  have upd: "(breakers_of hb1)(?p \<mapsto> b) = (breakers_of hb)(?p \<mapsto> b)" for b
    unfolding hb1(3) by (rule fun_upd_upd)
  have "breaker_request fresh t1 rnd t2 next c (breakers_of hb1) w = breaker_request fresh t1 rnd t2 next c (breakers_of hb) w"
    unfolding breaker_request_def Let_def same upd by (rule refl)
  with spec show ?thesis by simp
qed

section \<open>Properties\<close>

text \<open>C27: The circuit breaker middleware keeps one breaker per path: with any consistent table it behaves like the
  specification on a map from paths to breakers. A refused request is answered 503 without running the handler; an
  admitted one runs it and its outcome, failed from status 500 on, is recorded once in the breaker of its path; the
  breakers of other paths are untouched; the middleware itself never panics. When the handler panics nothing is
  recorded: such failures never open the breaker.\<close>

theorem circuit_breaker_per_path:
  assumes "breakers_ok hb" "NewGoogleBreaker t0 = Some fresh"
    "CircuitBreaker t0 t1 rnd t2 (beside next) c (hb, w) = (r, c', hb', w')"
  shows "breakers_ok hb' \<and> breaker_request fresh t1 rnd t2 next c (breakers_of hb) w = (r, c', breakers_of hb', w')"
  by (rule CircuitBreaker_refines[OF assms])

definition sample_ctx :: gin_ctx where
  "sample_ctx = \<lparr>gc_Method = ''GET'', gc_FullPath = ''/api/a'', gc_header = (\<lambda>_. ''''), gc_query = (\<lambda>_. ''''),
     gc_ClientIP = ''10.0.0.1'', gc_URL = ''/api/a'', gc_RequestURI = ''/api/a'', gc_Host = ''h'', gc_UserAgent = '''', gc_span = None, gc_deadline = None, gc_lang = None, gc_status = 200, gc_out = [], gc_body = None,
     gc_aborted = False\<rparr>"

theorem circuit_breaker_per_path_witness:
  "\<exists>fresh r c' hb' w'. NewGoogleBreaker 0 = Some fresh \<and>
     CircuitBreaker 0 0 (1 / 2) 0 (beside (\<lambda>c w. (Returned (), c\<lparr>gc_status := 500\<rparr>, Suc w))) sample_ctx
       (\<lparr>hb_map = Map.empty, hb_heap = []\<rparr>, 0) = (r, c', hb', w') \<and>
     breaker_request fresh 0 (1 / 2) 0 (\<lambda>c w. (Returned (), c\<lparr>gc_status := 500\<rparr>, Suc w)) sample_ctx Map.empty 0 =
       (r, c', breakers_of hb', w')"
proof -
  let ?hb = "\<lparr>hb_map = Map.empty, hb_heap = []\<rparr>"
  obtain fresh where f: "NewGoogleBreaker 0 = Some fresh" using new_breaker_exists by blast
  obtain r c' hb' w' where run: "CircuitBreaker 0 0 (1 / 2) 0 (beside (\<lambda>c w. (Returned (), c\<lparr>gc_status := 500\<rparr>, Suc w)))
      sample_ctx (?hb, 0) = (r, c', hb', w')" by (metis prod_cases4)
  have ok: "breakers_ok ?hb" by (simp add: breakers_ok_def)
  have e: "breakers_of ?hb = Map.empty" by (simp add: breakers_of_def fun_eq_iff)
  from circuit_breaker_per_path[OF ok f run] f run e show ?thesis by auto
qed

text \<open>The shedding middleware pairs every admission with one settlement unless the handler panics: if the handler
  leaves the number of requests in flight as it found it, that number is the same after the request, but one higher
  after a panic, because the promise is not settled in a deferred call. The middleware itself does not panic.\<close>

theorem shedding_leaks_on_panic:
  assumes "shedder_inv sh"
    "\<And>c sh w r c' sh' w'. next c (sh, w) = (r, c', sh', w') \<Longrightarrow> shedder_inv sh \<Longrightarrow> shedder_inv sh' \<and> as_flying sh' = as_flying sh"
    "AdaptiveShedding env t1 t2 t3 next c (sh, w) = (r, c', sh', w')"
  shows "shedder_inv sh' \<and> as_flying sh' = as_flying sh + (if r = Panicked then 1 else 0) \<and>
    (r = Panicked \<longrightarrow> (\<exists>sh0. fst (next c (sh0, w)) = Panicked))"
proof -
  obtain x sh1 where a: "shedder_Allow env sh = Some (x, sh1)" "shedder_inv sh1"
    "as_flying sh1 = as_flying sh + (case x of Inl _ \<Rightarrow> 0 | Inr _ \<Rightarrow> 1)"
    using shedder_Allow_inv[OF assms(1)] by blast
  show ?thesis
  proof (cases x)
    case (Inl err)
    with a assms(3) show ?thesis by (auto simp: AdaptiveShedding_def AbortWithStatusJSON_def)
  next
    case (Inr start)
    obtain y c2 sh2 w2 where n: "next c (sh1, w) = (y, c2, sh2, w2)" by (metis prod_cases4)
    note sh2 = assms(2)[OF n a(2)]
    obtain sh3 where p: "promise_Pass start t1 t2 t3 sh2 = Some sh3" "shedder_inv sh3" "as_flying sh3 = as_flying sh2 - 1"
      using promise_Pass_inv sh2 by blast
    have "shedder_inv (promise_Fail sh2)" "as_flying (promise_Fail sh2) = as_flying sh2 - 1"
      using sh2 by (simp_all add: promise_Fail_inv) (simp add: promise_Fail_def)
    with Inr a n sh2 p assms(3) show ?thesis
      by (cases y) (auto simp: AdaptiveShedding_def split: if_splits, metis fst_conv)
  qed
qed


definition idle_shedder :: AdaptiveShedder where
  "idle_shedder = the (NewAdaptiveShedder [] 0 0 0 [] (\<lambda>_. 0))"

definition calm_env :: allow_env where
  "calm_env = \<lparr>env_tCPU = 0, env_tSince = 0, env_tPass = 0, env_tRt = 0, env_tEnd = 0, env_sample = (\<lambda>_. 0), env_gomaxprocs = 1\<rparr>"

lemma idle_shedder_facts: "shedder_inv idle_shedder \<and> as_flying idle_shedder = 0"
  by (simp add: idle_shedder_def NewAdaptiveShedder_def default_settings_def newRollingCounter_def go_simps
      shedder_inv_def wf_counter_def Second_def Let_def readCPUSeconds_def discoverCPUMetrics_def go_div_def)

theorem shedding_leaks_on_panic_witness:
  "\<exists>c' sh' w'. AdaptiveShedding calm_env 0 0 0 (\<lambda>c (sh, w). (Panicked, c, sh, w)) sample_ctx (idle_shedder, ()) =
       (Panicked, c', sh', w') \<and> as_flying sh' = 1"
proof -
  let ?next = "\<lambda>c (sh :: AdaptiveShedder, w :: unit). (Panicked, c :: gin_ctx, sh, w)"
  obtain r c' sh' w' where run: "AdaptiveShedding calm_env 0 0 0 ?next sample_ctx (idle_shedder, ()) = (r, c', sh', w')"
    by (metis prod_cases4)
  have "\<not> as_droppedRecently idle_shedder" "as_cpuMetrics idle_shedder = []" "as_lastCPUCheck idle_shedder = 0"
    by (simp_all add: idle_shedder_def NewAdaptiveShedder_def default_settings_def newRollingCounter_def go_simps
      Second_def Let_def discoverCPUMetrics_def go_div_def)
  then have "r = Panicked"
    using run by (auto simp: AdaptiveShedding_def shedder_Allow_def shouldDrop_def systemOverloaded_def currentCPU_def
        calm_env_def readCPUSeconds_def Let_def idle_shedder_def NewAdaptiveShedder_def default_settings_def newRollingCounter_def go_simps
      Second_def discoverCPUMetrics_def go_div_def)
  moreover have "shedder_inv sh' \<and> as_flying sh' = as_flying idle_shedder + (if r = Panicked then 1 else 0)"
    using shedding_leaks_on_panic[OF conjunct1[OF idle_shedder_facts] _ run] by auto
  ultimately show ?thesis using run idle_shedder_facts by auto
qed

text \<open>The check for internal addresses is exact on IPv4: an address is internal when it lies in 10.0.0.0/8,
  172.16.0.0/12, 192.168.0.0/16, 100.64.0.0/10 or 127.0.0.0/8. A valid IPv6 address written without dots, such as the
  loopback address, makes the check panic.\<close>

theorem inner_ip_ranges:
  "(a < 256 \<and> b < 256 \<and> c < 256 \<and> d < 256 \<longrightarrow>
      IsInnerIp ipv6 (dotted a b c d) = Some (a = 10 \<or> a = 172 \<and> 16 \<le> b \<and> b \<le> 31 \<or> a = 192 \<and> b = 168 \<or>
        a = 100 \<and> 64 \<le> b \<and> b \<le> 127 \<or> a = 127)) \<and>
   (CheckIp ipv6 s \<and> CHR ''.'' \<notin> set s \<longrightarrow> IsInnerIp ipv6 s = None)"
proof -
  have texts: "''10.255.255.255'' = dotted 10 255 255 255" "''172.16.255.255'' = dotted 172 16 255 255"
    "''192.168.255.255'' = dotted 192 168 255 255" "''100.64.255.255'' = dotted 100 64 255 255"
    "''127.255.255.255'' = dotted 127 255 255 255"
    by code_simp+
  have nets: "NetAToN ''10.255.255.255'' = Some 184549375" "NetAToN ''172.16.255.255'' = Some 2886795263"
    "NetAToN ''192.168.255.255'' = Some 3232301055" "NetAToN ''100.64.255.255'' = Some 1681981439"
    "NetAToN ''127.255.255.255'' = Some 2147483647"
    unfolding texts by (simp_all add: NetAToN_dotted)
  have ranges: "IsInnerIp ipv6 (dotted a b c d) = Some (a = 10 \<or> a = 172 \<and> 16 \<le> b \<and> b \<le> 31 \<or> a = 192 \<and> b = 168 \<or>
        a = 100 \<and> 64 \<le> b \<and> b \<le> 127 \<or> a = 127)" if v: "a < 256" "b < 256" "c < 256" "d < 256"
  proof -
    let ?n = "int a * 2 ^ 24 + int b * 2 ^ 16 + int c * 2 ^ 8 + int d"
    have i: "IsInnerIp ipv6 (dotted a b c d) =
        Some (?n div 2 ^ 24 = 10 \<or> ?n div 2 ^ 20 = 2753 \<or> ?n div 2 ^ 16 = 49320 \<or> ?n div 2 ^ 22 = 401 \<or> ?n div 2 ^ 24 = 127)"
      using v by (simp add: IsInnerIp_def CheckIp_dotted NetAToN_dotted nets)
    let ?x = "int b * 65536 + int c * 256 + int d"
    have n: "?n = int a * 16777216 + ?x" and x: "0 \<le> ?x" "?x < 16777216" using v by auto
    have "?n div 2 ^ 24 = 10 \<longleftrightarrow> a = 10" "?n div 2 ^ 24 = 127 \<longleftrightarrow> a = 127"
      unfolding div_range using v by auto
    moreover have "?n div 2 ^ 20 = 2753 \<longleftrightarrow> a = 172 \<and> 16 \<le> b \<and> b \<le> 31"
      unfolding div_range n using octet_range[OF x, of 172 "2753 * 1048576" "2753 * 1048576 + 1048576" "int a"] v by auto
    moreover have "?n div 2 ^ 16 = 49320 \<longleftrightarrow> a = 192 \<and> b = 168"
      unfolding div_range n using octet_range[OF x, of 192 "49320 * 65536" "49320 * 65536 + 65536" "int a"] v by auto
    moreover have "?n div 2 ^ 22 = 401 \<longleftrightarrow> a = 100 \<and> 64 \<le> b \<and> b \<le> 127"
      unfolding div_range n using octet_range[OF x, of 100 "401 * 4194304" "401 * 4194304 + 4194304" "int a"] v by auto
    ultimately show ?thesis using i by auto
  qed
  moreover have "IsInnerIp ipv6 s = None" if "CheckIp ipv6 s" "CHR ''.'' \<notin> set s"
    using that by (simp add: IsInnerIp_def NetAToN_def go_split_char_absent)
  ultimately show ?thesis by blast
qed


theorem inner_ip_ranges_witness:
  "IsInnerIp (\<lambda>s. s = ''::1'') (dotted 172 31 0 9) = Some True \<and> IsInnerIp (\<lambda>s. s = ''::1'') (dotted 172 32 0 9) = Some False \<and>
   IsInnerIp (\<lambda>s. s = ''::1'') ''::1'' = None"
proof -
  have "CheckIp (\<lambda>s. s = ''::1'') ''::1''" by (simp add: CheckIp_def)
  then show ?thesis
    using inner_ip_ranges[of 172 31 0 9 "\<lambda>s. s = ''::1''" "''::1''"] inner_ip_ranges[of 172 32 0 9 "\<lambda>s. s = ''::1''" "''::1''"] by simp
qed

text \<open>Who may pass \<open>Access\<close>: the holder of a token that decodes and is the one stored for its user, or, without a token,
  a caller with an internal address.\<close>

definition token_holder :: "'w access_env \<Rightarrow> string \<Rightarrow> 'w \<Rightarrow> bool" where
  "token_holder env jwtStr w \<longleftrightarrow>
     (\<exists>app w1 ver w2 obj uid tok getKey w3.
        ae_GetAppName env w = (Returned app, w1) \<and> ae_GetAppVersion env w1 = (Returned ver, w2) \<and>
        ae_JWTDecrypt env jwtStr (app @ ''-'' @ ver) = Some obj \<and>
        obj ''id'' = Some (ClaimStr uid) \<and> obj ''token'' = Some (ClaimStr tok) \<and>
        ae_GetRedisDb env w2 = (Returned (Some getKey), w3) \<and> fst (getKey (app @ '':user:token:'' @ uid) w3) = Some tok)"

definition authorized :: "(string \<Rightarrow> bool) \<Rightarrow> 'w access_env \<Rightarrow> gin_ctx \<Rightarrow> 'w \<Rightarrow> bool" where
  "authorized ipv6 env c w \<longleftrightarrow>
     (\<exists>w0. ae_initRedisClient env w = (Returned (), w0) \<and>
        (if gc_header c ''jwt'' = '''' then IsInnerIp ipv6 (gc_ClientIP c) = Some True
         else token_holder env (gc_header c ''jwt'') w0))"

lemma token_check_holder: "fst (token_check env jwtStr w) = Returned (Inr ()) \<longleftrightarrow> token_holder env jwtStr w"
  by (auto simp: token_check_def token_holder_def split: prod.splits outcome.splits option.splits claim.splits if_splits)

lemma Access_shape:
  "(authorized ipv6 env c w \<longrightarrow> (\<exists>w'. \<forall>next. Access ipv6 env next c w = next c w')) \<and>
   (\<not> authorized ipv6 env c w \<longrightarrow>
      (\<exists>r c' w'. (\<forall>next. Access ipv6 env next c w = (r, c', w')) \<and> (r = Panicked \<or> gc_aborted c' \<and> gc_status c' = 401)))"
proof -
  obtain r0 w0 where i: "ae_initRedisClient env w = (r0, w0)" by fastforce
  obtain r1 w1 where t: "token_check env (gc_header c ''jwt'') w0 = (r1, w1)" by fastforce
  have h: "r1 = Returned (Inr ()) \<longleftrightarrow> token_holder env (gc_header c ''jwt'') w0"
    using token_check_holder[of env "gc_header c ''jwt''" w0] t by simp
  show ?thesis
  proof (cases r0)
    case (Returned u)
    consider "r1 = Panicked" | msg where "r1 = Returned (Inl msg)" | "r1 = Returned (Inr ())"
    proof (cases r1)
      case (Returned s)
      then show ?thesis using that by (cases s) auto
    qed (use that in auto)
    then show ?thesis using Returned i t h unfolding Access_def authorized_def refuse_def AbortWithStatusJSON_def
      by cases (cases "IsInnerIp ipv6 (gc_ClientIP c)"; auto)+
  qed (use i in \<open>simp add: Access_def authorized_def\<close>)
qed

text \<open>\<open>Access\<close> guards the handlers: a request of an authorized caller is passed on as it is, and any other one is
  answered 401 and aborted, or ends in a panic, without running them.\<close>

theorem access_guards:
  "(authorized ipv6 env c w \<longrightarrow> (\<exists>w'. \<forall>next. Access ipv6 env next c w = next c w')) \<and>
   (\<not> authorized ipv6 env c w \<longrightarrow>
      (\<exists>r c' w'. (\<forall>next. Access ipv6 env next c w = (r, c', w')) \<and> (r = Panicked \<or> gc_aborted c' \<and> gc_status c' = 401)))"
  by (rule Access_shape)

definition sample_access :: "nat access_env" where
  "sample_access = \<lparr>ae_initRedisClient = (\<lambda>w. (Returned (), w)), ae_GetAppName = (\<lambda>w. (Returned ''app'', w)),
     ae_GetAppVersion = (\<lambda>w. (Returned ''1'', w)),
     ae_JWTDecrypt = (\<lambda>j k. Some [''id'' \<mapsto> ClaimStr ''7'', ''token'' \<mapsto> ClaimStr ''old'']),
     ae_GetRedisDb = (\<lambda>w. (Returned (Some (\<lambda>k w. (Some ''new'', w))), w))\<rparr>"

theorem access_guards_witness:
  "\<exists>c'. Access (\<lambda>_. False) sample_access (\<lambda>c w. (Returned (), c, w + 1)) (sample_ctx\<lparr>gc_header := (\<lambda>_. ''j'')\<rparr>) (0 :: nat) =
     (Returned (), c', 0) \<and> gc_aborted c' \<and> gc_status c' = 401"
proof -
  let ?c = "sample_ctx\<lparr>gc_header := (\<lambda>_. ''j'')\<rparr>"
  have "\<not> authorized (\<lambda>_. False) sample_access ?c 0"
    by (simp add: authorized_def token_holder_def sample_ctx_def sample_access_def)
  with access_guards[of "\<lambda>_. False" sample_access ?c 0] obtain r c' w' where
    a: "Access (\<lambda>_. False) sample_access (\<lambda>c w. (Returned (), c, w + 1)) ?c 0 = (r, c', w')"
    "r = Panicked \<or> gc_aborted c' \<and> gc_status c' = 401" by blast
  moreover have "r = Returned () \<and> w' = 0" using a(1) by (auto simp: Access_def token_check_def sample_ctx_def sample_access_def)
  ultimately show ?thesis by auto
qed

text \<open>A path keeps the breaker it was first given: the configuration of a later middleware on it is ignored.\<close>

lemma first_config_wins:
  assumes "getHttpBreaker t p hb = Some (a, hb')"
  shows "getHttpBreakerWithConfig t' p config hb' = Some (a, hb')"
  using assms by (auto simp: getHttpBreaker_def getHttpBreakerWithConfig_def get_or_create_def split: option.splits)

text \<open>The number of requests in flight in the metrics leaks with every panic in the same way as the shedder's.\<close>

lemma metrics_leak_on_panic:
  assumes "\<And>hm. next c (hm, w) = (Panicked, c', hm, w')"
  shows "Metrics t1 t2 next c (hm, w) = (Panicked, c', hm\<lparr>hm_inFlight := hm_inFlight hm + 1\<rparr>, w')"
  by (simp add: Metrics_def assms)

text \<open>The language is always a supported one.\<close>

lemma choose_lang_supported: "choose_lang parse c \<in> set supported_langs"
  by (simp add: choose_lang_def Let_def supported_langs_def)

lemma request_class_result: "requestResultByStatus st = ''fail'' \<Longrightarrow> requestStatusClass st \<in> {''4xx'', ''5xx'', ''unknown''}"
  by (auto simp: requestResultByStatus_def requestStatusClass_def split: if_splits)

text \<open>\<open>PerformHTTPRequest\<close> stops at the first 200 and tries at most the given number of times.\<close>

fun nth_state :: "('w \<Rightarrow> (string + int) \<times> 'w) \<Rightarrow> nat \<Rightarrow> 'w \<Rightarrow> 'w" where
  "nth_state attempt 0 w = w"
| "nth_state attempt (Suc n) w = nth_state attempt n (snd (attempt w))"

lemma request_loop_attempts:
  "\<exists>k \<le> n. snd (request_loop attempt n err st w) = nth_state attempt k w \<and>
     (fst (request_loop attempt n err st w) = Inr 200 \<or> k = n \<and> (\<nexists>s. fst (request_loop attempt n err st w) = Inr s))"
proof (induction n arbitrary: err st w)
  case (Suc n)
  obtain r w1 where a: "attempt w = (r, w1)" by fastforce
  show ?case
  proof (cases "r = Inr 200")
    case True
    with a show ?thesis by (intro exI[of _ 1]) simp
  next
    case False
    then obtain e s where l: "request_loop attempt (Suc n) err st w = request_loop attempt n e s w1"
      using a by (cases r) auto
    obtain k where "k \<le> n" "snd (request_loop attempt n e s w1) = nth_state attempt k w1"
      "fst (request_loop attempt n e s w1) = Inr 200 \<or> k = n \<and> (\<nexists>x. fst (request_loop attempt n e s w1) = Inr x)"
      using Suc.IH by blast
    then show ?thesis using l a by (intro exI[of _ "Suc k"]) simp
  qed
qed simp

end
