(* ===== verification/Token_Crypto.thy ===== *)
theory Token_Crypto
  imports Http_Middleware
begin

section \<open>Tokens and encryption\<close>

text \<open>
  Models the package \<open>jwt\<close> and \<open>utils/security.go\<close>. Byte strings are strings. SHA-256, AES-GCM, HMAC and the JWT library
  are arguments, with the laws the code relies on as hypotheses of the properties; the base64 and hexadecimal codings
  between them are written out. Random bytes are arguments; \<^term>\<open>None\<close> is an error of the random source.
\<close>

subsection \<open>Base64 and hexadecimal\<close>

definition b64_alphabet :: string where
  "b64_alphabet = ''ABCDEFGHIJKLMNOPQRSTUVWXYZabcdefghijklmnopqrstuvwxyz0123456789+/''"

definition sextet :: "nat \<Rightarrow> nat \<Rightarrow> char" where
  "sextet v k = b64_alphabet ! (v div 64 ^ k mod 64)"

abbreviation byte_val :: "char \<Rightarrow> nat" where "byte_val c \<equiv> of_char c"

definition group3 :: "char \<Rightarrow> char \<Rightarrow> char \<Rightarrow> nat" where
  "group3 a b c = byte_val a * 65536 + byte_val b * 256 + byte_val c"

fun EncodeToString :: "string \<Rightarrow> string" where
  "EncodeToString [] = []"
| "EncodeToString [a] = (let v = group3 a (char_of (0::nat)) (char_of (0::nat)) in [sextet v 3, sextet v 2, CHR ''='', CHR ''=''])"
| "EncodeToString [a, b] = (let v = group3 a b (char_of (0::nat)) in [sextet v 3, sextet v 2, sextet v 1, CHR ''=''])"
| "EncodeToString (a # b # c # rest) = (let v = group3 a b c in [sextet v 3, sextet v 2, sextet v 1, sextet v 0] @ EncodeToString rest)"

definition b64_index :: "char \<Rightarrow> nat option" where
  "b64_index c = (case filter (\<lambda>i. b64_alphabet ! i = c) [0..<64] of [] \<Rightarrow> None | i # _ \<Rightarrow> Some i)"

definition b64_quad :: "char \<Rightarrow> char \<Rightarrow> char \<Rightarrow> char \<Rightarrow> nat option" where
  "b64_quad a b c d = do { i \<leftarrow> b64_index a; j \<leftarrow> b64_index b; k \<leftarrow> b64_index c; l \<leftarrow> b64_index d;
     Some (((i * 64 + j) * 64 + k) * 64 + l) }"

text \<open>The decoder works in groups of four; padding is allowed in the last group only.\<close>

fun b64_groups :: "string \<Rightarrow> string option" where
  "b64_groups [] = Some []"
| "b64_groups (a # b # c # d # rest) =
     (if c = CHR ''='' then
        (if d = CHR ''='' \<and> rest = [] then map_option (\<lambda>n. [char_of (n div 65536)]) (b64_quad a b CHR ''A'' CHR ''A'') else None)
      else if d = CHR ''='' then
        (if rest = [] then map_option (\<lambda>n. [char_of (n div 65536), char_of (n div 256)]) (b64_quad a b c CHR ''A'') else None)
      else do { n \<leftarrow> b64_quad a b c d; r \<leftarrow> b64_groups rest; Some ([char_of (n div 65536), char_of (n div 256), char_of n] @ r) })"
| "b64_groups _ = None"

text \<open>Line breaks are skipped.\<close>

definition DecodeString :: "string \<Rightarrow> string option" where
  "DecodeString s = b64_groups (filter (\<lambda>c. c \<noteq> CHR 0x0A \<and> c \<noteq> CHR 0x0D) s)"

definition hex_digit :: "nat \<Rightarrow> char" where "hex_digit d = ''0123456789abcdef'' ! d"

definition hex_string :: "string \<Rightarrow> string" where
  "hex_string s = concat (map (\<lambda>c. [hex_digit (byte_val c div 16), hex_digit (byte_val c mod 16)]) s)"

subsection \<open>Signatures\<close>

text \<open>\<open>mac secret message\<close> is HMAC-SHA256.\<close>

definition GenerateHMAC :: "(string \<Rightarrow> string \<Rightarrow> string) \<Rightarrow> string \<Rightarrow> string \<Rightarrow> string" where
  "GenerateHMAC mac message secret = hex_string (mac secret message)"

definition VerifyHMAC :: "(string \<Rightarrow> string \<Rightarrow> string) \<Rightarrow> string \<Rightarrow> string \<Rightarrow> string \<Rightarrow> bool" where
  "VerifyHMAC mac message secret sign = (let expectedSign = hex_string (mac secret message) in expectedSign = sign)"

subsection \<open>Encryption with a password\<close>

record gcm =
  gcm_NonceSize :: nat
  gcm_Seal :: "string \<Rightarrow> string \<Rightarrow> string"
  gcm_Open :: "string \<Rightarrow> string \<Rightarrow> string option"

text \<open>The primitives: SHA-256, and AES-GCM for a key (an error for a key of the wrong length).\<close>

record crypto =
  cr_sha256 :: "string \<Rightarrow> string"
  cr_gcm :: "string \<Rightarrow> string + gcm"

definition getDerivedKey :: "crypto \<Rightarrow> string \<Rightarrow> string \<Rightarrow> int \<Rightarrow> string" where
  "getDerivedKey cr password salt n = (cr_sha256 cr ^^ nat (n - 1)) (cr_sha256 cr (password @ salt))"

definition Encrypt :: "crypto \<Rightarrow> (string + string) \<Rightarrow> (nat \<Rightarrow> string + string) \<Rightarrow> string \<Rightarrow> int \<Rightarrow> string \<Rightarrow> string + string" where
  "Encrypt cr rand_salt rand_nonce password iterations plainText =
     (case rand_salt of
        Inl err \<Rightarrow> Inl err
      | Inr salt \<Rightarrow>
          (case cr_gcm cr (getDerivedKey cr password salt iterations) of
             Inl err \<Rightarrow> Inl err
           | Inr g \<Rightarrow>
               (case rand_nonce (gcm_NonceSize g) of
                  Inl err \<Rightarrow> Inl err
                | Inr nonce \<Rightarrow> Inr (EncodeToString (salt @ nonce @ gcm_Seal g nonce plainText)))))"

definition open_sealed :: "gcm \<Rightarrow> string \<Rightarrow> string + string" where
  "open_sealed g data =
     (if length data < gcm_NonceSize g then Inl ''ciphertext too short''
      else case gcm_Open g (take (gcm_NonceSize g) data) (drop (gcm_NonceSize g) data) of
             None \<Rightarrow> Inl ''message authentication failed'' | Some plain \<Rightarrow> Inr plain)"

definition Decrypt :: "crypto \<Rightarrow> string \<Rightarrow> int \<Rightarrow> string \<Rightarrow> string + string" where
  "Decrypt cr password iterations cipherText =
     (case DecodeString cipherText of
        None \<Rightarrow> Inl ''illegal base64 data''
      | Some data \<Rightarrow>
          if length data < 16 then Inl ''ciphertext too short''
          else case cr_gcm cr (getDerivedKey cr password (take 16 data) iterations) of
                 Inl err \<Rightarrow> Inl err
               | Inr g \<Rightarrow> open_sealed g (drop 16 data))"

text \<open>\<open>copy\<close> into a slice of 16 zero bytes.\<close>

definition fixed_salt :: "string \<Rightarrow> string" where
  "fixed_salt s = take 16 s @ replicate (16 - length s) (char_of (0::nat))"

definition EncryptWithFixedSalt :: "crypto \<Rightarrow> (nat \<Rightarrow> string + string) \<Rightarrow> string \<Rightarrow> int \<Rightarrow> string \<Rightarrow> string \<Rightarrow> string + string" where
  "EncryptWithFixedSalt cr rand_nonce password iterations plainText salt =
     (case cr_gcm cr (getDerivedKey cr password (fixed_salt salt) iterations) of
        Inl err \<Rightarrow> Inl err
      | Inr g \<Rightarrow>
          (case rand_nonce (gcm_NonceSize g) of
             Inl err \<Rightarrow> Inl err
           | Inr nonce \<Rightarrow> Inr (EncodeToString (nonce @ gcm_Seal g nonce plainText))))"

definition DecryptWithFixedSalt :: "crypto \<Rightarrow> string \<Rightarrow> int \<Rightarrow> string \<Rightarrow> string \<Rightarrow> string + string" where
  "DecryptWithFixedSalt cr password iterations cipherText salt =
     (case DecodeString cipherText of
        None \<Rightarrow> Inl ''illegal base64 data''
      | Some data \<Rightarrow>
          (case cr_gcm cr (getDerivedKey cr password (fixed_salt salt) iterations) of
             Inl err \<Rightarrow> Inl err
           | Inr g \<Rightarrow> open_sealed g data))"

subsection \<open>Random strings\<close>

definition gen_alphabet :: string where
  "gen_alphabet = ''abcdefghijklmnopqrstuvwxyzABCDEFGHIJKLMNOPQRSTUVWXYZ1234567890''"

text \<open>\<open>draw\<close> is \<open>rand.Int\<close> below the length of the alphabet; its error is dropped, and the nil number it leaves panics.\<close>

fun gen_loop :: "(nat \<Rightarrow> 'g \<Rightarrow> nat option \<times> 'g) \<Rightarrow> nat \<Rightarrow> string \<Rightarrow> 'g \<Rightarrow> string outcome \<times> 'g" where
  "gen_loop draw 0 container g = (Returned container, g)"
| "gen_loop draw (Suc n) container g =
     (case draw (length gen_alphabet) g of
        (None, g) \<Rightarrow> (Panicked, g)
      | (Some i, g) \<Rightarrow> gen_loop draw n (container @ [gen_alphabet ! i]) g)"

definition jwt_GenString :: "(nat \<Rightarrow> 'g \<Rightarrow> nat option \<times> 'g) \<Rightarrow> int \<Rightarrow> 'g \<Rightarrow> string outcome \<times> 'g" where
  "jwt_GenString draw len g = gen_loop draw (nat len) '''' g"

subsection \<open>JSON web tokens\<close>

datatype signing_method = SigningMethodHMAC | OtherMethod string

record MyCustomClaims =
  mc_ID :: string
  mc_Token :: string
  mc_ExpiresAt :: go_time
  mc_Issuer :: string

text \<open>The library: \<open>jl_sign\<close> is \<open>SignedString\<close> with HS256 (\<^term>\<open>None\<close>: an error); \<open>jl_parse\<close> is \<open>Parse\<close> at a point in time with a key
  function, which sees the method of the token; it answers the claims (if they are a map) and whether the token is valid.\<close>

record jwt_lib =
  jl_sign :: "MyCustomClaims \<Rightarrow> string \<Rightarrow> string option"
  jl_parse :: "go_time \<Rightarrow> string \<Rightarrow> (signing_method \<Rightarrow> string option) \<Rightarrow> ((string \<rightharpoonup> claim) option \<times> bool) option"

definition jwt_keyfunc :: "string \<Rightarrow> signing_method \<Rightarrow> string option" where
  "jwt_keyfunc secret m = (case m of SigningMethodHMAC \<Rightarrow> Some secret | OtherMethod _ \<Rightarrow> None)"

definition JWTDecrypt :: "jwt_lib \<Rightarrow> go_time \<Rightarrow> string \<Rightarrow> string \<Rightarrow> (string \<rightharpoonup> claim) option" where
  "JWTDecrypt lib now tokenString secret =
     (case jl_parse lib now tokenString (jwt_keyfunc secret) of
        None \<Rightarrow> None
      | Some (Some claims, True) \<Rightarrow> Some claims
      | Some _ \<Rightarrow> None)"

text \<open>\<open>jwt.NewNumericDate\<close> cuts to whole seconds.\<close>

definition NewNumericDate :: "go_time \<Rightarrow> go_time" where "NewNumericDate t = t - t mod Second"

definition JWTEncryptWithExpiry :: "jwt_lib \<Rightarrow> go_time \<Rightarrow> string \<Rightarrow> string \<Rightarrow> string \<Rightarrow> duration \<Rightarrow> string" where
  "JWTEncryptWithExpiry lib now uid myToken secret expiry =
     (let claims = \<lparr>mc_ID = uid, mc_Token = myToken, mc_ExpiresAt = NewNumericDate (now + expiry), mc_Issuer = ''admin''\<rparr>
      in case jl_sign lib claims secret of None \<Rightarrow> '''' | Some jwtStr \<Rightarrow> jwtStr)"

definition JWTEncrypt :: "jwt_lib \<Rightarrow> go_time \<Rightarrow> string \<Rightarrow> string \<Rightarrow> string \<Rightarrow> string" where
  "JWTEncrypt lib now uid myToken secret = JWTEncryptWithExpiry lib now uid myToken secret (24 * 3600 * Second)"

section \<open>Lemmas\<close>

subsection \<open>Base64\<close>

lemma b64_alphabet_facts: "i < 64 \<Longrightarrow> b64_index (b64_alphabet ! i) = Some i \<and> b64_alphabet ! i \<notin> {CHR ''='', CHR 0x0A, CHR 0x0D}"
proof -
  have "list_all (\<lambda>i. b64_index (b64_alphabet ! i) = Some i \<and> b64_alphabet ! i \<notin> {CHR ''='', CHR 0x0A, CHR 0x0D}) [0..<64]"
    by code_simp
  then show "i < 64 \<Longrightarrow> ?thesis" by (simp add: list_all_iff)
qed

lemma sextet_facts: "b64_index (sextet v k) = Some (v div 64 ^ k mod 64) \<and> sextet v k \<notin> {CHR ''='', CHR 0x0A, CHR 0x0D}"
  unfolding sextet_def by (rule b64_alphabet_facts) simp

lemma b64_index_A: "b64_index CHR ''A'' = Some 0"
  using b64_alphabet_facts[of 0] by (simp add: b64_alphabet_def)

lemma byte_val_less: "byte_val x < 256"
  by (metis mod_less_divisor of_char_mod_256 zero_less_numeral)

lemma quad_value:
  assumes "v < 16777216"
  shows "((v div 64 ^ 3 mod 64 * 64 + v div 64 ^ 2 mod 64) * 64 + v div 64 ^ 1 mod 64) * 64 + v div 64 ^ 0 mod 64 = (v::nat)"
proof -
  have 1: "v div 64 ^ 2 = v div 64 div 64" by (simp add: div_mult2_eq[symmetric])
  have 2: "v div 64 ^ 3 = v div 64 div 64 div 64" by (simp add: div_mult2_eq[symmetric])
  have "v div 64 div 64 div 64 < 64" using assms by (simp add: div_mult2_eq[symmetric] less_mult_imp_div_less)
  then have "v div 64 div 64 div 64 mod 64 = v div 64 div 64 div 64" by simp
  then show ?thesis unfolding 1 2 by (simp only: div_mult_mod_eq power_0 power_one_right div_by_1)
qed

lemma group3_less: "group3 a b c < 16777216"
  using byte_val_less[of a] byte_val_less[of b] byte_val_less[of c] unfolding group3_def by linarith

lemma b64_quad_group: "b64_quad (sextet (group3 a b c) 3) (sextet (group3 a b c) 2) (sextet (group3 a b c) 1) (sextet (group3 a b c) 0) = Some (group3 a b c)"
  unfolding b64_quad_def sextet_facts[THEN conjunct1] bind.bind_lunit quad_value[OF group3_less[of a b c]] ..

lemma group3_bytes:
  "char_of (group3 a b c div 65536) = a" "char_of (group3 a b c div 256) = b" "char_of (group3 a b c) = c"
proof -
  note l = byte_val_less
  have "byte_val b * 256 + byte_val c < 65536" using l[of b] l[of c] by linarith
  then have "group3 a b c div 65536 = byte_val a" unfolding group3_def by (intro div_nat_eqI) simp_all
  then show "char_of (group3 a b c div 65536) = a" by simp
  have "group3 a b c div 256 = byte_val a * 256 + byte_val b" using l[of c] unfolding group3_def by (intro div_nat_eqI) (simp_all add: algebra_simps)
  then have "group3 a b c div 256 mod 256 = byte_val b" by simp
  then show "char_of (group3 a b c div 256) = b" by (metis char_of_mod_256 char_of_char)
  have "group3 a b c = byte_val c + (byte_val a * 256 + byte_val b) * 256" by (simp add: group3_def)
  then have "group3 a b c mod 256 = byte_val c" by (simp only: mod_mult_self1 of_char_mod_256)
  then show "char_of (group3 a b c) = c" by (metis char_of_mod_256 char_of_char)
qed


lemma quad_padded:
  "b64_quad (sextet (group3 a (char_of (0::nat)) (char_of (0::nat))) 3) (sextet (group3 a (char_of (0::nat)) (char_of (0::nat))) 2) CHR ''A'' CHR ''A''
     = Some (group3 a (char_of (0::nat)) (char_of (0::nat)))"
  "b64_quad (sextet (group3 a b (char_of (0::nat))) 3) (sextet (group3 a b (char_of (0::nat))) 2) (sextet (group3 a b (char_of (0::nat))) 1) CHR ''A''
     = Some (group3 a b (char_of (0::nat)))"
proof -
  have zero: "of_char (char_of (0::nat)) = (0::nat)" by simp
  have "b64_index (sextet (group3 a (char_of (0::nat)) (char_of (0::nat))) 1) = b64_index CHR ''A''"
    "b64_index (sextet (group3 a (char_of (0::nat)) (char_of (0::nat))) 0) = b64_index CHR ''A''"
    unfolding sextet_facts[THEN conjunct1] b64_index_A group3_def zero by simp_all
  then show "b64_quad (sextet (group3 a (char_of (0::nat)) (char_of (0::nat))) 3) (sextet (group3 a (char_of (0::nat)) (char_of (0::nat))) 2) CHR ''A'' CHR ''A''
     = Some (group3 a (char_of (0::nat)) (char_of (0::nat)))"
    using b64_quad_group[of a "char_of (0::nat)" "char_of (0::nat)"] unfolding b64_quad_def by simp
  have "b64_index (sextet (group3 a b (char_of (0::nat))) 0) = b64_index CHR ''A''"
    unfolding sextet_facts[THEN conjunct1] b64_index_A group3_def zero by simp
  then show "b64_quad (sextet (group3 a b (char_of (0::nat))) 3) (sextet (group3 a b (char_of (0::nat))) 2) (sextet (group3 a b (char_of (0::nat))) 1) CHR ''A''
     = Some (group3 a b (char_of (0::nat)))"
    using b64_quad_group[of a b "char_of (0::nat)"] unfolding b64_quad_def by simp
qed

lemma sextet_not: "sextet v k \<noteq> CHR ''=''" "sextet v k \<noteq> CHR 0x0A" "sextet v k \<noteq> CHR 0x0D"
  using sextet_facts[of v k] by simp_all

lemma b64_groups_encode: "b64_groups (EncodeToString s) = Some s"
proof (induction s rule: EncodeToString.induct)
  case (2 a)
  show ?case using quad_padded(1)[of a] by (simp add: Let_def sextet_not group3_bytes)
next
  case (3 a b)
  show ?case using quad_padded(2)[of a b] by (simp add: Let_def sextet_not group3_bytes)
next
  case (4 a b c rest)
  then show ?case using b64_quad_group[of a b c] by (simp add: Let_def sextet_not group3_bytes)
qed simp

lemma encode_no_breaks: "filter (\<lambda>c. c \<noteq> CHR 0x0A \<and> c \<noteq> CHR 0x0D) (EncodeToString s) = EncodeToString s"
  by (induction s rule: EncodeToString.induct) (simp_all add: Let_def sextet_not)

lemma Decode_Encode [simp]: "DecodeString (EncodeToString s) = Some s"
  by (simp add: DecodeString_def encode_no_breaks b64_groups_encode)


subsection \<open>Encryption\<close>

text \<open>What the code relies on: a key of 32 bytes is accepted, what was sealed under a nonce is opened again under the same key
  and nonce, and a SHA-256 sum has 32 bytes.\<close>

definition crypto_laws :: "crypto \<Rightarrow> bool" where
  "crypto_laws cr \<longleftrightarrow>
     (\<forall>x. length (cr_sha256 cr x) = 32) \<and>
     (\<forall>key. length key = 32 \<longrightarrow> (\<exists>g. cr_gcm cr key = Inr g)) \<and>
     (\<forall>key g nonce p. cr_gcm cr key = Inr g \<longrightarrow> length nonce = gcm_NonceSize g \<longrightarrow> gcm_Open g nonce (gcm_Seal g nonce p) = Some p)"

lemma derived_key_length: "crypto_laws cr \<Longrightarrow> length (getDerivedKey cr password salt n) = 32"
  unfolding getDerivedKey_def crypto_laws_def by (cases "nat (n - 1)") simp_all

lemma derived_gcm:
  assumes "crypto_laws cr"
  shows "\<exists>g. cr_gcm cr (getDerivedKey cr password salt n) = Inr g \<and>
    (\<forall>nonce p. length nonce = gcm_NonceSize g \<longrightarrow> open_sealed g (nonce @ gcm_Seal g nonce p) = Inr p)"
proof -
  obtain g where g: "cr_gcm cr (getDerivedKey cr password salt n) = Inr g"
    using derived_key_length[OF assms] assms unfolding crypto_laws_def by blast
  moreover have "open_sealed g (nonce @ gcm_Seal g nonce p) = Inr p" if "length nonce = gcm_NonceSize g" for nonce p
  proof -
    have "gcm_Open g nonce (gcm_Seal g nonce p) = Some p" using assms g that unfolding crypto_laws_def by blast
    then show ?thesis using that by (simp add: open_sealed_def)
  qed
  ultimately show ?thesis by blast
qed

lemma gen_loop_shape:
  assumes "\<forall>n g i g'. draw n g = (Some i, g') \<longrightarrow> i < n" "gen_loop draw n container g = (Returned s, g')"
  shows "\<exists>t. s = container @ t \<and> length t = n \<and> set t \<subseteq> set gen_alphabet"
  using assms(2)
proof (induction n arbitrary: container g)
  case (Suc n)
  obtain i g1 where d: "draw (length gen_alphabet) g = (Some i, g1)" "gen_loop draw n (container @ [gen_alphabet ! i]) g1 = (Returned s, g')"
    using Suc.prems by (auto split: prod.splits option.splits)
  have i: "gen_alphabet ! i \<in> set gen_alphabet" using d(1) assms(1) by (intro nth_mem) blast
  obtain t where "s = (container @ [gen_alphabet ! i]) @ t" "length t = n" "set t \<subseteq> set gen_alphabet" using Suc.IH[OF d(2)] by blast
  with i show ?case by (intro exI[of _ "gen_alphabet ! i # t"]) simp
qed simp

text \<open>A random string has the asked length and letters and digits only; a signature is accepted iff it is the generated one.\<close>

lemma jwt_GenString_shape:
  assumes "\<forall>n g i g'. draw n g = (Some i, g') \<longrightarrow> i < n" "jwt_GenString draw len g = (Returned s, g')"
  shows "length s = nat len \<and> set s \<subseteq> set gen_alphabet"
  using gen_loop_shape[OF assms(1), of "nat len" "''''" g s g'] assms(2) by (simp add: jwt_GenString_def)

lemma VerifyHMAC_iff: "VerifyHMAC mac message secret sign \<longleftrightarrow> sign = GenerateHMAC mac message secret"
  by (auto simp: VerifyHMAC_def GenerateHMAC_def)

section \<open>Properties\<close>

text \<open>C34: what Encrypt writes Decrypt reads back with the same password and number of rounds, for every salt of 16 bytes and
  every nonce, through the base64 text; the same holds for the variant with a fixed salt, of which only the first 16
  bytes count. A number of rounds below two is one round.\<close>

theorem encryption_roundtrip:
  assumes "crypto_laws cr" "length salt = 16" "\<forall>n. \<exists>nonce. rand_nonce n = Inr nonce \<and> length nonce = n"
  shows "(\<exists>t. Encrypt cr (Inr salt) rand_nonce password iterations plain = Inr t \<and> Decrypt cr password iterations t = Inr plain) \<and>
         (take 16 s1 = take 16 s2 \<longrightarrow>
           (\<exists>t. EncryptWithFixedSalt cr rand_nonce password iterations plain s1 = Inr t \<and>
                DecryptWithFixedSalt cr password iterations t s2 = Inr plain)) \<and>
         (iterations \<le> 1 \<longrightarrow> getDerivedKey cr password salt iterations = getDerivedKey cr password salt 1)"
proof (intro conjI impI)
  obtain g where g: "cr_gcm cr (getDerivedKey cr password salt iterations) = Inr g"
    "\<forall>nonce p. length nonce = gcm_NonceSize g \<longrightarrow> open_sealed g (nonce @ gcm_Seal g nonce p) = Inr p"
    using derived_gcm[OF assms(1)] by blast
  obtain nonce where n: "rand_nonce (gcm_NonceSize g) = Inr nonce" "length nonce = gcm_NonceSize g" using assms(3) by blast
  show "\<exists>t. Encrypt cr (Inr salt) rand_nonce password iterations plain = Inr t \<and> Decrypt cr password iterations t = Inr plain"
    using g n assms(2) by (simp add: Encrypt_def Decrypt_def)
  assume "take 16 s1 = take 16 s2"
  moreover from this have "16 - length s1 = 16 - length s2" by (metis length_take min_def diff_is_0_eq' nat_le_linear)
  ultimately have s: "fixed_salt s2 = fixed_salt s1" by (simp add: fixed_salt_def)
  obtain h where h: "cr_gcm cr (getDerivedKey cr password (fixed_salt s1) iterations) = Inr h"
    "\<forall>nonce p. length nonce = gcm_NonceSize h \<longrightarrow> open_sealed h (nonce @ gcm_Seal h nonce p) = Inr p"
    using derived_gcm[OF assms(1)] by blast
  obtain nonce' where n': "rand_nonce (gcm_NonceSize h) = Inr nonce'" "length nonce' = gcm_NonceSize h" using assms(3) by blast
  show "\<exists>t. EncryptWithFixedSalt cr rand_nonce password iterations plain s1 = Inr t \<and>
            DecryptWithFixedSalt cr password iterations t s2 = Inr plain"
    using h n' by (simp add: EncryptWithFixedSalt_def DecryptWithFixedSalt_def s)
qed (simp add: getDerivedKey_def)

definition toy_crypto :: crypto where
  "toy_crypto = \<lparr>cr_sha256 = (\<lambda>x. take 32 (x @ replicate 32 CHR ''k'')), cr_gcm = (\<lambda>key. Inr \<lparr>gcm_NonceSize = 12,
     gcm_Seal = (\<lambda>nonce p. key @ nonce @ p), gcm_Open = (\<lambda>nonce c. if take (length (key @ nonce)) c = key @ nonce
       then Some (drop (length (key @ nonce)) c) else None)\<rparr>)\<rparr>"

lemma toy_crypto_laws: "crypto_laws toy_crypto"
  by (auto simp: crypto_laws_def toy_crypto_def)

theorem encryption_roundtrip_witness:
  "\<exists>t. Encrypt toy_crypto (Inr ''0123456789abcdef'') (\<lambda>n. Inr (replicate n CHR ''n'')) ''pw'' 1000 ''hello'' = Inr t \<and>
       Decrypt toy_crypto ''pw'' 1000 t = Inr ''hello''"
  using encryption_roundtrip[OF toy_crypto_laws, of "''0123456789abcdef''" "\<lambda>n. Inr (replicate n CHR ''n'')" "''pw''" 1000 "''hello''"]
  by simp

text \<open>What the code relies on of the JWT library: signing succeeds, and a signed token is accepted under its key with its claims
  until it expires and refused from then on.\<close>

definition jwt_laws :: "jwt_lib \<Rightarrow> bool" where
  "jwt_laws lib \<longleftrightarrow>
     (\<forall>c key. \<exists>s. jl_sign lib c key = Some s \<and> s \<noteq> '''' \<and>
        (\<forall>now kf. kf SigningMethodHMAC = Some key \<longrightarrow>
          (if now < mc_ExpiresAt c
           then (\<exists>claims. jl_parse lib now s kf = Some (Some claims, True) \<and> claims ''id'' = Some (ClaimStr (mc_ID c)) \<and>
                   claims ''token'' = Some (ClaimStr (mc_Token c)))
           else jl_parse lib now s kf = None)))"

lemma JWT_roundtrip:
  assumes "jwt_laws lib"
  shows "JWTEncryptWithExpiry lib t0 uid tok secret expiry \<noteq> ''''"
    and "t1 < NewNumericDate (t0 + expiry) \<Longrightarrow>
      \<exists>claims. JWTDecrypt lib t1 (JWTEncryptWithExpiry lib t0 uid tok secret expiry) secret = Some claims \<and>
        claims ''id'' = Some (ClaimStr uid) \<and> claims ''token'' = Some (ClaimStr tok)"
    and "NewNumericDate (t0 + expiry) \<le> t1 \<Longrightarrow> JWTDecrypt lib t1 (JWTEncryptWithExpiry lib t0 uid tok secret expiry) secret = None"
proof -
  let ?c = "\<lparr>mc_ID = uid, mc_Token = tok, mc_ExpiresAt = NewNumericDate (t0 + expiry), mc_Issuer = ''admin''\<rparr>"
  obtain s where s: "jl_sign lib ?c secret = Some s" "s \<noteq> ''''"
    "\<forall>now kf. kf SigningMethodHMAC = Some secret \<longrightarrow>
       (if now < mc_ExpiresAt ?c
        then (\<exists>claims. jl_parse lib now s kf = Some (Some claims, True) \<and> claims ''id'' = Some (ClaimStr (mc_ID ?c)) \<and>
                claims ''token'' = Some (ClaimStr (mc_Token ?c)))
        else jl_parse lib now s kf = None)"
    using assms unfolding jwt_laws_def by blast
  have e: "JWTEncryptWithExpiry lib t0 uid tok secret expiry = s" using s(1) by (simp add: JWTEncryptWithExpiry_def)
  have k: "jwt_keyfunc secret SigningMethodHMAC = Some secret" by (simp add: jwt_keyfunc_def)
  note p = s(3)[rule_format, of "jwt_keyfunc secret" t1, OF k]
  show "JWTEncryptWithExpiry lib t0 uid tok secret expiry \<noteq> ''''" using e s(2) by simp
  show "t1 < NewNumericDate (t0 + expiry) \<Longrightarrow>
      \<exists>claims. JWTDecrypt lib t1 (JWTEncryptWithExpiry lib t0 uid tok secret expiry) secret = Some claims \<and>
        claims ''id'' = Some (ClaimStr uid) \<and> claims ''token'' = Some (ClaimStr tok)"
    using p by (auto simp: e JWTDecrypt_def)
  show "NewNumericDate (t0 + expiry) \<le> t1 \<Longrightarrow> JWTDecrypt lib t1 (JWTEncryptWithExpiry lib t0 uid tok secret expiry) secret = None"
    using p by (simp add: e JWTDecrypt_def)
qed

text \<open>a request with a token made by JWTEncryptWithExpiry under the secret of the application passes the access
  middleware before the expiry (cut to seconds) exactly when Redis holds the same token for its user; from the
  expiry on it is refused without asking Redis.\<close>

theorem issued_tokens_grant_access:
  assumes "jwt_laws lib" "gc_header c ''jwt'' = JWTEncryptWithExpiry lib t0 uid tok (app @ ''-'' @ ver) expiry"
    and "ae_initRedisClient env w = (Returned (), w0)" "ae_GetAppName env w0 = (Returned app, w1)"
    and "ae_GetAppVersion env w1 = (Returned ver, w2)" "ae_GetRedisDb env w2 = (Returned (Some getKey), w3)"
    and "getKey (app @ '':user:token:'' @ uid) w3 = (Some stored, w')" "ae_JWTDecrypt env = JWTDecrypt lib t1"
  shows "(t1 < NewNumericDate (t0 + expiry) \<longrightarrow>
            Access ipv6 env nxt c w =
              (if stored = tok then nxt c w' else (Returned (), refuse ''account is logged in elsewhere'' c, w'))) \<and>
         (NewNumericDate (t0 + expiry) \<le> t1 \<longrightarrow>
            Access ipv6 env nxt c w = (Returned (), refuse ''jwt parse error'' c, w2))"
proof (intro conjI impI)
  note rt = JWT_roundtrip[OF assms(1), where ?t0.0 = t0 and uid = uid and tok = tok and secret = "app @ ''-'' @ ver" and expiry = expiry]
  have j: "gc_header c ''jwt'' \<noteq> ''''" using assms(2) rt(1) by simp
  show "Access ipv6 env nxt c w =
      (if stored = tok then nxt c w' else (Returned (), refuse ''account is logged in elsewhere'' c, w'))"
    if t: "t1 < NewNumericDate (t0 + expiry)"
  proof -
    obtain claims where "JWTDecrypt lib t1 (gc_header c ''jwt'') (app @ ''-'' @ ver) = Some claims"
      "claims ''id'' = Some (ClaimStr uid)" "claims ''token'' = Some (ClaimStr tok)"
      using rt(2)[OF t] assms(2) by auto
    then show ?thesis using j assms(3-8) unfolding Access_def token_check_def by (simp add: Let_def)
  qed
  show "Access ipv6 env nxt c w = (Returned (), refuse ''jwt parse error'' c, w2)"
    if t: "NewNumericDate (t0 + expiry) \<le> t1"
    using rt(3)[OF t] assms(2-5,8) j unfolding Access_def token_check_def by (simp add: Let_def)
qed

text \<open>A library for the example: the token carries its claims in the open, each text behind its length in unary.\<close>

definition signed_value :: "string \<Rightarrow> int" where
  "signed_value s = (if s \<noteq> [] \<and> hd s = CHR ''-'' then - int (digits_value (tl s)) else int (digits_value s))"

definition toy_jwt :: jwt_lib where
  "toy_jwt = \<lparr>jl_sign = (\<lambda>c key. Some (itoa (mc_ExpiresAt c) @ CHR ''.'' # replicate (length (mc_ID c)) CHR ''x'' @ CHR ''.'' # mc_ID c @ mc_Token c)),
     jl_parse = (\<lambda>now s kf.
        let e = takeWhile (\<lambda>ch. ch \<noteq> CHR ''.'') s; r = tl (dropWhile (\<lambda>ch. ch \<noteq> CHR ''.'') s);
            n = length (takeWhile (\<lambda>ch. ch \<noteq> CHR ''.'') r); d = tl (dropWhile (\<lambda>ch. ch \<noteq> CHR ''.'') r)
        in if signed_value e \<le> now then None
           else Some (Some [''id'' \<mapsto> ClaimStr (take n d), ''token'' \<mapsto> ClaimStr (drop n d)], True))\<rparr>"

lemma signed_value_itoa: "signed_value (itoa n) = n"
proof (cases "n < 0")
  case False
  have "hd (nat_digits (nat n)) \<noteq> CHR ''-''" using nat_digits_no_minus[of "nat n"] nat_digits_nonempty[of "nat n"] by (metis list.set_sel(1))
  with False show ?thesis by (simp add: itoa_def signed_value_def)
qed (simp add: itoa_def signed_value_def)

lemma takeWhile_dot: "CHR ''.'' \<notin> set a \<Longrightarrow>
  takeWhile (\<lambda>ch. ch \<noteq> CHR ''.'') (a @ CHR ''.'' # b) = a \<and> dropWhile (\<lambda>ch. ch \<noteq> CHR ''.'') (a @ CHR ''.'' # b) = CHR ''.'' # b"
  by (induction a) auto

lemma toy_jwt_laws: "jwt_laws toy_jwt"
proof -
  have i: "CHR ''.'' \<notin> set (itoa n)" for n using itoa_chars[of "CHR ''.''" n] by (auto simp: is_digit_def)
  have "CHR ''.'' \<notin> set (replicate k CHR ''x'')" for k by simp
  note t = takeWhile_dot[OF i] takeWhile_dot[OF this]
  show ?thesis unfolding jwt_laws_def by (simp add: toy_jwt_def t signed_value_itoa Let_def)
qed

definition token_access :: "go_time \<Rightarrow> nat access_env" where
  "token_access now = \<lparr>ae_initRedisClient = (\<lambda>w. (Returned (), w)), ae_GetAppName = (\<lambda>w. (Returned ''app'', w)),
     ae_GetAppVersion = (\<lambda>w. (Returned ''1'', w)), ae_JWTDecrypt = JWTDecrypt toy_jwt now,
     ae_GetRedisDb = (\<lambda>w. (Returned (Some (\<lambda>k w. (Some ''tok'', Suc w))), w))\<rparr>"

theorem issued_tokens_grant_access_witness:
  "Access (\<lambda>_. False) (token_access 5) (\<lambda>c w. (Returned (), c, w))
     (sample_ctx\<lparr>gc_header := (\<lambda>_. JWTEncryptWithExpiry toy_jwt 0 ''u'' ''tok'' ''app-1'' Second)\<rparr>) 0 =
     (Returned (), sample_ctx\<lparr>gc_header := (\<lambda>_. JWTEncryptWithExpiry toy_jwt 0 ''u'' ''tok'' ''app-1'' Second)\<rparr>, Suc 0)"
proof -
  let ?c = "sample_ctx\<lparr>gc_header := (\<lambda>_. JWTEncryptWithExpiry toy_jwt 0 ''u'' ''tok'' ''app-1'' Second)\<rparr>"
  have h: "gc_header ?c ''jwt'' = JWTEncryptWithExpiry toy_jwt 0 ''u'' ''tok'' (''app'' @ ''-'' @ ''1'') Second" by simp
  show ?thesis
    using issued_tokens_grant_access[where env = "token_access 5" and ?t1.0 = 5 and w = 0 and ?w0.0 = 0 and ?w1.0 = 0 and ?w2.0 = 0
        and ?w3.0 = 0 and w' = "Suc 0" and getKey = "\<lambda>k w. (Some ''tok'', Suc w)" and stored = "''tok''" and ?ipv6.0 = "\<lambda>_. False"
        and nxt = "\<lambda>c w. (Returned (), c, w)", OF toy_jwt_laws h]
    by (simp add: NewNumericDate_def Second_def token_access_def)
qed

end
