(* ===== verification/App_Shell.thy ===== *)
theory App_Shell
  imports Once_Init "HOL-Library.Char_ord"
begin

section \<open>Configuration and service group\<close>

text \<open>
  Models \<open>conf/conf.go\<close> and the package \<open>service\<close>. The file reader viper is a parameter. A service is a pair of actions
  on an abstract state; an action may panic.
\<close>

subsection \<open>Configuration\<close>

definition resolveConfigPath :: "(string \<Rightarrow> string) \<Rightarrow> string" where
  "resolveConfigPath getenv =
     (let runConfig = getenv ''runConfig''; isDebug = getenv ''ISDEBUG''
      in if runConfig \<noteq> '''' then runConfig
         else if isDebug \<noteq> '''' \<and> isDebug \<noteq> ''0'' \<and> getenv ''devConf'' \<noteq> '''' then getenv ''devConf''
         else getenv ''prodConf'')"

text \<open>A loaded configuration file: its top-level settings, the answer of \<open>IsSet\<close> and \<open>Get\<close> for a dotted key, and the size
  of the section \<open>global\<close>. A value is a text or something else, of which only the JSON text matters.\<close>

datatype conf_value = ConfStr string | ConfOther "string option"

record viper =
  vp_settings :: "string \<rightharpoonup> conf_value"
  vp_Get :: "string \<rightharpoonup> conf_value"
  vp_global :: nat

definition vp_IsSet :: "viper \<Rightarrow> string \<Rightarrow> bool" where "vp_IsSet v k = (vp_Get v k \<noteq> None)"

text \<open>\<open>GetString\<close> of a value that is no text is what viper makes of it.\<close>

definition vp_GetString :: "(conf_value \<Rightarrow> string) \<Rightarrow> viper \<Rightarrow> string \<Rightarrow> string" where
  "vp_GetString cast v k = (case vp_Get v k of None \<Rightarrow> '''' | Some (ConfStr t) \<Rightarrow> t | Some x \<Rightarrow> cast x)"

record conf_state =
  cs_vp :: "viper option"
  cs_config :: "string \<rightharpoonup> conf_value"
  cs_appName :: string
  cs_appVer :: string
  cs_redisKey :: string
  cs_once :: bool
  cs_initErr :: "string option"

text \<open>\<open>load\<close> reads the file: an error text or the settings. The function run under the once: the new state with the
  error or the values set.\<close>

definition conf_load :: "(conf_value \<Rightarrow> string) \<Rightarrow> (string \<Rightarrow> string) \<Rightarrow> (string \<Rightarrow> string + viper) \<Rightarrow> conf_state \<Rightarrow> conf_state" where
  "conf_load cast getenv load st =
     (let configPath = resolveConfigPath getenv
      in if configPath = '''' then st\<lparr>cs_initErr := Some ''config path is empty, set runConfig or devConf/prodConf''\<rparr>
         else case load configPath of
           Inl err \<Rightarrow> st\<lparr>cs_initErr := Some err\<rparr>
         | Inr v \<Rightarrow>
             if vp_global v = 0 then st\<lparr>cs_initErr := Some ''global configuration is missing in the config file''\<rparr>
             else if \<not> vp_IsSet v ''global.app_name''
               then st\<lparr>cs_initErr := Some ''app name is missing in the global configuration''\<rparr>
             else if \<not> vp_IsSet v ''global.app_version''
               then st\<lparr>cs_initErr := Some ''app version is missing in the global configuration''\<rparr>
             else if \<not> vp_IsSet v ''global.redis_key_prefix''
               then st\<lparr>cs_initErr := Some ''redis key prefix is missing in the global configuration''\<rparr>
             else st\<lparr>cs_vp := Some v, cs_config := vp_settings v,
                     cs_appName := vp_GetString cast v ''global.app_name'',
                     cs_appVer := vp_GetString cast v ''global.app_version'',
                     cs_redisKey := vp_GetString cast v ''global.redis_key_prefix''\<rparr>)"

definition conf_Init ::
  "(conf_value \<Rightarrow> string) \<Rightarrow> (string \<Rightarrow> string) \<Rightarrow> (string \<Rightarrow> string + viper) \<Rightarrow> conf_state \<Rightarrow> unit outcome \<times> conf_state" where
  "conf_Init cast getenv load st =
     (let st = (if cs_once st then st else (conf_load cast getenv load st)\<lparr>cs_once := True\<rparr>)
      in (if cs_initErr st \<noteq> None then Panicked else Returned (), st))"

text \<open>The three accessors: the value when it is not empty, otherwise what it is after \<open>Init\<close>.\<close>

definition conf_read where
  "conf_read field cast getenv load st =
     (if field st \<noteq> '''' then (Returned (field st), st)
      else case conf_Init cast getenv load st of
        (Panicked, st) \<Rightarrow> (Panicked, st)
      | (Returned _, st) \<Rightarrow> (Returned (field st), st))"

definition GetAppName where "GetAppName = conf_read cs_appName"
definition GetAppVersion where "GetAppVersion = conf_read cs_appVer"
definition GetRedisKeyPrefix where "GetRedisKeyPrefix = conf_read cs_redisKey"

definition value_bytes :: "conf_value \<Rightarrow> string option" where
  "value_bytes v = (case v of ConfStr t \<Rightarrow> Some t | ConfOther json \<Rightarrow> json)"

text \<open>\<open>Get\<close>: nil is \<^term>\<open>None\<close>.\<close>

definition conf_Get where
  "conf_Get cast getenv load key st =
     (case conf_Init cast getenv load st of
        (Panicked, st) \<Rightarrow> (Panicked, st)
      | (Returned _, st) \<Rightarrow>
          (Returned (case cs_config st key of
             Some v \<Rightarrow> value_bytes v
           | None \<Rightarrow> (case cs_vp st of
                         Some v \<Rightarrow> (case vp_Get v key of Some x \<Rightarrow> value_bytes x | None \<Rightarrow> None)
                       | None \<Rightarrow> None)), st))"

definition GetConfigInstance where
  "GetConfigInstance cast getenv load st =
     (case cs_vp st of
        Some v \<Rightarrow> (Returned (Some v), st)
      | None \<Rightarrow> (case conf_Init cast getenv load st of
                    (Panicked, st) \<Rightarrow> (Panicked, st) | (Returned _, st) \<Rightarrow> (Returned (cs_vp st), st)))"

subsection \<open>Services\<close>

type_synonym 'w action = "'w \<Rightarrow> unit outcome \<times> 'w"

record 'w Service =
  svc_Start :: "'w action"
  svc_Stop :: "'w action"

text \<open>Actions in a row; the first panic ends them.\<close>

fun run_actions :: "'w action list \<Rightarrow> 'w action" where
  "run_actions [] w = (Returned (), w)"
| "run_actions (f # fs) w = (case f w of (Panicked, w) \<Rightarrow> (Panicked, w) | (Returned _, w) \<Rightarrow> run_actions fs w)"

record 'w CleanupService =
  cl_closers :: "('w \<Rightarrow> string option \<times> 'w) list"
  cl_cleanups :: "'w action list"

definition NewCleanupService :: "'w CleanupService" where
  "NewCleanupService = \<lparr>cl_closers = [], cl_cleanups = []\<rparr>"

definition AddCloser where "AddCloser closer c = c\<lparr>cl_closers := cl_closers c @ [closer]\<rparr>"
definition AddCleanup where "AddCleanup fn c = c\<lparr>cl_cleanups := cl_cleanups c @ [fn]\<rparr>"

definition cleanup_Start :: "'w CleanupService \<Rightarrow> 'w action" where
  "cleanup_Start c w = (Returned (), w)"

text \<open>The errors of the closers are only logged.\<close>

definition cleanup_Stop :: "'w CleanupService \<Rightarrow> 'w action" where
  "cleanup_Stop c w =
     (case run_actions (rev (cl_cleanups c)) w of
        (Panicked, w) \<Rightarrow> (Panicked, w)
      | (Returned _, w) \<Rightarrow> run_actions (rev (map (\<lambda>close w. (Returned (), snd (close w))) (cl_closers c))) w)"

definition cleanup_service :: "'w CleanupService \<Rightarrow> 'w Service" where
  "cleanup_service c = \<lparr>svc_Start = cleanup_Start c, svc_Stop = cleanup_Stop c\<rparr>"

definition ModeDev :: string where "ModeDev = ''dev''"
definition ModeTest :: string where "ModeTest = ''test''"
definition ModePre :: string where "ModePre = ''pre''"
definition ModePro :: string where "ModePro = ''pro''"

record LogConf =
  lg_Level :: string
  lg_Encoding :: string
  lg_OutputPath :: string

record TelemetryConf =
  tc_Name :: string
  tc_Endpoint :: string
  tc_Sampler :: float64
  tc_Batcher :: string

record ServiceConf =
  sv_Name :: string
  sv_Mode :: string
  sv_Log :: LogConf
  sv_MetricsUrl :: string
  sv_Telemetry :: TelemetryConf

definition ServiceConf_Validate :: "ServiceConf \<Rightarrow> string option" where
  "ServiceConf_Validate sc = (if sv_Name sc = '''' then Some ''service name is required'' else None)"

definition SetUp :: "ServiceConf \<Rightarrow> (string \<rightharpoonup> string) \<Rightarrow> string option \<times> (string \<rightharpoonup> string)" where
  "SetUp sc env =
     (case ServiceConf_Validate sc of
        Some err \<Rightarrow> (Some err, env)
      | None \<Rightarrow> (None, env(''APP_NAME'' \<mapsto> sv_Name sc, ''APP_MODE'' \<mapsto> sv_Mode sc)))"

record 'w ServiceGroup =
  sg_services :: "'w Service list"
  sg_stopped :: bool

definition NewServiceGroup :: "'w ServiceGroup" where
  "NewServiceGroup = \<lparr>sg_services = [], sg_stopped = False\<rparr>"

definition group_Add :: "'w Service \<Rightarrow> 'w ServiceGroup \<Rightarrow> 'w ServiceGroup" where
  "group_Add svc sg = sg\<lparr>sg_services := sg_services sg @ [svc]\<rparr>"

text \<open>\<open>startAll\<close> starts one goroutine per service: the actions that run, in some order.\<close>

definition startAll :: "'w ServiceGroup \<Rightarrow> 'w action list" where
  "startAll sg = map svc_Start (sg_services sg)"

text \<open>\<open>Stop\<close> under \<open>stopOnce\<close>: \<open>stopCh\<close> is closed and the services are stopped from the last to the first.\<close>

definition group_Stop :: "'w ServiceGroup \<times> 'w \<Rightarrow> unit outcome \<times> 'w ServiceGroup \<times> 'w" where
  "group_Stop = (\<lambda>(sg, w).
     if sg_stopped sg then (Returned (), sg, w)
     else let (r, w) = run_actions (rev (map svc_Stop (sg_services sg))) w in (r, sg\<lparr>sg_stopped := True\<rparr>, w))"

text \<open>\<open>Start\<close>: the wait ends with a signal or because \<open>stopCh\<close> is closed; what happens meanwhile is \<open>during\<close>.\<close>

definition group_Start where
  "group_Start during = (\<lambda>(sg, w). group_Stop (during (startAll sg) (sg, w)))"

text \<open>\<open>ServerStarter\<close>: a failed start ends the process when there is a logger (\<open>Fatal\<close>), modelled as a panic; without
  one it is ignored.\<close>

definition starter_Start :: "bool \<Rightarrow> ('w \<Rightarrow> string option \<times> 'w) \<Rightarrow> 'w action" where
  "starter_Start has_logger startup w =
     (case startup w of (Some err, w) \<Rightarrow> (if has_logger then Panicked else Returned (), w) | (None, w) \<Rightarrow> (Returned (), w))"

definition server_starter :: "bool \<Rightarrow> ('w \<Rightarrow> string option \<times> 'w) \<Rightarrow> 'w action \<Rightarrow> 'w Service" where
  "server_starter has_logger startup stop = \<lparr>svc_Start = starter_Start has_logger startup, svc_Stop = stop\<rparr>"


section \<open>Lemmas\<close>

text \<open>\<open>SetUp\<close> sets two variables of the environment; of the configuration of logs, metrics and telemetry it uses nothing.\<close>

lemma SetUp_ignores_infrastructure:
  "SetUp (sc\<lparr>sv_Log := l, sv_MetricsUrl := u, sv_Telemetry := t\<rparr>) env = SetUp sc env"
  by (simp add: SetUp_def ServiceConf_Validate_def)

lemma conf_Init_spends_once: "cs_once (snd (conf_Init cast getenv load st))"
  by (simp add: conf_Init_def Let_def)

lemma group_Stop_spends_once: "sg_stopped (fst (snd (group_Stop (sg, w))))"
  by (simp add: group_Stop_def split_beta)

interpretation conf_once: once_init cs_once "conf_Init cast getenv load" for cast getenv load
proof unfold_locales
  show "cs_once st' \<or> st' = st" if "conf_Init cast getenv load st = (r, st')" for st r st'
    using conf_Init_spends_once[of cast getenv load st] that by simp
qed (simp add: conf_Init_def)

interpretation group_once: once_quiet "\<lambda>(sg, w). sg_stopped sg" group_Stop
proof unfold_locales
  show "(case st' of (sg, w) \<Rightarrow> sg_stopped sg) \<or> st' = st" if "group_Stop st = (r, st')" for st r st'
    using group_Stop_spends_once[of "fst st" "snd st"] that by (simp add: split_beta)
  show "case st' of (sg, w) \<Rightarrow> sg_stopped sg" if "group_Stop st = (Panicked, st')" for st st'
    using group_Stop_spends_once[of "fst st" "snd st"] that by (simp add: split_beta)
qed (auto simp: group_Stop_def)

lemma run_actions_append:
  "run_actions (fs @ gs) w = (case run_actions fs w of (Panicked, w) \<Rightarrow> (Panicked, w) | (Returned _, w) \<Rightarrow> run_actions gs w)"
  by (induction fs arbitrary: w) (auto split: prod.splits outcome.splits)

text \<open>Actions that return: the state runs through them in order.\<close>

lemma run_actions_total:
  assumes "\<forall>f \<in> set fs. \<forall>w. fst (f w) = Returned ()"
  shows "run_actions fs w = (Returned (), foldl (\<lambda>w f. snd (f w)) w fs)"
  using assms
proof (induction fs arbitrary: w)
  case (Cons f fs)
  obtain w1 where "f w = (Returned (), w1)" using Cons.prems by (metis list.set_intros(1) prod.collapse)
  moreover have "run_actions fs w1 = (Returned (), foldl (\<lambda>w f. snd (f w)) w1 fs)" using Cons by simp
  ultimately show ?case by simp
qed simp

lemma run_actions_panic:
  assumes "\<forall>f \<in> set fs. \<forall>w. fst (f w) = Returned ()" and "\<forall>w. fst (g w) = Panicked"
  shows "run_actions (fs @ g # gs) w = (Panicked, snd (g (foldl (\<lambda>w f. snd (f w)) w fs)))"
proof -
  obtain v where "g (foldl (\<lambda>w f. snd (f w)) w fs) = (Panicked, v)" using assms(2) by (metis prod.collapse)
  then show ?thesis unfolding run_actions_append run_actions_total[OF assms(1)] by simp
qed

lemma group_Add_services: "sg_services (fold group_Add svcs sg) = sg_services sg @ svcs \<and> sg_stopped (fold group_Add svcs sg) = sg_stopped sg"
  by (induction svcs arbitrary: sg) (simp_all add: group_Add_def)

lemma group_Stop_fresh:
  "group_Stop (fold group_Add svcs NewServiceGroup, w) =
     (let (r, w) = run_actions (rev (map svc_Stop svcs)) w in (r, (fold group_Add svcs NewServiceGroup)\<lparr>sg_stopped := True\<rparr>, w))"
  using group_Add_services[of svcs NewServiceGroup] by (simp add: group_Stop_def NewServiceGroup_def)

text \<open>The clean-up functions run before the closers, both from the last to the first.\<close>

lemma cleanup_Stop_order:
  assumes "\<forall>f \<in> set (cl_cleanups c). \<forall>w. fst (f w) = Returned ()"
  shows "cleanup_Stop c w =
           (Returned (), foldl (\<lambda>w f. snd (f w)) (foldl (\<lambda>w f. snd (f w)) w (rev (cl_cleanups c))) (rev (cl_closers c)))"
proof -
  have a: "run_actions (rev (cl_cleanups c)) w = (Returned (), foldl (\<lambda>w f. snd (f w)) w (rev (cl_cleanups c)))"
    using assms by (intro run_actions_total) simp
  let ?cs = "rev (map (\<lambda>close w. (Returned (), snd (close w))) (cl_closers c))"
  have b: "run_actions ?cs v = (Returned (), foldl (\<lambda>w f. snd (f w)) v ?cs)" for v
    by (intro run_actions_total) auto
  have c: "foldl (\<lambda>w f. snd (f w)) v (map (\<lambda>close w. (Returned (), snd (close w))) cs) = foldl (\<lambda>w f. snd (f w)) v cs" for v cs
    by (induction cs arbitrary: v) simp_all
  show ?thesis unfolding cleanup_Stop_def a by (simp add: b c flip: rev_map) (simp add: rev_map c)
qed

lemma conf_Init_ok_iff:
  assumes "\<not> cs_once st" "cs_initErr st = None"
  shows "fst (conf_Init cast getenv load st) = Returned () \<longleftrightarrow>
     resolveConfigPath getenv \<noteq> '''' \<and>
     (\<exists>v. load (resolveConfigPath getenv) = Inr v \<and> vp_global v \<noteq> 0 \<and>
          (\<forall>k \<in> {''global.app_name'', ''global.app_version'', ''global.redis_key_prefix''}. vp_IsSet v k))"
  using assms by (auto simp: conf_Init_def conf_load_def Let_def split: sum.splits if_splits)

lemma conf_Init_again: "conf_Init cast' getenv' load' (snd (conf_Init cast getenv load st)) = conf_Init cast getenv load st"
  by (simp add: conf_Init_def Let_def)

lemma conf_Init_failed_keeps:
  assumes "\<not> cs_once st" "cs_initErr st = None" "fst (conf_Init cast getenv load st) = Panicked"
  shows "cs_appName (snd (conf_Init cast getenv load st)) = cs_appName st"
  using assms by (auto simp: conf_Init_def conf_load_def Let_def split: sum.splits if_splits)

section \<open>Properties\<close>

text \<open>C29: the first call of conf.Init decides: it succeeds exactly when a path is set (runConfig first, then devConf in debug
  mode, then prodConf) and the file can be read and has the three keys of its section global. Afterwards every
  call answers the same and changes nothing, whatever the environment and the file are by then; after a failed
  one GetAppName and Get panic too.\<close>

theorem config_first_load_decides:
  assumes "\<not> cs_once st" "cs_initErr st = None"
  shows "(fst (conf_Init cast getenv load st) = Returned () \<longleftrightarrow>
           resolveConfigPath getenv \<noteq> '''' \<and>
           (\<exists>v. load (resolveConfigPath getenv) = Inr v \<and> vp_global v \<noteq> 0 \<and>
                (\<forall>k \<in> {''global.app_name'', ''global.app_version'', ''global.redis_key_prefix''}. vp_IsSet v k))) \<and>
         call_times (conf_Init cast' getenv' load') n (snd (conf_Init cast getenv load st)) =
           (replicate n (fst (conf_Init cast getenv load st)), snd (conf_Init cast getenv load st)) \<and>
         (fst (conf_Init cast getenv load st) = Panicked \<longrightarrow> cs_appName st = '''' \<longrightarrow>
           fst (GetAppName cast' getenv' load' (snd (conf_Init cast getenv load st))) = Panicked \<and>
           fst (conf_Get cast' getenv' load' key (snd (conf_Init cast getenv load st))) = Panicked)"
proof (intro conjI impI)
  let ?st = "snd (conf_Init cast getenv load st)"
  show "call_times (conf_Init cast' getenv' load') n ?st = (replicate n (fst (conf_Init cast getenv load st)), ?st)"
    using conf_once.call_times_stuck[of cast' getenv' load' ?st] by (simp add: conf_Init_again)
  assume p: "fst (conf_Init cast getenv load st) = Panicked" and e: "cs_appName st = ''''"
  have i: "conf_Init cast' getenv' load' ?st = (Panicked, ?st)"
    using p conf_Init_again[of cast' getenv' load'] by (metis prod.collapse)
  have "cs_appName ?st = ''''" using conf_Init_failed_keeps[OF assms p] e by simp
  then show "fst (GetAppName cast' getenv' load' ?st) = Panicked" using i by (simp add: GetAppName_def conf_read_def)
  show "fst (conf_Get cast' getenv' load' key ?st) = Panicked" using i by (simp add: conf_Get_def)
qed (rule conf_Init_ok_iff[OF assms])

definition fresh_conf :: conf_state where
  "fresh_conf = \<lparr>cs_vp = None, cs_config = Map.empty, cs_appName = '''', cs_appVer = '''', cs_redisKey = '''',
     cs_once = False, cs_initErr = None\<rparr>"

theorem config_first_load_decides_witness:
  "fst (conf_Init (\<lambda>_. '''') (\<lambda>_. '''') (\<lambda>_. Inl ''no file'') fresh_conf) = Panicked \<and>
   call_times (conf_Init (\<lambda>_. '''') (\<lambda>k. ''app.toml'') (\<lambda>_. Inr \<lparr>vp_settings = Map.empty, vp_Get = (\<lambda>_. Some (ConfStr ''x'')), vp_global = 3\<rparr>)) 2
     (snd (conf_Init (\<lambda>_. '''') (\<lambda>_. '''') (\<lambda>_. Inl ''no file'') fresh_conf)) =
     ([Panicked, Panicked], snd (conf_Init (\<lambda>_. '''') (\<lambda>_. '''') (\<lambda>_. Inl ''no file'') fresh_conf))"
proof -
  have p: "fst (conf_Init (\<lambda>_. '''') (\<lambda>_. '''') (\<lambda>_. Inl ''no file'') fresh_conf) = Panicked"
    by (simp add: conf_Init_def conf_load_def resolveConfigPath_def fresh_conf_def)
  have "\<not> cs_once fresh_conf" "cs_initErr fresh_conf = None" by (simp_all add: fresh_conf_def)
  from config_first_load_decides[OF this, of "\<lambda>_. ''''" "\<lambda>_. ''''" "\<lambda>_. Inl ''no file''" "\<lambda>_. ''''" "\<lambda>k. ''app.toml''"
      "\<lambda>_. Inr \<lparr>vp_settings = Map.empty, vp_Get = (\<lambda>_. Some (ConfStr ''x'')), vp_global = 3\<rparr>" 2]
  show ?thesis using p by (simp add: numeral_2_eq_2)
qed

text \<open>stopping a service group any number of times stops every service once, from the last added to the first. A
  service whose Stop panics ends this for good: the services added before it are stopped neither then nor by a
  later call.\<close>

theorem services_stop_in_reverse:
  assumes "\<forall>svc \<in> set later. \<forall>w. fst (svc_Stop svc w) = Returned ()" and "\<forall>w. fst (svc_Stop bad w) = Panicked"
  shows "snd (snd (call_times group_Stop (Suc n) (fold group_Add later NewServiceGroup, w))) =
           foldl (\<lambda>w svc. snd (svc_Stop svc w)) w (rev later) \<and>
         fst (group_Stop (fold group_Add (earlier @ bad # later) NewServiceGroup, w)) = Panicked \<and>
         snd (snd (call_times group_Stop (Suc n) (fold group_Add (earlier @ bad # later) NewServiceGroup, w))) =
           snd (svc_Stop bad (foldl (\<lambda>w svc. snd (svc_Stop svc w)) w (rev later)))"
proof -
  have tot: "\<forall>f \<in> set (map svc_Stop (rev later)). \<forall>w. fst (f w) = Returned ()" using assms(1) by auto
  have fm: "foldl (\<lambda>w f. snd (f w)) w (map svc_Stop (rev later)) = foldl (\<lambda>w svc. snd (svc_Stop svc w)) w (rev later)"
    by (simp add: foldl_map)
  have ok: "run_actions (rev (map svc_Stop later)) w = (Returned (), foldl (\<lambda>w svc. snd (svc_Stop svc w)) w (rev later))"
    using run_actions_total[OF tot, of w] by (simp only: fm rev_map)
  have bad: "run_actions (rev (map svc_Stop (earlier @ bad # later))) w =
      (Panicked, snd (svc_Stop bad (foldl (\<lambda>w svc. snd (svc_Stop svc w)) w (rev later))))"
    using run_actions_panic[OF tot assms(2), of "map svc_Stop (rev earlier)" w] by (simp add: fm rev_map)
  show ?thesis unfolding group_once.first_call_decides group_Stop_fresh ok bad by (simp add: split_beta)
qed

definition logging_service :: "string \<Rightarrow> unit outcome \<Rightarrow> string list Service" where
  "logging_service name r = \<lparr>svc_Start = (\<lambda>w. (Returned (), w)), svc_Stop = (\<lambda>w. (r, w @ [name]))\<rparr>"

theorem services_stop_in_reverse_witness:
  "snd (snd (call_times group_Stop 3 (fold group_Add [logging_service ''db'' (Returned ()), logging_service ''http'' (Returned ())]
      NewServiceGroup, []))) = [''http'', ''db''] \<and>
   snd (snd (call_times group_Stop 3 (fold group_Add [logging_service ''db'' (Returned ()), logging_service ''mq'' Panicked,
      logging_service ''http'' (Returned ())] NewServiceGroup, []))) = [''http'', ''mq'']"
proof -
  let ?s = "\<lambda>n. logging_service n (Returned ())"
  have p: "\<forall>w. fst (svc_Stop (logging_service ''mq'' Panicked) w) = Panicked" by (simp add: logging_service_def)
  have a: "\<forall>svc \<in> set [?s ''db'', ?s ''http'']. \<forall>w. fst (svc_Stop svc w) = Returned ()"
    and b: "\<forall>svc \<in> set [?s ''http'']. \<forall>w. fst (svc_Stop svc w) = Returned ()" by (simp_all add: logging_service_def)
  show ?thesis
    using services_stop_in_reverse[OF a p, of 2 "[]" "[]"] services_stop_in_reverse[OF b p, of 2 "[]" "[?s ''db'']"]
    by (simp add: logging_service_def numeral_3_eq_3)
qed

end
