(* ===== verification/Middleware_Init.thy ===== *)
theory Middleware_Init
  imports Telemetry Redis_Notify
begin

section \<open>Lazy set-up of the HTTP middleware\<close>

text \<open>
  Models \<open>http_server/middleware/common.go\<close>: the logger and the Redis view that the middleware fetches at the first
  request, each under a \<open>sync.Once\<close>. The second uses the first. A once is spent by a call that panics, and the value
  it was to set stays nil.
\<close>

record mw_singletons =
  mw_logOnce :: bool
  mw_logger :: bool
  mw_redisOnce :: bool
  mw_redisView :: bool

definition initLogger :: "log_state \<Rightarrow> mw_singletons \<Rightarrow> unit outcome \<times> mw_singletons" where
  "initLogger ls ms =
     (if mw_logOnce ms then (Returned (), ms)
      else case GetLogger ''access middleware'' ls of
             Panicked \<Rightarrow> (Panicked, ms\<lparr>mw_logOnce := True\<rparr>)
           | Returned _ \<Rightarrow> (Returned (), ms\<lparr>mw_logOnce := True, mw_logger := True\<rparr>))"

text \<open>The warning about a missing view goes to the logger, and panics when that is nil.\<close>

definition initRedisClient ::
  "log_state \<Rightarrow> mw_singletons \<times> redis_singletons \<Rightarrow> unit outcome \<times> mw_singletons \<times> redis_singletons" where
  "initRedisClient ls = (\<lambda>(ms, rs).
     case initLogger ls ms of
       (Panicked, ms) \<Rightarrow> (Panicked, ms, rs)
     | (Returned _, ms) \<Rightarrow>
         if mw_redisOnce ms then (Returned (), ms, rs)
         else (let ms' = ms\<lparr>mw_redisOnce := True\<rparr>
               in case GetRedisManager rs of
                    (Panicked, rs) \<Rightarrow> (Panicked, ms', rs)
                  | (Returned m, rs) \<Rightarrow>
                      (case GetRedisView m ''default'' ''middleware'' of
                         Some _ \<Rightarrow> (Returned (), ms'\<lparr>mw_redisView := True\<rparr>, rs)
                       | None \<Rightarrow> (if mw_logger ms then Returned () else Panicked, ms', rs))))"

text \<open>\<open>initMetrics\<close>: the vectors of \<open>middleware.Metrics\<close> are made and registered by its first call, under the service name of
  that call.\<close>

record metrics_state =
  mt_once :: bool
  mt_vectors :: "nat list"

definition http_vectors :: "string \<Rightarrow> (metric_kind \<times> metric_opts) list" where
  "http_vectors serviceName =
     (let opts = (\<lambda>name labels buckets. \<lparr>mo_Namespace = serviceName, mo_Subsystem = '''', mo_Name = name, mo_Labels = labels, mo_Buckets = buckets\<rparr>)
      in [(CounterKind, opts ''http_requests_total'' [''method'', ''path'', ''status''] []),
          (CounterKind, opts ''http_requests_result_total'' [''method'', ''path'', ''result''] []),
          (CounterKind, opts ''http_requests_status_class_total'' [''method'', ''path'', ''status_class''] []),
          (HistogramKind, opts ''http_request_duration_ms'' [''method'', ''path''] [5, 10, 25, 50, 100, 250, 500, 1000, 2500]),
          (GaugeKind, opts ''http_requests_in_flight'' [] [])])"

fun register_all :: "'p prometheus \<Rightarrow> (metric_kind \<times> metric_opts) list \<Rightarrow> nat list \<Rightarrow> 'p \<Rightarrow> unit outcome \<times> nat list \<times> 'p" where
  "register_all pr [] ids p = (Returned (), ids, p)"
| "register_all pr ((k, o1) # vs) ids p =
     (case pr_MustRegister pr k o1 p of
        (Panicked, p) \<Rightarrow> (Panicked, ids, p)
      | (Returned i, p) \<Rightarrow> register_all pr vs (ids @ [i]) p)"

definition initMetrics :: "'p prometheus \<Rightarrow> string \<Rightarrow> metrics_state \<times> 'p \<Rightarrow> unit outcome \<times> metrics_state \<times> 'p" where
  "initMetrics pr serviceName = (\<lambda>(st, p).
     if mt_once st then (Returned (), st, p)
     else let (r, ids, p) = register_all pr (http_vectors serviceName) [] p
          in (r, \<lparr>mt_once = True, mt_vectors = ids\<rparr>, p))"

section \<open>Lemmas\<close>

interpretation metrics_once: once_quiet "\<lambda>(st, p). mt_once st" "initMetrics pr serviceName" for pr serviceName
  by unfold_locales (auto simp: initMetrics_def split: prod.splits if_splits)

text \<open>A second server in the process gets the vectors of the first, whatever its own service name.\<close>

lemma second_service_name_ignored:
  "snd (initMetrics pr name2 (snd (initMetrics pr name1 st))) = snd (initMetrics pr name1 st)"
  by (cases st) (simp add: initMetrics_def split_beta)

interpretation mw_log_once: once_quiet mw_logOnce "initLogger ls" for ls
  by unfold_locales (auto simp: initLogger_def split: outcome.splits if_splits)

text \<open>How many of the two onces are still open: every panic spends one.\<close>

definition open_onces :: "mw_singletons \<times> redis_singletons \<Rightarrow> nat" where
  "open_onces = (\<lambda>(ms, rs). (if mw_logOnce ms then 0 else 1) + (if mw_redisOnce ms then 0 else 1))"

lemma initRedisClient_rank:
  assumes "initRedisClient ls st = (r, st')"
  shows "open_onces st' + (if r = Panicked then 1 else 0) \<le> open_onces st"
  using assms by (cases st)
    (auto simp: initRedisClient_def initLogger_def open_onces_def Let_def split: prod.splits outcome.splits option.splits if_splits)

text \<open>With both onces spent the set-up returns without effect.\<close>

lemma initRedisClient_done:
  "mw_logOnce ms \<Longrightarrow> mw_redisOnce ms \<Longrightarrow> initRedisClient ls (ms, rs) = (Returned (), ms, rs)"
  by (simp add: initRedisClient_def initLogger_def)

lemma initRedisClient_panics: "panics (fst (call_times (initRedisClient ls) n st)) \<le> open_onces st"
  by (rule panics_bounded) (rule initRedisClient_rank)

lemma initRedisClient_works:
  assumes "\<not> mw_logOnce ms" "\<not> mw_redisOnce ms" "ls_logger ls = Some lg" "GetRedisManager rs = (Returned m, rs')"
  shows "\<exists>ms'. initRedisClient ls (ms, rs) = (Returned (), ms', rs') \<and> mw_logOnce ms' \<and> mw_redisOnce ms'"
  using assms by (simp add: initRedisClient_def initLogger_def GetLogger_def Let_def split: option.split)

end
