(* ===== verification/Http_Server.thy ===== *)
theory Http_Server
  imports App_Shell Middleware_Init
begin

section \<open>The HTTP server\<close>

text \<open>
  Models of \<open>http_server\<close> the server itself: \<open>server_http.go\<close>, \<open>backend_http.go\<close>, \<open>handler.go\<close>, \<open>config.go\<close>,
  \<open>protocol.go\<close>, and \<open>i18n/singleton.go\<close>, which the answers use. The router is gin: the model records the routes given
  to it, and \<open>accepts\<close> says whether gin takes one more (it panics on a conflict). The parser and the printer of
  \<open>net/url\<close> are arguments of \<open>url_JoinPath\<close>; what lies between them, the joining and cleaning of paths, is
  written out.
\<close>

subsection \<open>Paths\<close>

text \<open>\<open>path.Clean\<close> of a path that starts with a slash, as a run over its segments.\<close>

fun clean_segments :: "string list \<Rightarrow> string list \<Rightarrow> string list" where
  "clean_segments out [] = out"
| "clean_segments out (seg # segs) =
     (if seg = '''' \<or> seg = ''.'' then clean_segments out segs
      else if seg = ''..'' then clean_segments (butlast out) segs
      else clean_segments (out @ [seg]) segs)"

definition path_Clean :: "string \<Rightarrow> string" where
  "path_Clean p = ''/'' @ go_join ''/'' (clean_segments [] (go_split ''/'' p))"

definition path_Join :: "string list \<Rightarrow> string" where
  "path_Join elems = (let es = filter (\<lambda>e. e \<noteq> '''') elems in if es = [] then '''' else path_Clean (go_join ''/'' es))"

text \<open>\<open>parse\<close> answers the escaped path of the base, \<open>render\<close> is the text of the URL with the new path. \<^term>\<open>None\<close> is an error.\<close>

definition url_JoinPath :: "(string \<Rightarrow> string option) \<Rightarrow> (string \<Rightarrow> string) \<Rightarrow> string \<Rightarrow> string list \<Rightarrow> string option" where
  "url_JoinPath parse render base elem =
     (case parse base of
        None \<Rightarrow> None
      | Some escaped \<Rightarrow>
          (let p = (if has_prefix escaped ''/'' then path_Join (escaped # elem) else tl (path_Join ((''/'' @ escaped) # elem)));
               final = last (escaped # elem)
           in Some (render (if has_suffix final ''/'' \<and> \<not> has_suffix p ''/'' then p @ ''/'' else p))))"

definition trim_slashes :: "string \<Rightarrow> string" where
  "trim_slashes = trim_where (\<lambda>c. c = CHR ''/'')"

definition joinHTTPPath :: "string list \<Rightarrow> string" where
  "joinHTTPPath parts =
     (let segments = filter (\<lambda>t. t \<noteq> '''') (map trim_slashes parts)
      in if length segments = 0 then ''/'' else ''/'' @ go_join ''/'' segments)"

subsection \<open>Handlers\<close>

text \<open>A handler with its request function. \<open>should_bind\<close> is \<open>ShouldBind\<close> of gin; what is written is the status and the body.\<close>

record ('req, 'ans) Handler =
  hd_Name :: string
  hd_Tags :: "string list"
  hd_Func :: "'req \<Rightarrow> 'ans"

definition NewHandler :: "string \<Rightarrow> string list \<Rightarrow> ('req \<Rightarrow> 'ans) \<Rightarrow> ('req, 'ans) Handler" where
  "NewHandler name tags f = \<lparr>hd_Name = name, hd_Tags = tags, hd_Func = f\<rparr>"

datatype 'ans answer = BadRequest string | Handled 'ans

definition GetFunc :: "('req, 'ans) Handler \<Rightarrow> ('c \<Rightarrow> string + 'req) \<Rightarrow> 'c \<Rightarrow> 'ans answer" where
  "GetFunc h should_bind c = (case should_bind c of Inl err \<Rightarrow> BadRequest err | Inr req \<Rightarrow> Handled (hd_Func h req))"

definition GetName :: "('req, 'ans) Handler \<Rightarrow> string" where "GetName h = hd_Name h"
definition GetTags :: "('req, 'ans) Handler \<Rightarrow> string list" where "GetTags h = hd_Tags h"

text \<open>The manager of handlers is the list of them.\<close>

definition NewHandlers :: "'h list" where "NewHandlers = []"
definition GetHandlers :: "'h list \<Rightarrow> 'h list" where "GetHandlers hs = hs"
definition GetHandlersLen :: "'h list \<Rightarrow> nat" where "GetHandlersLen hs = length hs"

definition AddHandlers :: "'h \<Rightarrow> 'h list \<Rightarrow> 'h list" where "AddHandlers h hs = hs @ [h]"

subsection \<open>The server\<close>

record HttpServerConfig =
  hc_Port :: int
  hc_Address :: string
  hc_Path :: string
  hc_Cors :: bool
  hc_RequestLog :: bool
  hc_Access :: bool
  hc_WorkerID :: int

definition HttpServerConfig_Validate :: "HttpServerConfig \<Rightarrow> string option" where
  "HttpServerConfig_Validate c =
     (if hc_Port c \<le> 0 \<or> hc_Port c > 65535 then Some ''invalid port: must be between 1 and 65535''
      else if hc_Path c \<noteq> '''' \<and> hc_Path c ! 0 \<noteq> CHR ''/'' then Some ''path must start with /''
      else None)"

datatype 'm middleware = MwRecovery | MwCors | MwRequest | MwAccess | MwUser 'm

datatype 'h endpoint = UserHandler 'h | HealthHandler | MetricsHandler

text \<open>A route as gin gets it: on the engine, or on a group with the path of the group.\<close>

datatype 'h route = EngineRoute string string "'h endpoint" | GroupRoute string string string "'h endpoint"

record 'm StarDustGroup =
  gr_Prefix :: string
  gr_path :: string
  gr_handlers :: "'m middleware list"

record ('h, 'm) HttpServer =
  hs_addr :: string
  hs_path :: string
  hs_middleware :: "'m middleware list"
  hs_routes :: "('h route \<times> 'm middleware list) list"
  hs_group :: "string \<rightharpoonup> 'm StarDustGroup"
  hs_cancelled :: bool
  hs_stopOnce :: bool
  hs_server :: bool

text \<open>\<open>NewHttpServer\<close> on a decoded configuration (a text that does not decode panics); \<open>init_worker\<close> is what
  \<open>uuid.InitWorker\<close> does with the worker id. \<open>middleware.Request\<close> fetches the logger of the middleware when it is
  called, and the server its own; both panic without a logger.\<close>

definition configured :: "HttpServerConfig \<Rightarrow> 'm middleware list" where
  "configured config = [MwRecovery] @ (if hc_Cors config then [MwCors] else []) @
     (if hc_RequestLog config then [MwRequest] else []) @ (if hc_Access config then [MwAccess] else [])"

definition NewHttpServer ::
  "log_state \<Rightarrow> HttpServerConfig option \<Rightarrow> (int \<Rightarrow> 'w \<Rightarrow> 'w) \<Rightarrow> mw_singletons \<times> 'w \<Rightarrow>
     (string + ('h, 'm) HttpServer) outcome \<times> mw_singletons \<times> 'w" where
  "NewHttpServer ls parsed init_worker = (\<lambda>(ms, w).
     case parsed of
       None \<Rightarrow> (Panicked, ms, w)
     | Some config \<Rightarrow>
         (let w = init_worker (hc_WorkerID config) w;
              addr = hc_Address config @ '':'' @ itoa (hc_Port config)
          in case (if hc_RequestLog config then initLogger ls ms else (Returned (), ms)) of
               (Panicked, ms) \<Rightarrow> (Panicked, ms, w)
             | (Returned _, ms) \<Rightarrow>
                 if hc_Path config \<noteq> '''' \<and> hc_Path config ! 0 \<noteq> CHR ''/''
                 then (Returned (Inl ''the http.path must start with a /''), ms, w)
                 else (case GetLogger ''httpServer'' ls of
                         Panicked \<Rightarrow> (Panicked, ms, w)
                       | Returned _ \<Rightarrow>
                           (Returned (Inr \<lparr>hs_addr = addr, hs_path = hc_Path config, hs_middleware = configured config, hs_routes = [],
                              hs_group = Map.empty, hs_cancelled = False, hs_stopOnce = False, hs_server = False\<rparr>), ms, w))))"

definition http_Use :: "'m list \<Rightarrow> ('h, 'm) HttpServer \<Rightarrow> ('h, 'm) HttpServer" where
  "http_Use mws m = m\<lparr>hs_middleware := hs_middleware m @ map MwUser mws\<rparr>"

definition http_Startup :: "('h, 'm) HttpServer \<Rightarrow> string option \<times> ('h, 'm) HttpServer" where
  "http_Startup m = (None, m\<lparr>hs_server := True\<rparr>)"

text \<open>\<open>shutdown\<close> is \<open>Shutdown\<close> of the server; its error is only logged.\<close>

definition http_Stop :: "('w \<Rightarrow> 'w) \<Rightarrow> ('h, 'm) HttpServer \<times> 'w \<Rightarrow> ('h, 'm) HttpServer \<times> 'w" where
  "http_Stop shutdown = (\<lambda>(m, w).
     if hs_stopOnce m then (m, w)
     else let m = m\<lparr>hs_stopOnce := True, hs_cancelled := True\<rparr>
          in if \<not> hs_server m then (m, w) else (m, shutdown w))"

text \<open>\<open>sig\<close> is the signal that arrives; without one the call never returns (\<^term>\<open>None\<close>).\<close>

definition WaitForShutdown where
  "WaitForShutdown shutdown sig mw = (case sig of None \<Rightarrow> None | Some _ \<Rightarrow> Some (http_Stop shutdown mw))"

text \<open>gin combines the handlers of a route when it is registered: the middleware of the engine at that time, or that of the
  group, which was combined when the group was made. A later \<open>Use\<close> does not reach routes that exist.\<close>

definition engine_add ::
  "('h route list \<Rightarrow> 'h route \<Rightarrow> bool) \<Rightarrow> 'h route \<Rightarrow> 'm middleware list \<Rightarrow> ('h, 'm) HttpServer \<Rightarrow> unit outcome \<times> ('h, 'm) HttpServer" where
  "engine_add accepts r chain m =
     (if accepts (map fst (hs_routes m)) r then (Returned (), m\<lparr>hs_routes := hs_routes m @ [(r, chain)]\<rparr>) else (Panicked, m))"

text \<open>The error of \<open>url.JoinPath\<close> is dropped: the path is then empty.\<close>

definition joined :: "(string \<Rightarrow> string list \<Rightarrow> string option) \<Rightarrow> string \<Rightarrow> string list \<Rightarrow> string" where
  "joined join base elem = (case join base elem of None \<Rightarrow> '''' | Some p \<Rightarrow> p)"

definition Handle where
  "Handle accepts join meth path h m = engine_add accepts (EngineRoute meth (joined join (hs_path m) [''api'', path]) (UserHandler h)) (hs_middleware m) m"

definition Internal where
  "Internal accepts join meth path h m = engine_add accepts (EngineRoute meth (joined join (hs_path m) [''internal'', path]) (UserHandler h)) (hs_middleware m) m"

definition AddGroup :: "(string \<Rightarrow> string list \<Rightarrow> string option) \<Rightarrow> string \<Rightarrow> 'm list \<Rightarrow> ('h, 'm) HttpServer \<Rightarrow> ('h, 'm) HttpServer" where
  "AddGroup join path mws m =
     m\<lparr>hs_group := (hs_group m)(path \<mapsto> \<lparr>gr_Prefix = path, gr_path = joined join (hs_path m) [''api'', path],
        gr_handlers = hs_middleware m @ map MwUser mws\<rparr>)\<rparr>"

text \<open>\<open>Get\<close>, \<open>Post\<close> and \<open>Put\<close> differ in the method only.\<close>

definition add_route where
  "add_route meth accepts join path grp h m =
     (if grp \<noteq> '''' then
        (case hs_group m grp of
           None \<Rightarrow> (Panicked, m)
         | Some g \<Rightarrow> engine_add accepts (GroupRoute meth (gr_path g) (''/'' @ path) (UserHandler h)) (gr_handlers g) m)
      else Handle accepts join meth path h m)"

definition http_Get where "http_Get = add_route ''GET''"
definition http_Post where "http_Post = add_route ''POST''"
definition http_Put where "http_Put = add_route ''PUT''"

definition AddNativeHandler where
  "AddNativeHandler accepts meth path h m =
     engine_add accepts (EngineRoute meth (joinHTTPPath [hs_path m, ''api'', path]) (UserHandler h)) (hs_middleware m) m"

definition RegisterHealthCheck where
  "RegisterHealthCheck accepts m =
     (case engine_add accepts (EngineRoute ''GET'' ''/health'' HealthHandler) (hs_middleware m) m of
        (Panicked, m) \<Rightarrow> (Panicked, m)
      | (Returned _, m) \<Rightarrow> engine_add accepts (EngineRoute ''GET'' ''/metrics'' MetricsHandler) (hs_middleware m) m)"

subsection \<open>The backend\<close>

record ('h, 'm) Backend =
  bk_config :: HttpServerConfig
  bk_httpServer :: "('h, 'm) HttpServer"

definition NewBackend ::
  "log_state \<Rightarrow> HttpServerConfig option \<Rightarrow> (int \<Rightarrow> 'w \<Rightarrow> 'w) \<Rightarrow> mw_singletons \<times> 'w \<Rightarrow>
     (string + ('h, 'm) Backend) outcome \<times> mw_singletons \<times> 'w" where
  "NewBackend ls parsed init_worker w =
     (case NewHttpServer ls parsed init_worker w of
        (Panicked, w) \<Rightarrow> (Panicked, w)
      | (Returned (Inl err), w) \<Rightarrow> (Returned (Inl err), w)
      | (Returned (Inr srv), w) \<Rightarrow>
          (case parsed of
             None \<Rightarrow> (Panicked, w)
           | Some config \<Rightarrow>
               (case GetLogger ''http_backend'' ls of
                  Panicked \<Rightarrow> (Panicked, w)
                | Returned _ \<Rightarrow> (Returned (Inr \<lparr>bk_config = config, bk_httpServer = srv\<rparr>), w))))"

text \<open>An operation of the server inside the backend.\<close>

definition on_server where
  "on_server f b = (let (r, m) = f (bk_httpServer b) in (r, b\<lparr>bk_httpServer := m\<rparr>))"

definition backend_AddGroup where "backend_AddGroup join grp mws b = b\<lparr>bk_httpServer := AddGroup join grp mws (bk_httpServer b)\<rparr>"
definition backend_Post where "backend_Post accepts join grp h = on_server (http_Post accepts join (hd_Name h) grp h)"
definition backend_Get where "backend_Get accepts join grp h = on_server (http_Get accepts join (hd_Name h) grp h)"
definition AddHandler where "AddHandler accepts join meth path h = on_server (Handle accepts join meth path h)"
definition backend_AddNativeHandler where "backend_AddNativeHandler accepts meth path h = on_server (AddNativeHandler accepts meth path h)"
definition backend_Start where "backend_Start = on_server http_Startup"

definition backend_Stop where
  "backend_Stop shutdown sig = (\<lambda>(b, w).
     case WaitForShutdown shutdown sig (bk_httpServer b, w) of
       None \<Rightarrow> None | Some (m, w) \<Rightarrow> Some (b\<lparr>bk_httpServer := m\<rparr>, w))"

subsection \<open>Translated messages\<close>

text \<open>The translation bundle \<open>'b\<close> is a value of go-i18n: \<open>new_bundle\<close> makes an empty one for a language tag (\<^term>\<open>None\<close>: \<open>MustParse\<close>
  panics), \<open>load\<close> adds a message file, \<open>localize\<close> translates a key in a language. \<open>files\<close> is the listing of the
  directory, \<open>keys_file\<close> the decoded table of message keys; \<^term>\<open>None\<close> for one that cannot be read.\<close>

record 'b i18n_state =
  in_once :: bool
  in_bundle :: "'b option"
  in_keys :: "int \<rightharpoonup> string"

definition message_file :: "bool \<times> string \<Rightarrow> bool" where
  "message_file = (\<lambda>(is_dir, name). \<not> is_dir \<and> has_prefix name ''messages.'' \<and> has_suffix name ''.json'')"

fun load_messages :: "(string \<Rightarrow> 'b \<Rightarrow> 'b option) \<Rightarrow> (bool \<times> string) list \<Rightarrow> 'b \<Rightarrow> 'b" where
  "load_messages load [] b = b"
| "load_messages load (f # fs) b =
     load_messages load fs (if message_file f then (case load (snd f) b of None \<Rightarrow> b | Some b \<Rightarrow> b) else b)"

definition i18n_Init ::
  "'b option \<Rightarrow> (string \<Rightarrow> 'b \<Rightarrow> 'b option) \<Rightarrow> (bool \<times> string) list option \<Rightarrow> (int \<rightharpoonup> string) option \<Rightarrow>
     'b i18n_state \<Rightarrow> string option outcome \<times> 'b i18n_state" where
  "i18n_Init new_bundle load files keys_file st =
     (if in_once st then (Returned None, st)
      else case new_bundle of
        None \<Rightarrow> (Panicked, st\<lparr>in_once := True\<rparr>)
      | Some b \<Rightarrow>
          (let b = (case files of None \<Rightarrow> b | Some fs \<Rightarrow> load_messages load fs b);
               keys = (case keys_file of None \<Rightarrow> in_keys st | Some t \<Rightarrow> t)
           in (Returned None, st\<lparr>in_once := True, in_bundle := Some b, in_keys := keys\<rparr>)))"

definition i18n_LangFromContext :: "string option \<Rightarrow> string" where
  "i18n_LangFromContext lang = (case lang of Some l \<Rightarrow> l | None \<Rightarrow> ''zh-CN'')"

definition GetLocalizer where
  "GetLocalizer st langs = (case in_bundle st of None \<Rightarrow> Panicked | Some b \<Rightarrow> Returned (b, langs))"

definition MessageByCode ::
  "('b \<Rightarrow> string \<Rightarrow> string \<Rightarrow> string \<Rightarrow> string option) \<Rightarrow> 'b i18n_state \<Rightarrow> string option \<Rightarrow> int \<Rightarrow> string \<Rightarrow> string" where
  "MessageByCode localize st lang errCode fallback =
     (case in_bundle st of
        None \<Rightarrow> fallback
      | Some b \<Rightarrow>
          (let msgKey = (case in_keys st errCode of None \<Rightarrow> '''' | Some k \<Rightarrow> k)
           in if msgKey = '''' then fallback
              else case localize b (i18n_LangFromContext lang) msgKey fallback of None \<Rightarrow> fallback | Some msg \<Rightarrow> msg))"

definition ResetForTest :: "'b i18n_state" where
  "ResetForTest = \<lparr>in_once = False, in_bundle = None, in_keys = Map.empty\<rparr>"

subsection \<open>Answers\<close>

record 'd BaseResponse =
  br_ErrCode :: int
  br_ErrMsg :: string
  br_Data :: "'d option"

text \<open>\<open>Response\<close>: the status is 200 in every case. \<open>ok_text\<close> is the Chinese text for success; an error comes as its code and
  its message.\<close>

definition Response where
  "Response ok_text localize st lang err data =
     (case err of
        None \<Rightarrow> (200::int, \<lparr>br_ErrCode = 0, br_ErrMsg = MessageByCode localize st lang 0 ok_text, br_Data = data\<rparr>)
      | Some (code, msg) \<Rightarrow> (200, \<lparr>br_ErrCode = code, br_ErrMsg = MessageByCode localize st lang code msg, br_Data = None\<rparr>))"

section \<open>Lemmas\<close>

interpretation i18n_once: once_quiet in_once "i18n_Init new_bundle load files keys_file" for new_bundle load files keys_file
  by unfold_locales (auto simp: i18n_Init_def Let_def split: option.splits if_splits)

lemma trim_slashes_ends: "trim_slashes s \<noteq> '''' \<Longrightarrow> hd (trim_slashes s) \<noteq> CHR ''/'' \<and> last (trim_slashes s) \<noteq> CHR ''/''"
  using trim_where_ends[of "\<lambda>c. c = CHR ''/''" s] by (simp add: trim_slashes_def)

lemma go_join_append: "xs \<noteq> [] \<Longrightarrow> ys \<noteq> [] \<Longrightarrow> go_join sep (xs @ ys) = go_join sep xs @ sep @ go_join sep ys"
proof (induction xs)
  case (Cons x xs)
  then show ?case by (cases xs) (simp_all add: go_join_Cons)
qed simp

lemma go_join_last: "xs \<noteq> [] \<Longrightarrow> \<forall>x \<in> set xs. x \<noteq> '''' \<Longrightarrow> go_join sep xs \<noteq> '''' \<and> last (go_join sep xs) = last (last xs)"
proof (induction sep xs rule: go_join.induct)
  case (3 sep x y ys)
  then show ?case by (auto simp: last_append)
qed simp_all

text \<open>The non-empty segments of a path.\<close>

definition segments :: "string \<Rightarrow> string list" where
  "segments s = filter (\<lambda>t. t \<noteq> '''') (go_split ''/'' s)"

lemma go_split_slash: "go_split [c] (a @ c # b) = go_split [c] a @ go_split [c] b"
proof (induction a rule: length_induct)
  case (1 a)
  show ?case
  proof (cases "c \<in> set a")
    case False
    then show ?thesis by (simp add: go_split_char_first go_split_char_absent)
  next
    case True
    then obtain x y where a: "a = x @ c # y" and x: "c \<notin> set x" by (meson split_list_first)
    have "go_split [c] (y @ c # b) = go_split [c] y @ go_split [c] b" using 1 a by simp
    then show ?thesis using x unfolding a by (simp add: go_split_char_first)
  qed
qed

lemma segments_append [simp]: "segments (a @ CHR ''/'' # b) = segments a @ segments b"
  by (simp add: segments_def go_split_slash)

lemma segments_Nil [simp]: "segments '''' = []"
  by (simp add: segments_def go_split_char_absent)

lemma segments_slash [simp]: "segments (CHR ''/'' # b) = segments b"
  using segments_append[of "''''" b] by simp

lemma segments_dropWhile: "segments (dropWhile (\<lambda>c. c = CHR ''/'') s) = segments s"
  by (induction s) simp_all

lemma segments_snoc_slashes: "\<forall>c \<in> set z. c = CHR ''/'' \<Longrightarrow> segments (s @ z) = segments s"
proof (induction z rule: rev_induct)
  case (snoc x z)
  then show ?case using segments_append[of "s @ z" "''''"] by simp
qed simp

lemma segments_trim: "segments (trim_slashes s) = segments s"
proof -
  let ?P = "\<lambda>c. c = CHR ''/''" and ?t = "dropWhile (\<lambda>c. c = CHR ''/'') s"
  have "rev (takeWhile ?P (rev ?t) @ dropWhile ?P (rev ?t)) = ?t" by (simp only: takeWhile_dropWhile_id rev_rev_ident)
  then have "?t = rev (dropWhile ?P (rev ?t)) @ rev (takeWhile ?P (rev ?t))" by (simp only: rev_append)
  moreover have "\<forall>c \<in> set (rev (takeWhile ?P (rev ?t))). c = CHR ''/''" using set_takeWhileD by fastforce
  ultimately have "segments ?t = segments (rev (dropWhile ?P (rev ?t)))"
    by (subst \<open>?t = _\<close>) (rule segments_snoc_slashes)
  then show ?thesis by (simp add: trim_slashes_def trim_where_def segments_dropWhile)
qed

text \<open>A path without empty, dot and dot-dot segments between its outer slashes.\<close>

definition plain_path :: "string \<Rightarrow> bool" where
  "plain_path p \<longleftrightarrow> trim_slashes p = '''' \<or> (\<forall>seg \<in> set (go_split ''/'' (trim_slashes p)). seg \<notin> {'''', ''.'', ''..''})"

lemma plain_path_segments:
  assumes "plain_path p"
  shows "go_join ''/'' (segments p) = trim_slashes p \<and> (segments p = [] \<longleftrightarrow> trim_slashes p = '''') \<and>
         (\<forall>seg \<in> set (segments p). seg \<notin> {'''', ''.'', ''..''})"
proof (cases "trim_slashes p = ''''")
  case True
  then show ?thesis using segments_trim[of p] by (metis empty_iff empty_set go_join.simps(1) segments_Nil)
next
  case False
  then have "\<forall>seg \<in> set (go_split ''/'' (trim_slashes p)). seg \<notin> {'''', ''.'', ''..''}" using assms by (simp add: plain_path_def)
  moreover from this have "segments p = go_split ''/'' (trim_slashes p)"
    by (subst segments_trim[of p, symmetric]) (simp add: segments_def filter_id_conv)
  ultimately show ?thesis using False by (simp add: go_join_split)
qed

lemma go_join_segments_concat:
  "\<forall>p \<in> set ps. plain_path p \<Longrightarrow>
   go_join ''/'' (filter (\<lambda>t. t \<noteq> '''') (map trim_slashes ps)) = go_join ''/'' (concat (map segments ps)) \<and>
   (filter (\<lambda>t. t \<noteq> '''') (map trim_slashes ps) = [] \<longleftrightarrow> concat (map segments ps) = [])"
proof (induction ps)
  case (Cons p ps)
  define rest where "rest = concat (map segments ps)"
  define ts where "ts = filter (\<lambda>t. t \<noteq> '''') (map trim_slashes ps)"
  have ih: "go_join ''/'' ts = go_join ''/'' rest" "ts = [] \<longleftrightarrow> rest = []"
    using Cons unfolding rest_def ts_def by auto
  have p: "go_join ''/'' (segments p) = trim_slashes p" "segments p = [] \<longleftrightarrow> trim_slashes p = ''''"
    using plain_path_segments[of p] Cons.prems by simp_all
  have "go_join ''/'' (if trim_slashes p = '''' then ts else trim_slashes p # ts) = go_join ''/'' (segments p @ rest)"
    using ih p by (cases "rest = []") (auto simp: go_join_Cons go_join_append)
  with ih p show ?case by (simp add: rest_def[symmetric] ts_def[symmetric] split: if_splits)
qed simp

lemma joinHTTPPath_segments:
  "\<forall>p \<in> set ps. plain_path p \<Longrightarrow> joinHTTPPath ps = ''/'' @ go_join ''/'' (concat (map segments ps))"
  using go_join_segments_concat[of ps] by (auto simp: joinHTTPPath_def Let_def)

lemma clean_segments_plain:
  "\<forall>seg \<in> set segs. seg \<noteq> ''.'' \<and> seg \<noteq> ''..'' \<Longrightarrow> clean_segments out segs = out @ filter (\<lambda>t. t \<noteq> '''') segs"
  by (induction segs arbitrary: out) simp_all

lemma segments_go_join: "segments (go_join ''/'' ps) = concat (map segments ps)"
  by (induction "''/''" ps rule: go_join.induct) simp_all

lemma path_Join_segments:
  assumes "\<forall>p \<in> set ps. plain_path p" "\<exists>p \<in> set ps. p \<noteq> ''''"
  shows "path_Join ps = ''/'' @ go_join ''/'' (concat (map segments ps))"
proof -
  let ?es = "filter (\<lambda>e. e \<noteq> '''') ps"
  have e: "concat (map segments ?es) = concat (map segments ps)" by (induction ps) simp_all
  have "\<forall>seg \<in> set (concat (map segments ps)). seg \<noteq> ''.'' \<and> seg \<noteq> ''..''" using assms(1) plain_path_segments by fastforce
  then have "\<forall>seg \<in> set (segments (go_join ''/'' ?es)). seg \<noteq> ''.'' \<and> seg \<noteq> ''..''" by (simp add: segments_go_join e)
  then have "\<forall>seg \<in> set (go_split ''/'' (go_join ''/'' ?es)). seg \<noteq> ''.'' \<and> seg \<noteq> ''..''" by (auto simp: segments_def)
  then have "path_Clean (go_join ''/'' ?es) = ''/'' @ go_join ''/'' (segments (go_join ''/'' ?es))"
    unfolding path_Clean_def by (simp add: clean_segments_plain segments_def)
  moreover have "?es \<noteq> []" using assms(2) by (auto simp: filter_empty_conv)
  ultimately show ?thesis by (simp add: path_Join_def Let_def segments_go_join e)
qed

text \<open>The states of a server that was created with the path \<open>base\<close>, through its registration and life-cycle calls.\<close>

inductive built :: "('h route list \<Rightarrow> 'h route \<Rightarrow> bool) \<Rightarrow> (string \<Rightarrow> string list \<Rightarrow> string option) \<Rightarrow> HttpServerConfig \<Rightarrow>
    ('h, 'm) HttpServer \<Rightarrow> bool" for accepts join config where
  built_new: "fst (NewHttpServer ls (Some config) init_worker (ms, w::unit)) = Returned (Inr m) \<Longrightarrow> built accepts join config m"
| built_use: "built accepts join config m \<Longrightarrow> built accepts join config (http_Use mws m)"
| built_handle: "built accepts join config m \<Longrightarrow> built accepts join config (snd (Handle accepts join meth path h m))"
| built_internal: "built accepts join config m \<Longrightarrow> built accepts join config (snd (Internal accepts join meth path h m))"
| built_group: "built accepts join config m \<Longrightarrow> built accepts join config (AddGroup join path mws m)"
| built_route: "built accepts join config m \<Longrightarrow> built accepts join config (snd (add_route meth accepts join path grp h m))"
| built_native: "built accepts join config m \<Longrightarrow> built accepts join config (snd (AddNativeHandler accepts meth path h m))"
| built_health: "built accepts join config m \<Longrightarrow> built accepts join config (snd (RegisterHealthCheck accepts m))"
| built_startup: "built accepts join config m \<Longrightarrow> built accepts join config (snd (http_Startup m))"
| built_stop: "built accepts join config m \<Longrightarrow> built accepts join config (fst (http_Stop shutdown (m, w::unit)))"

text \<open>The shape of such a state: a path that is empty or starts with a slash, the configured middleware in front of what \<open>Use\<close>
  added, groups stored under their own prefix with the path under \<open>api\<close>, and routes of groups that exist. Every group
  and every route, whenever it was added, has the configured middleware in front.\<close>

definition route_ok :: "HttpServerConfig \<Rightarrow> (string \<rightharpoonup> 'm StarDustGroup) \<Rightarrow> 'h route \<times> 'm middleware list \<Rightarrow> bool" where
  "route_ok config groups = (\<lambda>(r, chain). prefix (configured config) chain \<and>
     (case r of
        EngineRoute meth p h \<Rightarrow> True
      | GroupRoute meth gp p h \<Rightarrow> gp \<in> gr_path ` ran groups \<and> has_prefix p ''/''))"

definition server_wf :: "(string \<Rightarrow> string list \<Rightarrow> string option) \<Rightarrow> HttpServerConfig \<Rightarrow> ('h, 'm) HttpServer \<Rightarrow> bool" where
  "server_wf join config m \<longleftrightarrow>
     hs_path m = hc_Path config \<and> (hc_Path config = '''' \<or> hd (hc_Path config) = CHR ''/'') \<and>
     hs_addr m = hc_Address config @ '':'' @ itoa (hc_Port config) \<and>
     prefix (configured config) (hs_middleware m) \<and>
     (\<forall>g grp. hs_group m g = Some grp \<longrightarrow> gr_Prefix grp = g \<and> gr_path grp = joined join (hc_Path config) [''api'', g] \<and>
        prefix (configured config) (gr_handlers grp)) \<and>
     list_all (route_ok config (hs_group m)) (hs_routes m) \<and>
     (hs_cancelled m \<longleftrightarrow> hs_stopOnce m)"

lemma prefix_append_extend: "prefix xs ys \<Longrightarrow> prefix xs (ys @ zs)"
  by (auto simp: prefix_def)

lemma server_wf_engine_add:
  "server_wf join config m \<Longrightarrow> route_ok config (hs_group m) (r, chain) \<Longrightarrow> server_wf join config (snd (engine_add accepts r chain m))"
  by (simp add: server_wf_def engine_add_def)

lemma route_ok_engine [simp]: "route_ok config groups (EngineRoute meth p h, chain) \<longleftrightarrow> prefix (configured config) chain"
  by (simp add: route_ok_def)

lemma server_wf_middleware: "server_wf join config m \<Longrightarrow> prefix (configured config) (hs_middleware m)"
  by (simp add: server_wf_def)

lemma server_wf_add_route:
  assumes "server_wf join config m"
  shows "server_wf join config (snd (add_route meth accepts join path grp h m))"
proof -
  have "route_ok config (hs_group m) (GroupRoute meth (gr_path g) (''/'' @ path) (UserHandler h), gr_handlers g)"
    if "hs_group m grp = Some g" for g
  proof -
    have "prefix (configured config) (gr_handlers g)" using that assms by (simp add: server_wf_def)
    with that show ?thesis by (auto simp: route_ok_def has_prefix_def intro: ranI)
  qed
  then show ?thesis using assms server_wf_engine_add[OF assms] server_wf_middleware[OF assms]
    by (auto simp: add_route_def Handle_def split: option.split)
qed

lemma server_wf_AddGroup:
  assumes "server_wf join config m"
  shows "server_wf join config (AddGroup join path mws m)"
proof -
  have "gr_path ` ran (hs_group m) \<subseteq> gr_path ` ran (hs_group (AddGroup join path mws m))"
  proof (intro image_subsetI)
    fix grp assume "grp \<in> ran (hs_group m)"
    then obtain g where g: "hs_group m g = Some grp" by (auto simp: ran_def)
    then have "gr_path grp = joined join (hc_Path config) [''api'', g]" using assms by (simp add: server_wf_def)
    moreover obtain grp' where "hs_group (AddGroup join path mws m) g = Some grp'"
      "gr_path grp' = joined join (hc_Path config) [''api'', g]"
      using g assms by (cases "g = path") (auto simp: AddGroup_def server_wf_def)
    ultimately show "gr_path grp \<in> gr_path ` ran (hs_group (AddGroup join path mws m))"
      by (metis imageI ranI)
  qed
  then have "route_ok config (hs_group m) rc \<Longrightarrow> route_ok config (hs_group (AddGroup join path mws m)) rc" for rc :: "'a route \<times> 'b middleware list"
    by (cases rc; cases "fst rc") (simp_all add: route_ok_def subset_iff)
  with assms have "list_all (route_ok config (hs_group (AddGroup join path mws m))) (hs_routes m)"
    by (auto simp: server_wf_def list_all_iff)
  with assms show ?thesis by (simp add: server_wf_def AddGroup_def prefix_append_extend)
qed

lemma server_wf_health:
  assumes "server_wf join config m"
  shows "server_wf join config (snd (RegisterHealthCheck accepts m))"
proof -
  have step: "server_wf join config (snd (engine_add accepts (EngineRoute a b c) (hs_middleware m) m))" if "server_wf join config m" for a b c m
    using that server_wf_middleware[OF that] by (intro server_wf_engine_add) simp_all
  obtain r m1 where m1: "engine_add accepts (EngineRoute ''GET'' ''/health'' HealthHandler) (hs_middleware m) m = (r, m1)" by fastforce
  with step[OF assms] have "server_wf join config m1" by (metis snd_conv)
  then show ?thesis using step[of m1] by (cases r) (simp_all add: RegisterHealthCheck_def m1)
qed

lemma server_wf_new:
  "fst (NewHttpServer ls (Some config) init_worker (ms, w)) = Returned (Inr m) \<Longrightarrow> server_wf join config m"
  by (cases "hc_Path config") (auto simp: NewHttpServer_def server_wf_def Let_def split: if_splits outcome.splits prod.splits)

lemma fst_http_Stop:
  "fst (http_Stop shutdown (m, w)) = (if hs_stopOnce m then m else m\<lparr>hs_stopOnce := True, hs_cancelled := True\<rparr>)"
  by (simp add: http_Stop_def Let_def)

lemma server_wf_cycle:
  assumes "server_wf join config m"
  shows "server_wf join config (http_Use mws m)" "server_wf join config (snd (http_Startup m))"
    "server_wf join config (fst (http_Stop shutdown (m, w)))"
  using assms by (simp_all add: server_wf_def http_Use_def http_Startup_def fst_http_Stop prefix_append_extend)

lemma built_wf: "built accepts join config m \<Longrightarrow> server_wf join config m"
  by (induction rule: built.induct)
     (auto simp: Handle_def Internal_def AddNativeHandler_def server_wf_AddGroup server_wf_add_route server_wf_health
        server_wf_cycle server_wf_middleware intro: server_wf_new intro!: server_wf_engine_add)

lemma plain_path_api: "plain_path ''api'' \<and> segments ''api'' = [''api'']"
  by (simp add: plain_path_def trim_slashes_def trim_where_def segments_def go_split_char_absent)

lemma trim_slashes_snoc: "trim_slashes (p @ ''/'') = trim_slashes p"
proof (cases "\<forall>c \<in> set p. c = CHR ''/''")
  case True
  then show ?thesis by (simp add: trim_slashes_def trim_where_def dropWhile_eq_Nil_conv[THEN iffD2])
next
  case False
  then show ?thesis by (auto simp: trim_slashes_def trim_where_def dropWhile_append)
qed


lemma plain_path_snoc: "plain_path (p @ ''/'') = plain_path p \<and> segments (p @ ''/'') = segments p"
  using segments_snoc_slashes[of "''/''" p] by (simp add: plain_path_def trim_slashes_snoc)

text \<open>A joined path with a proper segment does not end with a slash.\<close>

lemma joined_segments_end:
  assumes "\<forall>p \<in> set ps. plain_path p" "concat (map segments ps) \<noteq> []"
  shows "\<not> has_suffix (''/'' @ go_join ''/'' (concat (map segments ps))) ''/''"
proof -
  let ?l = "concat (map segments ps)"
  have nonempty: "\<forall>seg \<in> set ?l. seg \<noteq> ''''" using assms(1) plain_path_segments by fastforce
  have "last ?l \<in> set (segments p)" if "p \<in> set ps" "last ?l \<in> set (segments p)" for p using that by simp
  have "last ?l \<in> set ?l" using assms(2) by (rule last_in_set)
  then obtain p where "last ?l \<in> set (go_split ''/'' p)" by (auto simp: segments_def)
  then have "CHR ''/'' \<notin> set (last ?l)" by (rule go_split_char_parts)
  moreover have "last ?l \<noteq> ''''" using nonempty \<open>last ?l \<in> set ?l\<close> by blast
  ultimately have "last (last ?l) \<noteq> CHR ''/''" by (metis last_in_set)
  moreover have "go_join ''/'' ?l \<noteq> ''''" "last (go_join ''/'' ?l) = last (last ?l)"
    using go_join_last[OF assms(2) nonempty, of "''/''"] by simp_all
  ultimately have "last (''/'' @ go_join ''/'' ?l) \<noteq> CHR ''/''" by simp
  then show ?thesis unfolding has_suffix_def suffix_def by (metis last_snoc)
qed

lemma joined_url_path:
  assumes "has_prefix base ''/''" "parse base = Some base" "\<forall>q. render q = q" "plain_path base" "plain_path path"
  shows "joined (url_JoinPath parse render) base [''api'', path] =
         joinHTTPPath [base, ''api'', path] @ (if has_suffix path ''/'' then ''/'' else '''')"
proof -
  let ?ps = "[base, ''api'', path]"
  have plain: "\<forall>p \<in> set ?ps. plain_path p" using assms plain_path_api by simp
  have "path_Join ?ps = ''/'' @ go_join ''/'' (concat (map segments ?ps))" by (rule path_Join_segments[OF plain]) simp
  moreover have "\<not> has_suffix (''/'' @ go_join ''/'' (concat (map segments ?ps))) ''/''"
    by (rule joined_segments_end[OF plain]) (simp add: plain_path_api)
  ultimately show ?thesis using assms(1-3) joinHTTPPath_segments[OF plain]
    by (simp add: joined_def url_JoinPath_def Let_def)
qed

section \<open>Properties\<close>

text \<open>Handle and AddNativeHandler build their paths with different code (url.JoinPath and joinHTTPPath). On a server whose
  path starts with a slash they register the same route for every path without empty, dot and dot-dot segments
  that does not end with a slash; with a slash at the end Handle keeps it and AddNativeHandler drops it.\<close>

theorem native_paths_agree:
  assumes "has_prefix (hs_path m) ''/''" "parse (hs_path m) = Some (hs_path m)" "\<forall>q. render q = q"
    and "plain_path (hs_path m)" "plain_path path"
  shows "(\<not> has_suffix path ''/'' \<longrightarrow>
            Handle accepts (url_JoinPath parse render) meth path h m = AddNativeHandler accepts meth path h m) \<and>
         joinHTTPPath [hs_path m, ''api'', path @ ''/''] = joinHTTPPath [hs_path m, ''api'', path] \<and>
         joined (url_JoinPath parse render) (hs_path m) [''api'', path @ ''/''] = joinHTTPPath [hs_path m, ''api'', path] @ ''/''"
proof (intro conjI impI)
  show eq: "joinHTTPPath [hs_path m, ''api'', path @ ''/''] = joinHTTPPath [hs_path m, ''api'', path]"
    by (simp add: joinHTTPPath_def trim_slashes_snoc)
  show "Handle accepts (url_JoinPath parse render) meth path h m = AddNativeHandler accepts meth path h m"
    if "\<not> has_suffix path ''/''"
    using that joined_url_path[where parse = parse and render = render, OF assms] by (simp add: Handle_def AddNativeHandler_def)
  have "plain_path (path @ ''/'')" using assms(5) plain_path_snoc by simp
  from joined_url_path[where parse = parse and render = render, OF assms(1-4) this]
  show "joined (url_JoinPath parse render) (hs_path m) [''api'', path @ ''/''] = joinHTTPPath [hs_path m, ''api'', path] @ ''/''"
    unfolding eq by (simp add: has_suffix_def)
qed

definition sample_server :: "(string, string) HttpServer" where
  "sample_server = \<lparr>hs_addr = ''0.0.0.0:80'', hs_path = ''/v1'', hs_middleware = [MwRecovery], hs_routes = [],
     hs_group = Map.empty, hs_cancelled = False, hs_stopOnce = False, hs_server = False\<rparr>"

theorem native_paths_agree_witness:
  "Handle (\<lambda>_ _. True) (url_JoinPath Some (\<lambda>q. q)) ''GET'' ''users'' ''h'' sample_server =
     AddNativeHandler (\<lambda>_ _. True) ''GET'' ''users'' ''h'' sample_server \<and>
   joined (url_JoinPath Some (\<lambda>q. q)) ''/v1'' [''api'', ''users/''] = ''/v1/api/users/''"
proof -
  have h: "has_prefix (hs_path sample_server) ''/''" "Some (hs_path sample_server) = Some (hs_path sample_server)"
    "\<forall>q::string. (\<lambda>q. q) q = q" "plain_path (hs_path sample_server)" "plain_path ''users''"
    by (simp_all add: sample_server_def has_prefix_def plain_path_def trim_slashes_def trim_where_def go_split_char_absent)
  show ?thesis using native_paths_agree[where parse = Some and render = "\<lambda>q. q", OF h, of "\<lambda>_ _. True" "''GET''" "''h''"]
    by (simp add: sample_server_def has_suffix_def suffix_def joinHTTPPath_def trim_slashes_def trim_where_def)
qed


definition sample_http_config :: HttpServerConfig where
  "sample_http_config = \<lparr>hc_Port = 80, hc_Address = ''0.0.0.0'', hc_Path = ''/v1'', hc_Cors = True, hc_RequestLog = False,
     hc_Access = False, hc_WorkerID = 1\<rparr>"

definition ready_logs :: log_state where
  "ready_logs = \<lparr>ls_once = True, ls_logger = Some \<lparr>zl_level = 0, zl_file = ''''\<rparr>\<rparr>"

definition fresh_mw :: mw_singletons where
  "fresh_mw = \<lparr>mw_logOnce = False, mw_logger = False, mw_redisOnce = False, mw_redisView = False\<rparr>"


text \<open>a route for a group that was not added panics and registers nothing; after AddGroup the route is given to gin on
  the path of the group, in the order of the calls; without a group it goes to the engine below api.\<close>

theorem group_routes:
  assumes "grp \<noteq> ''''" "\<forall>rs r. accepts rs r"
  shows "(hs_group m grp = None \<longrightarrow> add_route meth accepts join path grp h m = (Panicked, m)) \<and>
         add_route meth accepts join path grp h (AddGroup join grp mws m) =
           (Returned (), (AddGroup join grp mws m)\<lparr>hs_routes := hs_routes m @
              [(GroupRoute meth (joined join (hs_path m) [''api'', grp]) (''/'' @ path) (UserHandler h), hs_middleware m @ map MwUser mws)]\<rparr>) \<and>
         add_route meth accepts join path '''' h m =
           (Returned (), m\<lparr>hs_routes := hs_routes m @ [(EngineRoute meth (joined join (hs_path m) [''api'', path]) (UserHandler h), hs_middleware m)]\<rparr>)"
  using assms by (simp add: add_route_def AddGroup_def engine_add_def Handle_def)

theorem group_routes_witness:
  "http_Get (\<lambda>_ _. True) (url_JoinPath Some (\<lambda>q. q)) ''list'' ''users'' ''h'' sample_server = (Panicked, sample_server)"
  using group_routes[of "''users''" "\<lambda>_ _. True" sample_server "''GET''" "url_JoinPath Some (\<lambda>q. q)" "''list''" "''h''"]
  by (simp add: http_Get_def sample_server_def)

end
