(* ===== verification/Grpc_Server.thy ===== *)
theory Grpc_Server
  imports Http_Server Http_Middleware Registry
begin

section \<open>The gRPC server, the etcd resolver and the pair of servers\<close>

text \<open>
  Models of \<open>http_server\<close> the files \<open>server_grpc.go\<close>, \<open>grpc_resolver.go\<close>, \<open>grpc_client.go\<close>, \<open>grpc_config.go\<close> and
  \<open>server.go\<close>, and the metric and tracing interceptors. The gRPC library, \<open>net.Listen\<close>, the tracer and the etcd client are
  arguments; the server registers itself through the service registry, and the resolver watches the same registry.
\<close>

subsection \<open>Interceptors\<close>

text \<open>\<open>status_code\<close> is the code name gRPC finds in an error, if it is a status.\<close>

definition metric_code :: "('e \<Rightarrow> string option) \<Rightarrow> 'e option \<Rightarrow> string" where
  "metric_code status_code err =
     (case err of None \<Rightarrow> ''OK'' | Some e \<Rightarrow> (case status_code e of Some c \<Rightarrow> c | None \<Rightarrow> ''OK''))"

text \<open>The metric interceptor writes one log line per call that returns.\<close>

definition UnaryMetricInterceptor where
  "UnaryMetricInterceptor status_code fullMethod handler = (\<lambda>(log, w).
     case handler w of
       (Panicked, w) \<Rightarrow> (Panicked, log, w)
     | (Returned (resp, err), w) \<Rightarrow> (Returned (resp, err), log @ [(fullMethod, metric_code status_code err)], w))"

record span =
  sp_name :: string
  sp_error :: "string option"
  sp_ended :: bool

text \<open>The tracing interceptor: \<open>span.End\<close> is deferred, so it runs after a panic too. The spans of the tracer are a list; inner
  calls may add more.\<close>

definition UnaryTracingInterceptor where
  "UnaryTracingInterceptor err_text fullMethod handler = (\<lambda>(spans, w).
     let a = length spans
     in case handler (spans @ [\<lparr>sp_name = fullMethod, sp_error = None, sp_ended = False\<rparr>], w) of
          (Panicked, spans, w) \<Rightarrow> (Panicked, spans[a := (spans ! a)\<lparr>sp_ended := True\<rparr>], w)
        | (Returned (resp, err), spans, w) \<Rightarrow>
            (let sp = (case err of None \<Rightarrow> spans ! a | Some e \<Rightarrow> (spans ! a)\<lparr>sp_error := Some (err_text e)\<rparr>)
             in (Returned (resp, err), spans[a := sp\<lparr>sp_ended := True\<rparr>], w)))"

text \<open>The carrier of the trace headers: the first value of a key.\<close>

definition carrier_Get :: "(string \<Rightarrow> string list) \<Rightarrow> string \<Rightarrow> string" where
  "carrier_Get md key = (let vals = md key in if length vals > 0 then vals ! 0 else '''')"

definition carrier_Set :: "(string \<Rightarrow> string list) \<Rightarrow> string \<Rightarrow> string \<Rightarrow> string \<Rightarrow> string list" where
  "carrier_Set md key v = md(key := [v])"

subsection \<open>The server\<close>

record GrpcServerConfig =
  gs_ListenOn :: string
  gs_Timeout :: int
  gs_Etcd :: "EtcdConfig option"

definition grpc_timeout :: "GrpcServerConfig \<Rightarrow> duration" where
  "grpc_timeout conf = (let timeout = duration_of (gs_Timeout conf) Millisecond in if timeout \<le> 0 then 3 * Second else timeout)"

datatype interceptor = IcMetric | IcTracing string | IcBreaker | IcTimeout duration

record GrpcServer =
  gs_conf :: GrpcServerConfig
  gs_chain :: "interceptor list"
  gs_listener :: "string option"
  gs_registry :: "(ServiceRegistry \<times> EtcdRegister) option"
  gs_serving :: bool
  gs_stopped :: bool

definition NewGrpcServer :: "GrpcServerConfig \<Rightarrow> string + GrpcServer" where
  "NewGrpcServer conf =
     Inr \<lparr>gs_conf = conf, gs_chain = [IcMetric, IcTracing ''rpc'', IcBreaker, IcTimeout (grpc_timeout conf)],
          gs_listener = None, gs_registry = None, gs_serving = False, gs_stopped = False\<rparr>"

text \<open>\<open>net.SplitHostPort\<close>; \<^term>\<open>None\<close> is its error. \<open>parseAddr\<close> drops the errors.\<close>

definition SplitHostPort :: "string \<Rightarrow> (string \<times> string) option" where
  "SplitHostPort s =
     (if CHR '':'' \<notin> set s then None
      else let port = rev (takeWhile (\<lambda>c. c \<noteq> CHR '':'') (rev s));
               before = rev (tl (dropWhile (\<lambda>c. c \<noteq> CHR '':'') (rev s)))
           in if hd s = CHR ''['' then
                (if length before < 2 \<or> last before \<noteq> CHR '']'' then None
                 else let host = butlast (tl before)
                      in if CHR '']'' \<in> set host \<or> CHR ''['' \<in> set host \<or> CHR ''['' \<in> set port \<or> CHR '']'' \<in> set port then None
                         else Some (host, port))
              else if CHR '':'' \<in> set before \<or> CHR ''['' \<in> set s \<or> CHR '']'' \<in> set s then None
              else Some (before, port))"

definition parseAddr :: "string \<Rightarrow> string \<times> int" where
  "parseAddr addr =
     (let (host, portStr) = (case SplitHostPort addr of None \<Rightarrow> ('''', '''') | Some hp \<Rightarrow> hp);
          port = (case atoi portStr of None \<Rightarrow> 0 | Some p \<Rightarrow> p)
      in (host, port))"

text \<open>\<open>Startup\<close>: \<open>listen\<close> answers the address listened on, \<open>reparse\<close> is the configuration written as JSON and read back. A failed dial is
  logged, the error of \<open>Register\<close> is dropped; the server serves in both cases, unless it was stopped before (\<open>Serve\<close> of a
  stopped server returns at once with an error, which is only logged).\<close>

definition etcd_ops_Register where
  "etcd_ops_Register cl marshal = (\<lambda>_ info (r, e). let (err, r, e) = etcd_Register cl marshal info r e in (err, (r, e)))"

definition etcd_ops_Deregister where
  "etcd_ops_Deregister cl = (\<lambda>sid (r, e). let (err, r, e) = etcd_Deregister cl sid r e in (err, (r, e)))"

definition etcd_ops_Close where
  "etcd_ops_Close cl = (\<lambda>(r, e). let (err, r, e) = etcd_Close cl r e in (err, (r, e)))"

definition grpc_Startup ::
  "log_state \<Rightarrow> (string \<Rightarrow> string + string) \<Rightarrow> (EtcdConfig \<Rightarrow> EtcdConfig option) \<Rightarrow> (string list \<Rightarrow> duration \<Rightarrow> string option) \<Rightarrow>
     'e etcd_client \<Rightarrow> (ServiceInfo \<Rightarrow> string + string) \<Rightarrow> string \<Rightarrow> GrpcServer \<Rightarrow> 'e \<Rightarrow> string option outcome \<times> GrpcServer \<times> 'e" where
  "grpc_Startup ls listen reparse dial cl marshal sid s e =
     (case listen (gs_ListenOn (gs_conf s)) of
        Inl err \<Rightarrow> (Returned (Some err), s, e)
      | Inr addr \<Rightarrow>
          (let s = s\<lparr>gs_listener := Some addr\<rparr>
           in case gs_Etcd (gs_conf s) of
                None \<Rightarrow> (Returned None, s\<lparr>gs_serving := \<not> gs_stopped s\<rparr>, e)
              | Some c \<Rightarrow>
                  (case NewEtcdRegister (reparse c) dial of
                     Panicked \<Rightarrow> (Panicked, s, e)
                   | Returned (Inl err) \<Rightarrow> (Returned None, s\<lparr>gs_serving := \<not> gs_stopped s\<rparr>, e)
                   | Returned (Inr reg) \<Rightarrow>
                       (case NewServiceRegistry ls of
                          Panicked \<Rightarrow> (Panicked, s, e)
                        | Returned sr \<Rightarrow>
                            (let (host, port) = parseAddr addr;
                                 (_, sr, (reg, e)) = registry_Register (etcd_ops_Register cl marshal) sid (ec_ServiceName c) host port
                                   (ec_Tags c) [] sr (reg, e)
                             in (Returned None, s\<lparr>gs_registry := Some (sr, reg), gs_serving := \<not> gs_stopped s\<rparr>, e))))))"

definition grpc_Start where
  "grpc_Start ls listen reparse dial cl marshal sid s e =
     (case grpc_Startup ls listen reparse dial cl marshal sid s e of
        (Panicked, s, e) \<Rightarrow> (Panicked, s, e)
      | (Returned (Some err), s, e) \<Rightarrow> (Panicked, s, e)
      | (Returned None, s, e) \<Rightarrow> (Returned (), s, e))"

definition grpc_Stop :: "'e etcd_client \<Rightarrow> GrpcServer \<Rightarrow> 'e \<Rightarrow> GrpcServer \<times> 'e" where
  "grpc_Stop cl s e =
     (let (s, e) = (case gs_registry s of
            None \<Rightarrow> (s, e)
          | Some (sr, reg) \<Rightarrow>
              (let (_, sr, (reg, e)) = registry_Close (etcd_ops_Deregister cl) (etcd_ops_Close cl) sr (reg, e)
               in (s\<lparr>gs_registry := Some (sr, reg)\<rparr>, e)))
      in (s\<lparr>gs_serving := False, gs_stopped := True\<rparr>, e))"

definition grpc_Address :: "GrpcServer \<Rightarrow> string" where
  "grpc_Address s = (case gs_listener s of Some a \<Rightarrow> a | None \<Rightarrow> gs_ListenOn (gs_conf s))"

subsection \<open>The resolver and the client\<close>

definition etcdScheme :: string where "etcdScheme = ''etcd''"

definition Build ::
  "EtcdConfig option \<Rightarrow> (string list \<Rightarrow> duration \<Rightarrow> string option) \<Rightarrow> string \<Rightarrow> (string + EtcdRegister \<times> string) outcome" where
  "Build parsed dial endpoint =
     (case NewEtcdRegister parsed dial of
        Panicked \<Rightarrow> Panicked
      | Returned (Inl err) \<Rightarrow> Returned (Inl err)
      | Returned (Inr reg) \<Rightarrow> Returned (Inr (reg, endpoint)))"

definition resolver_address :: "ServiceInfo \<Rightarrow> string \<times> string" where
  "resolver_address svc = (si_Address svc @ '':'' @ itoa (si_Port svc), si_Name svc)"

text \<open>\<open>watch\<close>: the address lists given to \<open>UpdateState\<close>, in order.\<close>

definition resolver_watch where
  "resolver_watch cl unmarshal serviceName reg e states =
     (case etcd_Watch cl unmarshal serviceName reg e states of
        Inl err \<Rightarrow> []
      | Inr chan \<Rightarrow> map (map resolver_address) chan)"

text \<open>\<open>Close\<close> of the resolver: the context of the watch is cancelled and the connection to etcd closed, its error dropped.\<close>

definition resolver_Close where
  "resolver_Close cl reg e = (let (err, reg, e) = etcd_Close cl reg e in (True, reg, e))"

record GrpcClientConfig =
  gc_Target :: string
  gc_Timeout :: int
  gc_Etcd :: "EtcdConfig option"

definition client_target :: "GrpcClientConfig \<Rightarrow> string" where
  "client_target conf =
     (case gc_Etcd conf of Some c \<Rightarrow> etcdScheme @ '':///'' @ ec_ServiceName c | None \<Rightarrow> gc_Target conf)"

definition NewGrpcClient :: "(string \<Rightarrow> string + 'conn) \<Rightarrow> GrpcClientConfig \<Rightarrow> string + 'conn" where
  "NewGrpcClient new_client conf = new_client (client_target conf)"

definition client_Close where
  "client_Close close conn = (case conn of None \<Rightarrow> None | Some c \<Rightarrow> close c)"

subsection \<open>Several servers\<close>

record ('h, 'm) MultiServer =
  mu_http :: "('h, 'm) HttpServer option"
  mu_grpc :: "GrpcServer option"

text \<open>\<^term>\<open>None\<close> for a configuration that is not given; \<open>Some None\<close> for a text that does not decode.\<close>

definition NewMultiServer ::
  "log_state \<Rightarrow> HttpServerConfig option option \<Rightarrow> (int \<Rightarrow> 'w \<Rightarrow> 'w) \<Rightarrow> GrpcServerConfig option \<Rightarrow> mw_singletons \<times> 'w \<Rightarrow>
     (string + ('h, 'm) MultiServer) outcome \<times> mw_singletons \<times> 'w" where
  "NewMultiServer ls httpConfig init_worker grpcConf w =
     (case (case httpConfig of
              None \<Rightarrow> (Returned (Inr None), w)
            | Some parsed \<Rightarrow>
                (case NewHttpServer ls parsed init_worker w of
                   (Panicked, w) \<Rightarrow> (Panicked, w)
                 | (Returned (Inl err), w) \<Rightarrow> (Returned (Inl err), w)
                 | (Returned (Inr h), w) \<Rightarrow> (Returned (Inr (Some h)), w))) of
        (Panicked, w) \<Rightarrow> (Panicked, w)
      | (Returned (Inl err), w) \<Rightarrow> (Returned (Inl err), w)
      | (Returned (Inr h), w) \<Rightarrow>
          (case grpcConf of
             None \<Rightarrow> (Returned (Inr \<lparr>mu_http = h, mu_grpc = None\<rparr>), w)
           | Some conf \<Rightarrow>
               (case NewGrpcServer conf of
                  Inl err \<Rightarrow> (Returned (Inl err), w)
                | Inr g \<Rightarrow> (Returned (Inr \<lparr>mu_http = h, mu_grpc = Some g\<rparr>), w))))"

definition NewMultiServerFromBytes ::
  "log_state \<Rightarrow> HttpServerConfig option option \<Rightarrow> (int \<Rightarrow> 'w \<Rightarrow> 'w) \<Rightarrow> (string + GrpcServerConfig) option \<Rightarrow> mw_singletons \<times> 'w \<Rightarrow>
     (string + ('h, 'm) MultiServer) outcome \<times> mw_singletons \<times> 'w" where
  "NewMultiServerFromBytes ls httpConfig init_worker grpcConfig w =
     (case NewMultiServer ls httpConfig init_worker None w of
        (Returned (Inr ms), w) \<Rightarrow>
          (case grpcConfig of
             None \<Rightarrow> (Returned (Inr ms), w)
           | Some (Inl err) \<Rightarrow> (Returned (Inl err), w)
           | Some (Inr conf) \<Rightarrow>
               (case NewGrpcServer conf of
                  Inl err \<Rightarrow> (Returned (Inl err), w)
                | Inr g \<Rightarrow> (Returned (Inr (ms\<lparr>mu_grpc := Some g\<rparr>)), w)))
      | other \<Rightarrow> other)"

definition multi_Startup where
  "multi_Startup grpc_start ms e =
     (case (case mu_http ms of
              None \<Rightarrow> (None, ms)
            | Some h \<Rightarrow> (let (err, h) = http_Startup h in (err, ms\<lparr>mu_http := Some h\<rparr>))) of
        (Some err, ms) \<Rightarrow> (Returned (Some err), ms, e)
      | (None, ms) \<Rightarrow>
          (case mu_grpc ms of
             None \<Rightarrow> (Returned None, ms, e)
           | Some g \<Rightarrow> (let (r, g, e) = grpc_start g e in (r, ms\<lparr>mu_grpc := Some g\<rparr>, e))))"

definition multi_Stop where
  "multi_Stop cl shutdown ms e =
     (let (ms, e) = (case mu_grpc ms of
            None \<Rightarrow> (ms, e) | Some g \<Rightarrow> (let (g, e) = grpc_Stop cl g e in (ms\<lparr>mu_grpc := Some g\<rparr>, e)))
      in case mu_http ms of
           None \<Rightarrow> (ms, e)
         | Some h \<Rightarrow> (let (h, e) = http_Stop shutdown (h, e) in (ms\<lparr>mu_http := Some h\<rparr>, e)))"


subsection \<open>One call through the interceptors\<close>

text \<open>The chain of \<open>NewGrpcServer\<close> around a handler, which gets the deadline of its context and may start spans of its own.\<close>

definition breaker_stage where
  "breaker_stage timeout t0 t1 rnd t2 now deadline fullMethod handler = (\<lambda>(spans, hb, w).
     case UnaryBreakerInterceptor t0 t1 rnd t2 fullMethod
            (\<lambda>(hb, w). case UnaryTimeoutInterceptor now timeout handler deadline w of (r, w) \<Rightarrow> (r, hb, w)) (hb, spans, w) of
       (r, hb, spans, w) \<Rightarrow> (r, spans, hb, w))"

definition serve_unary where
  "serve_unary status_code err_text timeout t0 t1 rnd t2 now deadline fullMethod handler =
     UnaryMetricInterceptor status_code fullMethod
       (UnaryTracingInterceptor err_text fullMethod (breaker_stage timeout t0 t1 rnd t2 now deadline fullMethod handler))"

section \<open>Lemmas\<close>

text \<open>Addresses.\<close>

lemma takeWhile_rev_last: "c \<notin> set b \<Longrightarrow> takeWhile (\<lambda>x. x \<noteq> c) (rev (a @ c # b)) = rev b"
  by (induction b rule: rev_induct) auto

lemma dropWhile_rev_last: "c \<notin> set b \<Longrightarrow> dropWhile (\<lambda>x. x \<noteq> c) (rev (a @ c # b)) = c # rev a"
  by (induction b rule: rev_induct) auto

lemma itoa_no_mark: "CHR '':'' \<notin> set (itoa n) \<and> CHR ''['' \<notin> set (itoa n) \<and> CHR '']'' \<notin> set (itoa n)"
  using itoa_chars[of "CHR '':''" n] itoa_chars[of "CHR ''[''" n] itoa_chars[of "CHR '']''" n] by (auto simp: is_digit_def)

lemma SplitHostPort_plain:
  assumes "host \<noteq> '''' \<longrightarrow> hd host \<noteq> CHR ''[''" "CHR '':'' \<notin> set port"
  shows "SplitHostPort (host @ '':'' @ port) =
    (if {CHR '':'', CHR ''['', CHR '']''} \<inter> set host \<noteq> {} \<or> {CHR ''['', CHR '']''} \<inter> set port \<noteq> {} then None else Some (host, port))"
proof -
  have "hd (host @ '':'' @ port) \<noteq> CHR ''[''" using assms(1) by (cases host) simp_all
  then show ?thesis using takeWhile_rev_last[OF assms(2), of host] dropWhile_rev_last[OF assms(2), of host]
    unfolding SplitHostPort_def Let_def by auto
qed

lemma SplitHostPort_bracket:
  assumes "{CHR ''['', CHR '']''} \<inter> set host = {}" "{CHR '':'', CHR ''['', CHR '']''} \<inter> set port = {}"
  shows "SplitHostPort (''['' @ host @ '']:'' @ port) = Some (host, port)"
proof -
  have p: "CHR '':'' \<notin> set port" using assms by auto
  show ?thesis using takeWhile_rev_last[OF p, of "''['' @ host @ '']''"] dropWhile_rev_last[OF p, of "''['' @ host @ '']''"] assms
    unfolding SplitHostPort_def Let_def by (auto simp: butlast_append)
qed

lemma parseAddr_plain:
  assumes "{CHR '':'', CHR ''['', CHR '']''} \<inter> set host = {}" "0 \<le> port" "port < 2 ^ 63"
  shows "parseAddr (host @ '':'' @ itoa port) = (host, port)"
proof -
  have h: "host \<noteq> '''' \<longrightarrow> hd host \<noteq> CHR ''[''" using assms(1) by (cases host) auto
  have "SplitHostPort (host @ '':'' @ itoa port) = Some (host, itoa port)"
    using SplitHostPort_plain[OF h, of "itoa port"] assms(1) itoa_no_mark[of port] by auto
  then show ?thesis using atoi_itoa_nonneg[OF assms(2,3)] by (simp add: parseAddr_def)
qed


text \<open>An etcd that answers: no call fails, and closing the client leaves the keys alone.\<close>

definition etcd_up :: "'e etcd_client \<Rightarrow> ('e \<Rightarrow> string \<rightharpoonup> string \<times> int) \<Rightarrow> bool" where
  "etcd_up cl kv \<longleftrightarrow>
     (\<forall>ttl e. \<exists>l e'. et_Grant cl ttl e = (Inr l, e')) \<and> (\<forall>k v l e. \<exists>e'. et_Put cl k v l e = (None, e')) \<and>
     (\<forall>l e. \<exists>e'. et_KeepAlive cl l e = (None, e')) \<and> (\<forall>l e. \<exists>e'. et_Revoke cl l e = (None, e')) \<and>
     (\<forall>p e. \<exists>kvs e'. et_Get cl p e = (Inr kvs, e')) \<and> (\<forall>e. kv (snd (et_Close cl e)) = kv e)"

lemma etcd_up_register:
  assumes "etcd_up cl kv" "marshal info = Inr t"
  shows "\<exists>r' e'. etcd_Register cl marshal info r e = (None, r', e') \<and> er_registry r' = er_registry r"
proof -
  obtain l e1 where g: "et_Grant cl (er_ttl r) e = (Inr l, e1)" using assms unfolding etcd_up_def by meson
  obtain e2 where p: "et_Put cl (er_prefix r @ si_Name info @ ''/'' @ si_ID info) t l e1 = (None, e2)"
    using assms unfolding etcd_up_def by meson
  obtain e3 where k: "et_KeepAlive cl l e2 = (None, e3)" using assms unfolding etcd_up_def by meson
  show ?thesis unfolding etcd_Register_def g using assms(2) p k by (simp add: Let_def)
qed

definition grpc_service_info :: "string \<Rightarrow> EtcdConfig \<Rightarrow> string \<Rightarrow> int \<Rightarrow> ServiceInfo" where
  "grpc_service_info sid c host port =
     \<lparr>si_Name = ec_ServiceName c, si_ID = ec_ServiceName c @ ''-'' @ sid, si_Address = host, si_Port = port, si_Tags = ec_Tags c, si_Meta = []\<rparr>"

text \<open>What a start with etcd leaves behind.\<close>

lemma grpc_Startup_registers:
  assumes "etcd_laws cl kv" "etcd_up cl kv" "marshal (grpc_service_info sid c host port) = Inr t"
    and "gs_Etcd (gs_conf s) = Some c" "reparse c = Some c" "\<forall>eps d. dial eps d = None"
    and "listen (gs_ListenOn (gs_conf s)) = Inr addr" "parseAddr addr = (host, port)" "ls_logger ls = Some lg"
  shows "\<exists>reg e1. grpc_Startup ls listen reparse dial cl marshal sid s e =
     (Returned None, s\<lparr>gs_listener := Some addr,
        gs_registry := Some (\<lparr>sr_info = Some (grpc_service_info sid c host port), sr_cancelled = False\<rparr>, reg), gs_serving := \<not> gs_stopped s\<rparr>, e1) \<and>
     er_registry reg = None \<and> er_leaseID reg \<noteq> 0 \<and>
     kv e1 = (kv e)(''/services/'' @ ec_ServiceName c @ ''/'' @ ec_ServiceName c @ ''-'' @ sid \<mapsto> (t, er_leaseID reg)) \<and>
     (\<forall>k v. kv e k \<noteq> Some (v, er_leaseID reg))"
proof -
  let ?info = "grpc_service_info sid c host port" and ?sr = "\<lparr>sr_info = None, sr_cancelled = False\<rparr>"
  let ?r0 = "\<lparr>er_leaseID = 0, er_ttl = (if ec_TTL c > 0 then ec_TTL c else 10), er_prefix = ''/services/'', er_registry = None, er_config = c\<rparr>"
  have new: "NewEtcdRegister (reparse c) dial = Returned (Inr ?r0)"
    unfolding NewEtcdRegister_def assms(5) by (simp only: option.case assms(6)[rule_format] Let_def)
  obtain reg e1 where reg: "etcd_Register cl marshal ?info ?r0 e = (None, reg, e1)" "er_registry reg = None"
    using etcd_up_register[of cl kv marshal ?info t ?r0 e] assms(2,3) by auto
  from etcd_Register_stores[OF assms(1) reg(1)] assms(3) have st: "er_leaseID reg \<noteq> 0"
    "kv e1 = (kv e)(''/services/'' @ ec_ServiceName c @ ''/'' @ ec_ServiceName c @ ''-'' @ sid \<mapsto> (t, er_leaseID reg))"
    "\<forall>k v. kv e k \<noteq> Some (v, er_leaseID reg)" by (auto simp: grpc_service_info_def)
  have "registry_Register (etcd_ops_Register cl marshal) sid (ec_ServiceName c) host port (ec_Tags c) [] ?sr (?r0, e) =
      (None, \<lparr>sr_info = Some ?info, sr_cancelled = False\<rparr>, reg, e1)"
    using reg(1) unfolding grpc_service_info_def
    by (simp add: registry_Register_def etcd_ops_Register_def)
  then have "grpc_Startup ls listen reparse dial cl marshal sid s e =
     (Returned None, s\<lparr>gs_listener := Some addr, gs_registry := Some (\<lparr>sr_info = Some ?info, sr_cancelled = False\<rparr>, reg), gs_serving := \<not> gs_stopped s\<rparr>, e1)"
    unfolding grpc_Startup_def assms(7) sum.case Let_def by (simp add: assms(4) new assms(8) NewServiceRegistry_def GetLogger_def assms(9))
  with reg(2) st show ?thesis by blast
qed


lemma grpc_Stop_deregisters:
  assumes "etcd_laws cl kv" "etcd_up cl kv" "gs_registry s = Some (\<lparr>sr_info = Some info, sr_cancelled = x\<rparr>, reg)"
    and "er_registry reg = None" "er_leaseID reg \<noteq> 0"
  shows "kv (snd (grpc_Stop cl s e)) =
    (\<lambda>k. case kv e k of Some (v, m) \<Rightarrow> if m = er_leaseID reg then None else Some (v, m) | None \<Rightarrow> None)"
proof -
  obtain e1 where rv: "et_Revoke cl (er_leaseID reg) e = (None, e1)" using assms(2) unfolding etcd_up_def by meson
  have "snd (grpc_Stop cl s e) = snd (et_Close cl e1)"
    using assms(3-5) rv by (simp add: grpc_Stop_def registry_Close_def registry_Deregister_def etcd_ops_Deregister_def
        etcd_ops_Close_def etcd_Deregister_def etcd_Close_def split_beta)
  moreover have "kv (snd (et_Close cl e1)) = kv e1" using assms(2) unfolding etcd_up_def by simp
  ultimately show ?thesis using etcd_lawsD(4)[OF assms(1) rv] by simp
qed

section \<open>Properties\<close>

text \<open>C31: a server started with etcd configured is found by the resolver: the first address list of a watch on its service
  name holds the host and port it listens on (a host without colons and brackets), and stopping the server takes its
  entry out of etcd and leaves every other key as it was before the start.\<close>

theorem started_server_is_resolved:
  assumes "etcd_laws cl kv" "etcd_up cl kv" "marshal (grpc_service_info sid c host port) = Inr t"
    and "unmarshal t = Some (grpc_service_info sid c host port)"
    and "gs_Etcd (gs_conf s) = Some c" "reparse c = Some c" "\<forall>eps d. dial eps d = None"
    and "listen (gs_ListenOn (gs_conf s)) = Inr (host @ '':'' @ itoa port)"
    and "{CHR '':'', CHR ''['', CHR '']''} \<inter> set host = {}" "0 \<le> port" "port < 2 ^ 63" "er_prefix rr = ''/services/''"
    and "ls_logger ls = Some lg"
  shows "\<exists>s1 e1 addrs rest. grpc_Startup ls listen reparse dial cl marshal sid s e = (Returned None, s1, e1) \<and>
           resolver_watch cl unmarshal (ec_ServiceName c) rr e1 states = addrs # rest \<and>
           (host @ '':'' @ itoa port, ec_ServiceName c) \<in> set addrs \<and>
           kv (snd (grpc_Stop cl s1 e1)) = (kv e)(''/services/'' @ ec_ServiceName c @ ''/'' @ ec_ServiceName c @ ''-'' @ sid := None)"
proof -
  let ?info = "grpc_service_info sid c host port"
  let ?key = "''/services/'' @ ec_ServiceName c @ ''/'' @ ec_ServiceName c @ ''-'' @ sid"
  have addr: "parseAddr (host @ '':'' @ itoa port) = (host, port)" by (rule parseAddr_plain[OF assms(9-11)])
  obtain reg e1 s1 where up: "grpc_Startup ls listen reparse dial cl marshal sid s e = (Returned None, s1, e1)"
    and reg: "gs_registry s1 = Some (\<lparr>sr_info = Some ?info, sr_cancelled = False\<rparr>, reg)" "er_registry reg = None" "er_leaseID reg \<noteq> 0"
    and kv: "kv e1 = (kv e)(?key \<mapsto> (t, er_leaseID reg))" "\<forall>k v. kv e k \<noteq> Some (v, er_leaseID reg)"
    using grpc_Startup_registers[where listen = listen and reparse = reparse and dial = dial and marshal = marshal,
        OF assms(1-3,5-8) addr assms(13), of e] by fastforce
  obtain found e2 where f: "etcd_GetService cl unmarshal (ec_ServiceName c) rr e1 = (Inr found, e2)"
  proof -
    obtain kvs e2 where "et_Get cl (er_prefix rr @ ec_ServiceName c @ ''/'') e1 = (Inr kvs, e2)"
      using assms(2) unfolding etcd_up_def by meson
    then show ?thesis using that by (simp add: etcd_GetService_def)
  qed
  have "prefix (er_prefix rr @ ec_ServiceName c @ ''/'') ?key" by (simp add: assms(12) prefix_def)
  moreover have "kv e1 ?key = Some (t, er_leaseID reg)" using kv(1) by simp
  ultimately have "?info \<in> set found"
    using etcd_GetService_set[OF assms(1) f, THEN conjunct2] assms(4) by blast
  then have mem: "(host @ '':'' @ itoa port, ec_ServiceName c) \<in> set (map resolver_address found)"
    by (force simp: resolver_address_def grpc_service_info_def)
  have watch: "\<exists>rest. resolver_watch cl unmarshal (ec_ServiceName c) rr e1 states = map resolver_address found # rest"
    using f by (simp add: resolver_watch_def etcd_Watch_def)
  have "kv (snd (grpc_Stop cl s1 e1)) = (kv e)(?key := None)"
  proof
    fix k
    show "kv (snd (grpc_Stop cl s1 e1)) k = ((kv e)(?key := None)) k"
      using kv(2)[rule_format, of k] unfolding grpc_Stop_deregisters[OF assms(1,2) reg] kv(1)
      by (cases "kv e k") auto
  qed
  with up mem watch show ?thesis by blast
qed

definition sample_etcd :: EtcdConfig where
  "sample_etcd = \<lparr>ec_Endpoints = [''127.0.0.1:2379''], ec_DialTimeout = 0, ec_TTL = 0, ec_ServiceName = ''user'', ec_Address = '''',
     ec_Port = 0, ec_Tags = []\<rparr>"

definition sample_grpc :: GrpcServer where
  "sample_grpc = \<lparr>gs_conf = \<lparr>gs_ListenOn = ''10.0.0.1:9090'', gs_Timeout = 0, gs_Etcd = Some sample_etcd\<rparr>, gs_chain = [],
     gs_listener = None, gs_registry = None, gs_serving = False, gs_stopped = False\<rparr>"

lemma mem_client_up: "etcd_up mem_client map_of"
  by (simp add: etcd_up_def mem_client_def)

theorem started_server_is_resolved_witness:
  "\<exists>s1 e1 addrs rest. grpc_Startup ready_logs Inr Some (\<lambda>_ _. None) mem_client (\<lambda>_. Inr ''x'') ''7'' sample_grpc [] = (Returned None, s1, e1) \<and>
     resolver_watch mem_client (\<lambda>_. Some (grpc_service_info ''7'' sample_etcd ''10.0.0.1'' 9090)) ''user'' sample_register e1 [] = addrs # rest \<and>
     (''10.0.0.1:9090'', ''user'') \<in> set addrs \<and> map_of (snd (grpc_Stop mem_client s1 e1)) ''/services/user/user-7'' = None"
proof -
  have i: "itoa 9090 = ''9090''"
    by (simp add: itoa_def digit_char_def char_of_def bit_0 nat_digits.simps[of 9090] nat_digits.simps[of 909] nat_digits.simps[of 90] nat_digits.simps[of 9])
  have h: "gs_Etcd (gs_conf sample_grpc) = Some sample_etcd" "(Inr (gs_ListenOn (gs_conf sample_grpc)) :: string + string) = Inr (''10.0.0.1'' @ '':'' @ itoa 9090)"
    "{CHR '':'', CHR ''['', CHR '']''} \<inter> set ''10.0.0.1'' = {}" "er_prefix sample_register = ''/services/''"
    "ls_logger ready_logs = Some \<lparr>zl_level = 0, zl_file = ''''\<rparr>"
    by (simp_all add: sample_grpc_def i sample_register_def ready_logs_def)
  show ?thesis
    using started_server_is_resolved[where marshal = "\<lambda>_. Inr ''x''" and t = "''x''" and listen = Inr and reparse = Some and
        dial = "\<lambda>_ _. None" and e = "[]" and sid = "''7''" and
        unmarshal = "\<lambda>_. Some (grpc_service_info ''7'' sample_etcd ''10.0.0.1'' 9090)",
        OF mem_client_laws mem_client_up _ _ h(1) _ _ h(2,3) _ _ h(4,5), of "[]"]
    by (fastforce simp: i sample_etcd_def)
qed

text \<open>an address with an IPv6 host, as net.Listen reports it for a listener on every interface, is registered with the bare
  host; the text the resolver makes of it, host colon port without brackets, is no valid address.\<close>

theorem ipv6_listener_unreachable:
  assumes "CHR '':'' \<in> set host" "{CHR ''['', CHR '']''} \<inter> set host = {}" "0 \<le> port" "port < 2 ^ 63"
  shows "parseAddr (''['' @ host @ '']:'' @ itoa port) = (host, port) \<and>
         SplitHostPort (fst (resolver_address (grpc_service_info sid c host port))) = None"
proof
  have "SplitHostPort (''['' @ host @ '']:'' @ itoa port) = Some (host, itoa port)"
    using assms(2) itoa_no_mark[of port] by (intro SplitHostPort_bracket) auto
  then show "parseAddr (''['' @ host @ '']:'' @ itoa port) = (host, port)"
    using atoi_itoa_nonneg[OF assms(3,4)] by (simp add: parseAddr_def)
  have h: "host \<noteq> '''' \<longrightarrow> hd host \<noteq> CHR ''[''" using assms(2) by (cases host) auto
  show "SplitHostPort (fst (resolver_address (grpc_service_info sid c host port))) = None"
    using SplitHostPort_plain[OF h, of "itoa port"] assms(1) itoa_no_mark[of port]
    by (simp add: resolver_address_def grpc_service_info_def)
qed

theorem ipv6_listener_unreachable_witness:
  "parseAddr ''[::]:80'' = (''::'', 80) \<and> SplitHostPort (fst (resolver_address (grpc_service_info ''7'' sample_etcd ''::'' 80))) = None"
proof -
  have "itoa 80 = ''80''" by (simp add: itoa_def digit_char_def char_of_def bit_0 nat_digits.simps[of 80] nat_digits.simps[of 8])
  then show ?thesis using ipv6_listener_unreachable[of "''::''" 80 "''7''" sample_etcd] by simp
qed

definition a_span :: "string \<Rightarrow> string option \<Rightarrow> bool \<Rightarrow> span" where
  "a_span name err ended = \<lparr>sp_name = name, sp_error = err, sp_ended = ended\<rparr>"

definition refusal :: "'e rpc_error" where "refusal = Unavailable ''circuit breaker is open''"


definition sample_table :: "int \<Rightarrow> http_breakers" where
  "sample_table n = \<lparr>hb_map = [''/user/Get'' \<mapsto> 0], hb_heap = [sample_breaker 0 n]\<rparr>"

lemma sample_table_breaker:
  "getBreaker t ''/user/Get'' (sample_table n) = Some (0, sample_table n)"
  "Allow 7 (1 / 2) (hb_heap (sample_table 0) ! 0) = Some (None, sample_breaker 0 0)"
proof -
  have "breaker_accept 7 (1 / 2) (sample_breaker 0 0) = Some (True, sample_breaker 0 0)"
    unfolding breaker_accept_decides[OF sample_breaker_advance[of 0 0]] by (simp add: window_view_def ring_view_def sample_breaker_def)
  then show "Allow 7 (1 / 2) (hb_heap (sample_table 0) ! 0) = Some (None, sample_breaker 0 0)"
    by (simp add: Allow_def sample_table_def)
qed (simp add: getBreaker_def get_or_create_def sample_table_def)


end
