(* ===== verification/Request_Path.thy ===== *)
theory Request_Path
  imports Http_Server Token_Crypto
begin

section \<open>The path of a request\<close>

text \<open>
  How \<open>NewHttpServer\<close> and the middleware work together: the chain of handlers that gin combined for a route, run on one
  request. Each link calls the rest of the chain with \<open>c.Next()\<close> or aborts. The middleware of the configuration are
  those of \<open>Http_Middleware\<close>, with their calls into \<open>conf\<close>, \<open>jwt\<close>, \<open>redis\<close> and \<open>logs\<close> bound to the models of these packages;
  \<open>gin.Recovery\<close> is an argument by what it does to the context of a request that panicked, and so is the middleware
  the application adds with \<open>Use\<close> or \<open>AddGroup\<close>.
\<close>

definition Recovery :: "(gin_ctx \<Rightarrow> gin_ctx) \<Rightarrow> 'w gin_next \<Rightarrow> gin_ctx \<Rightarrow> 'w \<Rightarrow> unit outcome \<times> gin_ctx \<times> 'w" where
  "Recovery recovered next c w =
     (case next c w of (Panicked, c, w) \<Rightarrow> (Returned (), recovered c, w) | (Returned u, c, w) \<Rightarrow> (Returned u, c, w))"

record ('m, 'w) request_env =
  re_recovered :: "gin_ctx \<Rightarrow> gin_ctx"
  re_logger :: bool
  re_pretty :: "string \<Rightarrow> string option"
  re_ids :: "nat option \<Rightarrow> string \<times> string"
  re_ipv6 :: "string \<Rightarrow> bool"
  re_access :: "(http_io \<times> 'w) access_env"
  re_user :: "'m \<Rightarrow> (http_io \<times> 'w) gin_next \<Rightarrow> (http_io \<times> 'w) gin_next"

fun stage :: "('m, 'w) request_env \<Rightarrow> 'm middleware \<Rightarrow> (http_io \<times> 'w) gin_next \<Rightarrow> (http_io \<times> 'w) gin_next" where
  "stage env MwRecovery = Recovery (re_recovered env)"
| "stage env MwCors = Cors"
| "stage env MwRequest = Request (re_logger env) (re_pretty env) (re_ids env)"
| "stage env MwAccess = Access (re_ipv6 env) (re_access env)"
| "stage env (MwUser m) = re_user env m"

definition run_chain :: "('m, 'w) request_env \<Rightarrow> 'm middleware list \<Rightarrow> (http_io \<times> 'w) gin_next \<Rightarrow> (http_io \<times> 'w) gin_next" where
  "run_chain env chain handler = foldr (stage env) chain handler"

text \<open>The packages behind \<open>Access\<close> in a running application. \<open>redis_get\<close> is \<open>Get\<close> of a go-redis client on the state of the server.\<close>

record 'r app_state =
  ap_conf :: conf_state
  ap_redis :: redis_singletons
  ap_mw :: mw_singletons
  ap_rest :: 'r

definition app_access ::
  "log_state \<Rightarrow> (conf_value \<Rightarrow> string) \<Rightarrow> (string \<Rightarrow> string) \<Rightarrow> (string \<Rightarrow> string + viper) \<Rightarrow> jwt_lib \<Rightarrow> go_time \<Rightarrow>
     (redis_client \<Rightarrow> string \<Rightarrow> 'r \<Rightarrow> string option \<times> 'r) \<Rightarrow> (http_io \<times> 'r app_state) access_env" where
  "app_access ls cast getenv load lib now redis_get =
     \<lparr>ae_initRedisClient = (\<lambda>(io, a). let (r, mw, rs) = initRedisClient ls (ap_mw a, ap_redis a)
                                     in (r, io, a\<lparr>ap_mw := mw, ap_redis := rs\<rparr>)),
      ae_GetAppName = (\<lambda>(io, a). let (r, cs) = GetAppName cast getenv load (ap_conf a) in (r, io, a\<lparr>ap_conf := cs\<rparr>)),
      ae_GetAppVersion = (\<lambda>(io, a). let (r, cs) = GetAppVersion cast getenv load (ap_conf a) in (r, io, a\<lparr>ap_conf := cs\<rparr>)),
      ae_JWTDecrypt = JWTDecrypt lib now,
      ae_GetRedisDb = (\<lambda>(io, a). let (r, rs) = GetRedisDb (ap_redis a)
         in (case r of
               Panicked \<Rightarrow> Panicked
             | Returned con \<Rightarrow> Returned (map_option (\<lambda>cl key (io, a). let (v, s) = redis_get cl key (ap_rest a)
                                                                     in (v, io, a\<lparr>ap_rest := s\<rparr>)) con),
             io, a\<lparr>ap_redis := rs\<rparr>))\<rparr>"

section \<open>Lemmas\<close>

lemma run_chain_append: "run_chain env (xs @ ys) h = run_chain env xs (run_chain env ys h)"
  by (simp add: run_chain_def)

lemma run_configured:
  "run_chain env (configured config @ rest) h = Recovery (re_recovered env)
     ((if hc_Cors config then Cors else (\<lambda>n. n))
       ((if hc_RequestLog config then Request (re_logger env) (re_pretty env) (re_ids env) else (\<lambda>n. n))
         ((if hc_Access config then Access (re_ipv6 env) (re_access env) else (\<lambda>n. n)) (run_chain env rest h))))"
  by (simp add: configured_def run_chain_def)

lemma Recovery_ctx:
  "next c w = (r, c', w') \<Longrightarrow> Recovery recovered next c w = (Returned (), if r = Panicked then recovered c' else c', w')"
  by (cases r) (simp_all add: Recovery_def)

lemma Recovery_returns: "fst (Recovery recovered next c w) = Returned ()"
  by (metis Recovery_ctx fst_conv prod_cases3)

lemma authorized_cong:
  "gc_header c = gc_header c' \<Longrightarrow> gc_ClientIP c = gc_ClientIP c' \<Longrightarrow> authorized ipv6 env c w = authorized ipv6 env c' w"
  by (simp add: authorized_def)

lemma Cors_preflight:
  assumes "gc_Method c = ''OPTIONS''"
  shows "\<exists>c1. gc_status c1 = 204 \<and> gc_aborted c1 \<and> (\<forall>next w. Cors next c w = (Returned (), c1, w))"
  using assms by (intro exI[of _ "fst (snd (Cors (\<lambda>c w. (Returned (), c, w)) c ()))"]) (simp add: Cors_def set_header_def Let_def)

lemma Cors_passes:
  assumes "gc_Method c \<noteq> ''OPTIONS''"
  shows "\<exists>c1. gc_header c1 = gc_header c \<and> gc_ClientIP c1 = gc_ClientIP c \<and> gc_Method c1 = gc_Method c \<and> (\<forall>next w. Cors next c w = next c1 w)"
  using assms by (intro exI[of _ "fst (snd (Cors (\<lambda>c w. (Returned (), c, w)) c ()))"]) (simp add: Cors_def set_header_def Let_def)

lemma Request_ctx:
  assumes "n c st = (r, c1, st1)"
  shows "\<exists>r' st'. Request logger pretty ids n c st = (r', c1, st') \<and> (r = Panicked \<longrightarrow> r' = Panicked)"
  using assms by (cases st; cases r) (simp_all add: Request_def Let_def split: prod.split)

text \<open>The log middleware reads the body and then only what the rest of the chain answers.\<close>

lemma Request_cong:
  "n c (io, a) = n' c (io, a') \<Longrightarrow> Request logger pretty ids n c (io, a) = Request logger pretty ids n' c (io, a')"
  by (simp add: Request_def)

lemma cors_stage:
  assumes "\<not> (cors \<and> gc_Method c = ''OPTIONS'')"
  shows "\<exists>c1. gc_header c1 = gc_header c \<and> gc_ClientIP c1 = gc_ClientIP c \<and>
    (\<forall>n w. (if cors then Cors else (\<lambda>n. n)) n c w = n c1 w)"
  using Cors_passes[of c] assms by (cases cors) auto

lemma unauthorized_blocked:
  fixes env :: "('m, 'w) request_env"
  assumes "hc_Access config" "\<not> (hc_Cors config \<and> gc_Method c = ''OPTIONS'')" "\<not> authorized (re_ipv6 env) (re_access env) c st"
  shows "\<exists>c' st'. (\<forall>h. run_chain env (configured config @ rest) h c st = (Returned (), c', st')) \<and>
    (gc_aborted c' \<and> gc_status c' = 401 \<or> c' \<in> range (re_recovered env))"
proof -
  let ?A = "Access (re_ipv6 env) (re_access env)" and ?L = "Request (re_logger env) (re_pretty env) (re_ids env)"
  obtain io a where st: "st = (io, a)" by fastforce
  obtain c1 where c1: "gc_header c1 = gc_header c" "gc_ClientIP c1 = gc_ClientIP c"
    and cors: "\<And>n (w :: http_io \<times> 'w). (if hc_Cors config then Cors else (\<lambda>n. n)) n c w = n c1 w" using cors_stage[OF assms(2)] by blast
  have "\<not> authorized (re_ipv6 env) (re_access env) c1 st" using assms(3) by (simp add: authorized_cong[OF c1])
  then obtain r c2 st2 where A: "\<And>n. ?A n c1 st = (r, c2, st2)" "r = Panicked \<or> gc_aborted c2 \<and> gc_status c2 = 401"
    using Access_shape[of "re_ipv6 env" "re_access env" c1 st] by metis
  obtain r1 st1 where L1: "?L (?A n0) c1 st = (r1, c2, st1)" "r = Panicked \<longrightarrow> r1 = Panicked" for n0
  proof -
    obtain r1 st1 where L0: "?L (?A undefined) c1 st = (r1, c2, st1)" "r = Panicked \<longrightarrow> r1 = Panicked"
      using Request_ctx[where n = "?A undefined" and c = c1 and st = st] A(1) by blast
    have "?L (?A n0) c1 st = ?L (?A undefined) c1 st" for n0
      unfolding st by (rule Request_cong) (use A(1) in \<open>simp add: st\<close>)
    with L0 show ?thesis using that by simp
  qed
  obtain r3 st3 where "\<And>n. (if hc_RequestLog config then ?L else (\<lambda>n. n)) (?A n) c1 st = (r3, c2, st3)" "r = Panicked \<longrightarrow> r3 = Panicked"
    using A(1) L1 by (cases "hc_RequestLog config") auto
  then have "run_chain env (configured config @ rest) h c st = (Returned (), if r3 = Panicked then re_recovered env c2 else c2, st3)" for h
    unfolding run_configured by (intro Recovery_ctx) (simp add: assms(1) cors)
  then show ?thesis using A(2) \<open>r = Panicked \<longrightarrow> r3 = Panicked\<close> by auto
qed

lemma preflight_blocked:
  fixes env :: "('m, 'w) request_env"
  assumes "hc_Cors config" "gc_Method c = ''OPTIONS''"
  shows "\<exists>c'. gc_status c' = 204 \<and> gc_aborted c' \<and> (\<forall>h. run_chain env (configured config @ rest) h c st = (Returned (), c', st))"
proof -
  obtain c1 where c1: "gc_status c1 = 204" "gc_aborted c1" "\<And>n (w :: http_io \<times> 'w). Cors n c w = (Returned (), c1, w)"
    using Cors_preflight[OF assms(2)] by metis
  have "run_chain env (configured config @ rest) h c st = (Returned (), if Returned () = Panicked then re_recovered env c1 else c1, st)" for h
    unfolding run_configured by (intro Recovery_ctx) (simp add: assms(1) c1(3))
  with c1(1,2) show ?thesis by auto
qed

lemma route_chain:
  assumes "built accepts join config m" "(r, chain) \<in> set (hs_routes m)"
  obtains rest where "chain = configured config @ rest"
  using built_wf[OF assms(1)] assms(2) by (auto simp: server_wf_def list_all_iff route_ok_def prefix_def)

text \<open>The token check of the application: what decides is whether the token decodes now and is the one Redis holds.\<close>

lemma app_token_check:
  assumes "jwt_laws lib" "j = JWTEncryptWithExpiry lib t0 uid tok (app @ ''-'' @ ver) expiry"
    and "cs_appName (ap_conf a) = app" "cs_appVer (ap_conf a) = ver" "app \<noteq> ''''" "ver \<noteq> ''''"
    and "GetRedisDb (ap_redis a) = (Returned (Some cl), ap_redis a)"
    and "redis_get cl (app @ '':user:token:'' @ uid) (ap_rest a) = (Some stored, s')"
  shows "token_check (app_access ls cast getenv load lib now redis_get) j (io, a) =
    (if NewNumericDate (t0 + expiry) \<le> now then (Returned (Inl ''jwt parse error''), io, a)
     else if stored = tok then (Returned (Inr ()), io, a\<lparr>ap_rest := s'\<rparr>)
     else (Returned (Inl ''account is logged in elsewhere''), io, a\<lparr>ap_rest := s'\<rparr>))"
proof -
  note rt = JWT_roundtrip[OF assms(1), where ?t0.0 = t0 and uid = uid and tok = tok and secret = "app @ ''-'' @ ver" and expiry = expiry]
  have same: "a\<lparr>ap_conf := ap_conf a\<rparr> = a" "a\<lparr>ap_redis := ap_redis a\<rparr> = a" by (cases a; simp)+
  have names: "GetAppName cast getenv load (ap_conf a) = (Returned app, ap_conf a)"
    "GetAppVersion cast getenv load (ap_conf a) = (Returned ver, ap_conf a)"
    using assms(3-6) by (simp_all add: GetAppName_def GetAppVersion_def conf_read_def)
  show ?thesis
  proof (cases "NewNumericDate (t0 + expiry) \<le> now")
    case True
    from rt(3)[OF True] show ?thesis using True names assms(2) by (simp add: token_check_def app_access_def same)
  next
    case False
    then obtain claims where c: "JWTDecrypt lib now j (app @ ''-'' @ ver) = Some claims"
      "claims ''id'' = Some (ClaimStr uid)" "claims ''token'' = Some (ClaimStr tok)"
      using rt(2)[of now] assms(2) by auto
    then show ?thesis using False names assms(7,8) by (simp add: token_check_def app_access_def same)
  qed
qed

section \<open>Properties\<close>

text \<open>C39: on a server made from a configuration, every route, whenever it was registered, answers every request: a panic of the
  handler or of any middleware is recovered. With access control switched on the handler of a route and the middleware the application
  added are never run for a caller who is not authorized: the answer is 401, or that of the recovery, whatever the
  handler is. With cross-origin requests switched on a preflight request is answered 204 before the log, the access control and
  the handler, and changes no state.\<close>

theorem every_route_is_guarded:
  assumes "built accepts join config m" "(r, chain) \<in> set (hs_routes m)"
  shows "fst (run_chain env chain h c st) = Returned () \<and>
    (hc_Cors config \<and> gc_Method c = ''OPTIONS'' \<longrightarrow>
       (\<exists>c'. gc_status c' = 204 \<and> gc_aborted c' \<and> (\<forall>h. run_chain env chain h c st = (Returned (), c', st)))) \<and>
    (hc_Access config \<and> \<not> (hc_Cors config \<and> gc_Method c = ''OPTIONS'') \<and> \<not> authorized (re_ipv6 env) (re_access env) c st \<longrightarrow>
       (\<exists>c' st'. (\<forall>h. run_chain env chain h c st = (Returned (), c', st')) \<and>
          (gc_aborted c' \<and> gc_status c' = 401 \<or> c' \<in> range (re_recovered env))))"
proof -
  obtain rest where chain: "chain = configured config @ rest" using route_chain[OF assms] .
  show ?thesis unfolding chain
    using preflight_blocked[of config c env rest st] unauthorized_blocked[of config c env st rest]
    by (simp add: run_configured Recovery_returns del: split_paired_Ex)
qed

definition sample_env :: "(unit, unit) request_env" where
  "sample_env = \<lparr>re_recovered = (\<lambda>c. c\<lparr>gc_aborted := True, gc_status := 500\<rparr>), re_logger = True, re_pretty = (\<lambda>_. None),
     re_ids = (\<lambda>_. ('''', '''')), re_ipv6 = (\<lambda>_. False),
     re_access = \<lparr>ae_initRedisClient = (\<lambda>w. (Returned (), w)), ae_GetAppName = (\<lambda>w. (Returned ''app'', w)),
       ae_GetAppVersion = (\<lambda>w. (Returned ''1'', w)), ae_JWTDecrypt = (\<lambda>_ _. None), ae_GetRedisDb = (\<lambda>w. (Returned None, w))\<rparr>,
     re_user = (\<lambda>_ n. n)\<rparr>"

definition guarded_config :: HttpServerConfig where
  "guarded_config = \<lparr>hc_Port = 80, hc_Address = ''0.0.0.0'', hc_Path = ''/v1'', hc_Cors = True, hc_RequestLog = True,
     hc_Access = True, hc_WorkerID = 1\<rparr>"

definition sample_io :: http_io where
  "sample_io = \<lparr>io_body = Inr '''', io_writes = [], io_log = []\<rparr>"

theorem every_route_is_guarded_witness:
  "\<exists>m :: (string, unit) HttpServer. \<exists>r chain c' st'. (r, chain) \<in> set (hs_routes m) \<and>
     (\<forall>h. run_chain sample_env chain h (sample_ctx\<lparr>gc_ClientIP := ''unix''\<rparr>) (sample_io, ()) = (Returned (), c', st')) \<and>
     (gc_aborted c' \<and> gc_status c' = 401 \<or> c' \<in> range (re_recovered sample_env))"
proof -
  let ?j = "url_JoinPath Some (\<lambda>q. q)" and ?c = "sample_ctx\<lparr>gc_ClientIP := ''unix''\<rparr>"
  obtain m0 :: "(string, unit) HttpServer" where
    m0: "fst (NewHttpServer ready_logs (Some guarded_config) (\<lambda>_ w. w) (fresh_mw, ())) = Returned (Inr m0)" and r0: "hs_routes m0 = []"
    by (simp add: NewHttpServer_def guarded_config_def ready_logs_def GetLogger_def initLogger_def fresh_mw_def)
  let ?m = "snd (Handle (\<lambda>_ _. True) ?j ''GET'' ''users'' ''h'' m0)"
  have b: "built (\<lambda>_ _. True) ?j guarded_config ?m" by (intro built_handle built_new[OF m0])
  have "hs_routes ?m \<noteq> []" by (simp add: Handle_def engine_add_def)
  then obtain r chain where rc: "(r, chain) \<in> set (hs_routes ?m)" by (metis list.set_intros(1) neq_Nil_conv surj_pair)
  have g: "hc_Access guarded_config" "gc_Method ?c \<noteq> ''OPTIONS''" "\<not> authorized (re_ipv6 sample_env) (re_access sample_env) ?c (sample_io, ())"
    by (simp_all add: guarded_config_def sample_ctx_def authorized_def sample_env_def IsInnerIp_def CheckIp_def)
  from every_route_is_guarded[OF b rc, of sample_env undefined ?c "(sample_io, ())"] g rc show ?thesis by blast
qed


definition sample_app :: "unit app_state" where
  "sample_app = \<lparr>ap_conf = \<lparr>cs_vp = None, cs_config = Map.empty, cs_appName = ''app'', cs_appVer = ''1'', cs_redisKey = ''k'', cs_once = True,
       cs_initErr = None\<rparr>,
     ap_redis = \<lparr>rs_config = [], rs_once = True, rs_manager = None, rs_redisCon = Some (SingleClient ''r:6379'' 0 10 0)\<rparr>,
     ap_mw = fresh_mw, ap_rest = ()\<rparr>"

definition app_env :: "go_time \<Rightarrow> (unit, unit app_state) request_env" where
  "app_env now = \<lparr>re_recovered = (\<lambda>c. c\<lparr>gc_aborted := True, gc_status := 500\<rparr>), re_logger = True, re_pretty = (\<lambda>_. None),
     re_ids = (\<lambda>_. ('''', '''')), re_ipv6 = (\<lambda>_. False),
     re_access = app_access ready_logs (\<lambda>_. '''') (\<lambda>_. '''') (\<lambda>_. Inl '''') toy_jwt now (\<lambda>cl k s. (Some ''tok'', s)), re_user = (\<lambda>_ n. n)\<rparr>"


end
