(* ===== verification/Leader_Run.thy ===== *)
theory Leader_Run
  imports Gateway
begin

section \<open>The run of a leader controller\<close>

text \<open>
  Models \<open>run\<close> of \<open>register/apisix_leader.go\<close>: what a controller does between \<open>Start\<close> and the end of the election.
  The elector of client-go decides when the callbacks run; it is a parameter, the list of what happens in order. It runs the
  start callback on a goroutine of its own, so that the events of its reconcile loop and the stop callback may come in any
  order. The state is the controller with the gateway it shares and the admin API behind the transport.
\<close>

datatype lead_event =
    StartedLeading
  | TickerFired
  | LeadCtxDone
  | StoppedLeading
  | ElectionPanic

type_synonym 's lead_state = "apisixLeaderController \<times> ApisixGateway \<times> 's"

text \<open>One registration of the service of the controller. Its error is only printed; \<^term>\<open>None\<close> is the panic of a
  service without an upstream, which no one recovers on that goroutine.\<close>

definition reconcile :: "'s transport \<Rightarrow> 's lead_state \<Rightarrow> 's lead_state option" where
  "reconcile send = (\<lambda>(c, a, s).
     case registerServiceDirect send (lc_service c) a s of
       None \<Rightarrow> None
     | Some (err, a, s) \<Rightarrow> Some (c, a, s))"

definition OnStartedLeading :: "'s transport \<Rightarrow> 's lead_state \<Rightarrow> 's lead_state option" where
  "OnStartedLeading send = (\<lambda>(c, a, s). reconcile send (c\<lparr>lc_isLeader := True\<rparr>, a, s))"

text \<open>\<open>looping\<close> says that the loop of the start callback is running; a tick without it has no receiver. A panic of the
  elector is recovered by \<open>run\<close>, which clears the flag.\<close>

fun controller_run :: "'s transport \<Rightarrow> lead_event list \<Rightarrow> bool \<Rightarrow> 's lead_state \<Rightarrow> 's lead_state option" where
  "controller_run send [] looping st = Some st"
| "controller_run send (StartedLeading # es) looping st =
     (case OnStartedLeading send st of None \<Rightarrow> None | Some st \<Rightarrow> controller_run send es True st)"
| "controller_run send (TickerFired # es) looping st =
     (case (if looping then reconcile send st else Some st) of
        None \<Rightarrow> None
      | Some st \<Rightarrow> controller_run send es looping st)"
| "controller_run send (LeadCtxDone # es) looping st = controller_run send es False st"
| "controller_run send (StoppedLeading # es) looping (c, a, s) = controller_run send es looping (OnStoppedLeading c, a, s)"
| "controller_run send (ElectionPanic # es) looping (c, a, s) = controller_run send es looping (c\<lparr>lc_isLeader := False\<rparr>, a, s)"

section \<open>Lemmas\<close>

subsection \<open>What the events decide\<close>

text \<open>The flag is what the last callback wrote, the loop runs until its context is done.\<close>

fun flag_event :: "lead_event \<Rightarrow> bool \<Rightarrow> bool" where
  "flag_event StartedLeading f = True"
| "flag_event StoppedLeading f = False"
| "flag_event ElectionPanic f = False"
| "flag_event TickerFired f = f"
| "flag_event LeadCtxDone f = f"

fun loop_event :: "lead_event \<Rightarrow> bool \<Rightarrow> bool" where
  "loop_event StartedLeading l = True"
| "loop_event LeadCtxDone l = False"
| "loop_event StoppedLeading l = l"
| "loop_event ElectionPanic l = l"
| "loop_event TickerFired l = l"

text \<open>The order an election keeps when its start callback is not overtaken: the stop callback runs at the end and no
  start callback comes after it.\<close>

definition stopped_last :: "lead_event list \<Rightarrow> bool" where
  "stopped_last es \<longleftrightarrow> (\<exists>es1 es2. es = es1 @ StoppedLeading # es2 \<and> StartedLeading \<notin> set es2)"

lemma flag_event_down: "StartedLeading \<notin> set es \<Longrightarrow> \<not> fold flag_event es False"
proof (induction es)
  case (Cons e es)
  then show ?case by (cases e) auto
qed simp

lemma stopped_last_flag: "stopped_last es \<Longrightarrow> \<not> fold flag_event es f"
  using flag_event_down by (fastforce simp: stopped_last_def)

subsection \<open>Registrations leave the rest of the gateway alone, also when they fail\<close>

lemma register_routes_frame:
  assumes "admin_store send stored"
  shows "register_routes send k i routes errs a s = (errs', a', s') \<Longrightarrow>
    ag_config a' = ag_config a \<and>
    (\<forall>u. (\<forall>j < length routes. u \<noteq> resource_url a ''routes'' (route_id k (i + j))) \<longrightarrow> stored s' u = stored s u)"
proof (induction routes arbitrary: i errs a s)
  case (Cons route routes)
  obtain err s1 where p: "putResource send a ''routes'' (route_id k i) (route_body k route) s = (err, s1)" by fastforce
  let ?u = "\<lambda>j. resource_url a ''routes'' (route_id k (i + j))"
  obtain a1 errs1 where r: "register_routes send k (Suc i) routes errs1 a1 s1 = (errs', a', s')" and
      c: "ag_config a1 = ag_config a"
    using Cons.prems p by (auto simp: Let_def split: option.splits prod.splits)
  have url: "resource_url a1 ''routes'' (route_id k (Suc i + j)) = ?u (Suc j)" for j
    using resource_url_config[OF c] by simp
  have "stored s' u = stored s u" if "\<forall>j < length (route # routes). u \<noteq> ?u j" for u
  proof -
    have "u \<noteq> ?u 0" "\<forall>j < length routes. u \<noteq> ?u (Suc j)" using that by force+
    then show ?thesis using Cons.IH[OF r] putResource_stores(2)[OF assms p] unfolding url by auto
  qed
  then show ?case using Cons.IH[OF r] c by simp
qed simp

lemma registerServiceDirect_frame:
  assumes "admin_store send stored" "registerServiceDirect send svc a s = Some (err, a', s')"
  shows "ag_config a' = ag_config a" "v \<notin> service_urls a svc \<Longrightarrow> stored s' v = stored s v"
proof -
  let ?k = "gs_ID svc" and ?a = "a\<lparr>ag_routeIDs := (ag_routeIDs a)(gs_ID svc \<mapsto> [])\<rparr>"
  obtain u where u: "gs_Upstream svc = Some u" using assms(2) by (cases "gs_Upstream svc") (auto simp: registerServiceDirect_def)
  obtain e s1 where p: "putResource send a ''upstreams'' ?k (toUpstreamBody u (gs_Name svc)) s = (e, s1)" by fastforce
  obtain errs a2 s2 where r: "register_routes send ?k 0 (gs_Routes svc) [] ?a s1 = (errs, a2, s2)" by (metis prod_cases3)
  have url: "resource_url ?a q i = resource_url a q i" for q i by (simp add: resource_url_def)
  have "a' = a \<and> s' = s1 \<or> a' = a2 \<and> s' = s2"
    using assms(2) u p r by (auto simp: registerServiceDirect_def Let_def split: option.splits if_splits)
  moreover note f = register_routes_frame[OF assms(1) r, unfolded url] putResource_stores(2)[OF assms(1) p]
  ultimately show "ag_config a' = ag_config a" by auto
  assume "v \<notin> service_urls a svc"
  then have "v \<noteq> resource_url a ''upstreams'' ?k" "\<forall>j < length (gs_Routes svc). v \<noteq> resource_url a ''routes'' (route_id ?k j)"
    by (auto simp: service_urls_def)
  then have "stored s1 v = stored s v" "stored s2 v = stored s1 v" using f by auto
  then show "stored s' v = stored s v" using \<open>a' = a \<and> s' = s1 \<or> a' = a2 \<and> s' = s2\<close> by auto
qed

subsection \<open>Runs\<close>

lemma reconcile_SomeD:
  assumes "reconcile send (c, a, s) = Some st"
  obtains err a' s' where "registerServiceDirect send (lc_service c) a s = Some (err, a', s')" "st = (c, a', s')"
  using assms by (auto simp: reconcile_def split: option.splits prod.splits)

lemma controller_run_append:
  "controller_run send (es1 @ es2) looping st =
     (case controller_run send es1 looping st of
        None \<Rightarrow> None
      | Some st1 \<Rightarrow> controller_run send es2 (fold loop_event es1 looping) st1)"
  by (induction send es1 looping st rule: controller_run.induct) (auto split: option.splits)

text \<open>Every event keeps the service and the address of the gateway and moves the flag by \<^const>\<open>flag_event\<close>.\<close>

abbreviation lead_keeps :: "('s \<Rightarrow> string \<rightharpoonup> json) \<Rightarrow> 's lead_state \<Rightarrow> bool \<Rightarrow> 's lead_state \<Rightarrow> bool" where
  "lead_keeps stored st f st' \<equiv> (case st of (c, a, s) \<Rightarrow> case st' of (c', a', s') \<Rightarrow>
     lc_isLeader c' = f \<and> lc_service c' = lc_service c \<and> ag_config a' = ag_config a \<and>
     (\<forall>v. v \<notin> service_urls a (lc_service c) \<longrightarrow> stored s' v = stored s v))"

lemma service_urls_config: "ag_config a = ag_config b \<Longrightarrow> service_urls a svc = service_urls b svc"
  by (simp add: service_urls_def resource_url_config[of a b])

lemma reconcile_keeps:
  assumes "admin_store send stored" "reconcile send (c, a, s) = Some st"
  shows "lead_keeps stored (c, a, s) (lc_isLeader c) st"
proof (rule reconcile_SomeD[OF assms(2)])
  fix err a' s'
  assume r: "registerServiceDirect send (lc_service c) a s = Some (err, a', s')" and st: "st = (c, a', s')"
  show ?thesis unfolding st using registerServiceDirect_frame[OF assms(1) r] by simp
qed

lemma controller_run_keeps:
  assumes "admin_store send stored"
  shows "controller_run send es looping (c, a, s) = Some st \<Longrightarrow>
    lead_keeps stored (c, a, s) (fold flag_event es (lc_isLeader c)) st"
proof (induction es arbitrary: looping c a s)
  case (Cons e es)
  obtain l c1 a1 s1 where r: "controller_run send es l (c1, a1, s1) = Some st" and
      k: "lead_keeps stored (c, a, s) (flag_event e (lc_isLeader c)) (c1, a1, s1)"
  proof (cases e)
    case StartedLeading
    with Cons.prems obtain st1 where "reconcile send (c\<lparr>lc_isLeader := True\<rparr>, a, s) = Some st1" "controller_run send es True st1 = Some st"
      by (auto simp: OnStartedLeading_def split: option.splits)
    with reconcile_keeps[OF assms, of "c\<lparr>lc_isLeader := True\<rparr>" a s st1] StartedLeading show ?thesis
      by (cases st1) (rule that, auto)
  next
    case TickerFired
    show ?thesis
    proof (cases looping)
      case True
      with Cons.prems TickerFired obtain st1 where "reconcile send (c, a, s) = Some st1" "controller_run send es looping st1 = Some st"
        by (auto split: option.splits)
      with reconcile_keeps[OF assms, of c a s st1] TickerFired show ?thesis by (cases st1) (rule that, auto)
    qed (use Cons.prems TickerFired that in auto)
  qed (use Cons.prems that in \<open>auto simp: OnStoppedLeading_def\<close>)
  then have "service_urls a1 (lc_service c1) = service_urls a (lc_service c)" by (simp add: service_urls_config[of a1 a])
  with Cons.IH[OF r] k show ?case by (auto split: prod.splits)
qed auto

text \<open>Without the start callback nothing is sent.\<close>

lemma follower_silent:
  "StartedLeading \<notin> set es \<Longrightarrow> \<exists>c'. controller_run send es False (c, a, s) = Some (c', a, s)"
proof (induction es arbitrary: c)
  case (Cons e es)
  then show ?case by (cases e) auto
qed simp

lemma run_returns:
  "gs_Upstream (lc_service c) \<noteq> None \<Longrightarrow> \<exists>st. controller_run send es looping (c, a, s) = Some st"
proof (induction es arbitrary: looping c a s)
  case (Cons e es)
  have "\<exists>a1 s1. reconcile send (c0, a, s) = Some (c0, a1, s1)" if "lc_service c0 = lc_service c" for c0
    using Cons.prems that by (auto simp: reconcile_def registerServiceDirect_def Let_def split: option.splits prod.splits)
  from this[of c] this[of "c\<lparr>lc_isLeader := True\<rparr>"] Cons show ?case
    by (cases e) (auto simp: OnStartedLeading_def OnStoppedLeading_def)
qed simp

text \<open>What a successful registration leaves behind in the admin API.\<close>

definition service_stored :: "('s \<Rightarrow> string \<rightharpoonup> json) \<Rightarrow> ApisixGateway \<Rightarrow> GatewayService \<Rightarrow> 's \<Rightarrow> bool" where
  "service_stored stored a svc s \<longleftrightarrow>
     (case gs_Upstream svc of
        None \<Rightarrow> False
      | Some u \<Rightarrow> stored s (resource_url a ''upstreams'' (gs_ID svc)) = Some (toUpstreamBody u (gs_Name svc))) \<and>
     (\<forall>j < length (gs_Routes svc). stored s (resource_url a ''routes'' (route_id (gs_ID svc) j)) =
        Some (route_body (gs_ID svc) (gs_Routes svc ! j)))"

lemma tick_restores:
  assumes "admin_store send stored" "controller_run send es False (c, a, s) = Some (c', a', s')"
    "fold loop_event es False" "registerServiceDirect send (lc_service c) a' s' = Some (None, a2, s2)"
  shows "controller_run send (es @ [TickerFired]) False (c, a, s) = Some (c', a2, s2)" "service_stored stored a (lc_service c) s2"
proof -
  note k = controller_run_keeps[OF assms(1,2)]
  then have svc: "lc_service c' = lc_service c" and cfg: "ag_config a' = ag_config a" by simp_all
  show "controller_run send (es @ [TickerFired]) False (c, a, s) = Some (c', a2, s2)"
    using assms(2-4) by (simp add: controller_run_append reconcile_def svc)
  show "service_stored stored a (lc_service c) s2"
    using registerServiceDirect_stores[OF assms(1,4)]
    by (auto simp: service_stored_def resource_url_config[OF cfg] split: option.splits)
qed

section \<open>Property\<close>

text \<open>C18: Whatever the order of the events of an election, the run of a controller whose service has an upstream ends and its
  leader flag is what the last callback wrote: down when the stop callback was not overtaken by the start callback, up for
  good when it was. It touches only the upstream and the routes of its service, also when registrations fail; a pod that was
  never elected sends nothing; while the loop lives, one tick whose registration succeeds restores the upstream and every
  route. After a stop in order, deregistering the service sends nothing, even with the option to deregister on shutdown.\<close>

theorem leader_run_correct:
  assumes "admin_store send stored" "gs_Upstream (lc_service c) \<noteq> None"
  shows "\<exists>c' a' s'. controller_run send es False (c, a, s) = Some (c', a', s') \<and>
     lc_isLeader c' = fold flag_event es (lc_isLeader c) \<and>
     (stopped_last es \<longrightarrow> \<not> lc_isLeader c' \<and>
        (registerMode a' = ''leader'' \<and> ag_controllers a' k = Some c' \<and> lc_started c' \<longrightarrow>
           snd (snd (DeregisterService send (\<lambda>_. lc_isLeader c') k a' s')) = s')) \<and>
     (\<forall>v. v \<notin> service_urls a (lc_service c) \<longrightarrow> stored s' v = stored s v) \<and>
     (StartedLeading \<notin> set es \<longrightarrow> a' = a \<and> s' = s) \<and>
     (fold loop_event es False \<longrightarrow> (\<forall>a2 s2. registerServiceDirect send (lc_service c) a' s' = Some (None, a2, s2) \<longrightarrow>
        controller_run send (es @ [TickerFired]) False (c, a, s) = Some (c', a2, s2) \<and> service_stored stored a (lc_service c) s2))"
proof -
  obtain c' a' s' where r: "controller_run send es False (c, a, s) = Some (c', a', s')"
    using run_returns[OF assms(2)] by (metis prod_cases3)
  have "snd (snd (DeregisterService send (\<lambda>_. lc_isLeader c') k a' s')) = s'"
    if "stopped_last es" "registerMode a' = ''leader''" "ag_controllers a' k = Some c'" "lc_started c'"
    using that stopped_last_flag[OF that(1)] controller_run_keeps[OF assms(1) r]
    by (simp add: DeregisterService_def controller_Stop_def IsLeader_def Let_def)
  then show ?thesis
    using r controller_run_keeps[OF assms(1) r] stopped_last_flag[of es] follower_silent[of es send c a s] tick_restores[OF assms(1) r]
    by simp
qed

definition sample_controller :: apisixLeaderController where
  "sample_controller = \<lparr>lc_service = sample_service, lc_leaseName = ''user-lease'', lc_leaseNamespace = ''default'',
     lc_identity = ''pod-0'', lc_leaseDuration = 15, lc_renewDeadline = 10, lc_retryPeriod = 2, lc_reconcileInterval = 30,
     lc_started = True, lc_isLeader = False\<rparr>"

theorem leader_run_correct_witness:
  "\<exists>c' a' s'. controller_run mem_server [StartedLeading, TickerFired, LeadCtxDone, StoppedLeading] False
       (sample_controller, sample_gateway ''leader'' (Some True), [''other'' \<mapsto> JInt 1]) = Some (c', a', s') \<and>
     \<not> lc_isLeader c' \<and> s' ''other'' = Some (JInt 1)"
proof -
  let ?es = "[StartedLeading, TickerFired, LeadCtxDone, StoppedLeading]"
  have u: "gs_Upstream (lc_service sample_controller) \<noteq> None" by (simp add: sample_controller_def sample_service_def)
  have v: "''other'' \<notin> service_urls (sample_gateway ''leader'' (Some True)) (lc_service sample_controller)"
    by (auto simp: service_urls_def resource_url_def sample_gateway_def sample_config_def)
  have "stopped_last ?es" unfolding stopped_last_def by (rule exI[of _ "[StartedLeading, TickerFired, LeadCtxDone]"]) simp
  with v leader_run_correct[OF mem_server_admin u, of ?es "sample_gateway ''leader'' (Some True)" "[''other'' \<mapsto> JInt 1]" "''user''"]
  show ?thesis by (metis fun_upd_same)
qed

end
