(* ===== verification/Lifecycle.thy ===== *)
theory Lifecycle
  imports App_Shell
begin

section \<open>Signals and the life of a service group\<close>

text \<open>
  Models what happens in parallel while a process runs: the signal channels of \<open>utils/signal.go\<close> and
  \<open>ServiceGroup.Start\<close> of \<open>service/group.go\<close>, with the goroutines of its services, the wait for a signal and calls of
  \<open>Stop\<close> from elsewhere. The steps of the goroutines interleave in any order; a step that panics ends the process and
  has no successor.
\<close>

subsection \<open>Signal channels\<close>

datatype os_signal = SIGINT | SIGTERM | SIGHUP

text \<open>\<open>signal.Notify\<close> on a channel with room for one signal: it does not block, a signal that finds no room is dropped.\<close>

definition Notify :: "os_signal list \<Rightarrow> os_signal \<Rightarrow> os_signal option \<Rightarrow> os_signal option" where
  "Notify sigs s ch = (if s \<in> set sigs \<and> ch = None then Some s else ch)"

text \<open>\<open>MakeShutdownCh\<close>: the goroutine takes one signal and closes the result channel.\<close>

record shutdown_ch =
  sh_signals :: "os_signal option"
  sh_closed :: bool

definition MakeShutdownCh :: shutdown_ch where
  "MakeShutdownCh = \<lparr>sh_signals = None, sh_closed = False\<rparr>"

datatype shutdown_event = ShSignal os_signal | ShClose

fun shutdown_step :: "shutdown_event \<Rightarrow> shutdown_ch \<Rightarrow> shutdown_ch option" where
  "shutdown_step (ShSignal s) c = Some (c\<lparr>sh_signals := Notify [SIGTERM, SIGINT] s (sh_signals c)\<rparr>)"
| "shutdown_step ShClose c =
     (if sh_signals c \<noteq> None \<and> \<not> sh_closed c then Some \<lparr>sh_signals = None, sh_closed = True\<rparr> else None)"

text \<open>\<open>MakeSighupCh\<close>: the goroutine takes a signal and offers a message until someone receives it.\<close>

record sighup_ch =
  hu_signals :: "os_signal option"
  hu_sending :: bool

definition MakeSighupCh :: sighup_ch where
  "MakeSighupCh = \<lparr>hu_signals = None, hu_sending = False\<rparr>"

datatype sighup_event = HupSignal os_signal | HupTake | HupReceive

fun sighup_step :: "sighup_event \<Rightarrow> sighup_ch \<Rightarrow> sighup_ch option" where
  "sighup_step (HupSignal s) c = Some (c\<lparr>hu_signals := Notify [SIGHUP] s (hu_signals c)\<rparr>)"
| "sighup_step HupTake c =
     (if hu_signals c \<noteq> None \<and> \<not> hu_sending c then Some \<lparr>hu_signals = None, hu_sending = True\<rparr> else None)"
| "sighup_step HupReceive c = (if hu_sending c then Some (c\<lparr>hu_sending := False\<rparr>) else None)"

text \<open>Events in a row, of which each must be possible.\<close>

fun run_events :: "('e \<Rightarrow> 's \<Rightarrow> 's option) \<Rightarrow> 'e list \<Rightarrow> 's \<Rightarrow> 's option" where
  "run_events step [] s = Some s"
| "run_events step (e # es) s = (case step e s of None \<Rightarrow> None | Some s \<Rightarrow> run_events step es s)"

subsection \<open>A running service group\<close>

text \<open>Where a goroutine is with respect to the group: away from it, in the \<open>select\<close> of \<open>waitForSignal\<close>, before the once of
  \<open>Stop\<close>, in its body with the indices still to stop, or past it. Goroutine 0 runs \<open>Start\<close>.\<close>

datatype stop_pc = Elsewhere | InSelect | AtStop | InOnce "nat list" | PastStop

datatype once_pc = OnceNew | OnceRunning | OnceDone

text \<open>\<open>gr_starts\<close>: the services whose goroutine has not run yet. \<open>gr_stops\<close> records the services stopped so far.\<close>

record 'w group_run =
  gr_sg :: "'w ServiceGroup"
  gr_w :: 'w
  gr_starts :: "nat list"
  gr_quit :: "os_signal option"
  gr_once :: once_pc
  gr_pc :: "nat \<Rightarrow> stop_pc"
  gr_stops :: "nat list"

text \<open>After \<open>startAll\<close> and \<open>signal.Notify\<close>.\<close>

definition group_launched :: "'w ServiceGroup \<Rightarrow> 'w \<Rightarrow> 'w group_run" where
  "group_launched sg w = \<lparr>gr_sg = sg, gr_w = w, gr_starts = [0..<length (startAll sg)], gr_quit = None, gr_once = OnceNew,
     gr_pc = (\<lambda>t. if t = 0 then InSelect else Elsewhere), gr_stops = []\<rparr>"

datatype life_event =
    Signal os_signal
  | RunStart nat
  | SelectQuit
  | SelectStopCh
  | CallStop nat
  | EnterOnce nat
  | StopService nat
  | LeaveOnce nat
  | SkipOnce nat

inductive group_step :: "'w group_run \<Rightarrow> life_event \<Rightarrow> 'w group_run \<Rightarrow> bool" where
  signal: "group_step g (Signal s) (g\<lparr>gr_quit := Notify [SIGINT, SIGTERM] s (gr_quit g)\<rparr>)"
| run_start: "i \<in> set (gr_starts g) \<Longrightarrow> svc_Start (sg_services (gr_sg g) ! i) (gr_w g) = (Returned (), w) \<Longrightarrow>
    group_step g (RunStart i) (g\<lparr>gr_starts := remove1 i (gr_starts g), gr_w := w\<rparr>)"
| select_quit: "gr_pc g 0 = InSelect \<Longrightarrow> gr_quit g \<noteq> None \<Longrightarrow>
    group_step g SelectQuit (g\<lparr>gr_quit := None, gr_pc := (gr_pc g)(0 := AtStop)\<rparr>)"
| select_stopCh: "gr_pc g 0 = InSelect \<Longrightarrow> sg_stopped (gr_sg g) \<Longrightarrow>
    group_step g SelectStopCh (g\<lparr>gr_pc := (gr_pc g)(0 := AtStop)\<rparr>)"
| call_stop: "gr_pc g t = Elsewhere \<Longrightarrow> group_step g (CallStop t) (g\<lparr>gr_pc := (gr_pc g)(t := AtStop)\<rparr>)"
| enter_once: "gr_pc g t = AtStop \<Longrightarrow> gr_once g = OnceNew \<Longrightarrow>
    group_step g (EnterOnce t) (g\<lparr>gr_sg := (gr_sg g)\<lparr>sg_stopped := True\<rparr>, gr_once := OnceRunning,
      gr_pc := (gr_pc g)(t := InOnce (rev [0..<length (sg_services (gr_sg g))]))\<rparr>)"
| stop_service: "gr_pc g t = InOnce (i # todo) \<Longrightarrow> svc_Stop (sg_services (gr_sg g) ! i) (gr_w g) = (Returned (), w) \<Longrightarrow>
    group_step g (StopService t) (g\<lparr>gr_w := w, gr_pc := (gr_pc g)(t := InOnce todo), gr_stops := gr_stops g @ [i]\<rparr>)"
| leave_once: "gr_pc g t = InOnce [] \<Longrightarrow>
    group_step g (LeaveOnce t) (g\<lparr>gr_once := OnceDone, gr_pc := (gr_pc g)(t := PastStop)\<rparr>)"
| skip_once: "gr_pc g t = AtStop \<Longrightarrow> gr_once g = OnceDone \<Longrightarrow>
    group_step g (SkipOnce t) (g\<lparr>gr_pc := (gr_pc g)(t := PastStop)\<rparr>)"

inductive group_trace :: "'w group_run \<Rightarrow> life_event list \<Rightarrow> 'w group_run \<Rightarrow> bool" where
  init: "group_trace g [] g"
| step: "group_trace g es g1 \<Longrightarrow> group_step g1 e g2 \<Longrightarrow> group_trace g (es @ [e]) g2"

inductive_cases group_stepE: "group_step g e g'"

declare group_step.intros [intro]

section \<open>Lemmas\<close>

subsection \<open>The group\<close>

text \<open>The invariant of the once: nobody is in its body before it is entered, one goroutine is while it runs, and nobody is
  past \<open>Stop\<close> before it is done. \<open>svcs\<close> are the services of the group.\<close>

definition once_inv :: "'w Service list \<Rightarrow> 'w group_run \<Rightarrow> bool" where
  "once_inv svcs g \<longleftrightarrow> sg_services (gr_sg g) = svcs \<and> gr_pc g 0 \<noteq> Elsewhere \<and> (sg_stopped (gr_sg g) \<longleftrightarrow> gr_once g \<noteq> OnceNew) \<and>
     (case gr_once g of
        OnceNew \<Rightarrow> gr_stops g = [] \<and> (\<forall>t todo. gr_pc g t \<noteq> InOnce todo \<and> gr_pc g t \<noteq> PastStop)
      | OnceRunning \<Rightarrow> (\<exists>t todo. gr_pc g t = InOnce todo \<and> gr_stops g @ todo = rev [0..<length svcs] \<and>
          (\<forall>u. u \<noteq> t \<longrightarrow> (\<forall>js. gr_pc g u \<noteq> InOnce js) \<and> gr_pc g u \<noteq> PastStop))
      | OnceDone \<Rightarrow> gr_stops g = rev [0..<length svcs] \<and> (\<forall>t todo. gr_pc g t \<noteq> InOnce todo))"

lemma once_inv_launched: "\<not> sg_stopped sg \<Longrightarrow> once_inv (sg_services sg) (group_launched sg w)"
  by (simp add: once_inv_def group_launched_def)

lemma once_inv_runningI:
  assumes "sg_services (gr_sg g) = svcs" "gr_pc g 0 \<noteq> Elsewhere" "sg_stopped (gr_sg g)" "gr_once g = OnceRunning"
    "gr_pc g t = InOnce todo" "gr_stops g @ todo = rev [0..<length svcs]"
    "\<And>u js. u \<noteq> t \<Longrightarrow> gr_pc g u \<noteq> InOnce js \<and> gr_pc g u \<noteq> PastStop"
  shows "once_inv svcs g"
proof -
  have "\<exists>t todo. gr_pc g t = InOnce todo \<and> gr_stops g @ todo = rev [0..<length svcs] \<and>
      (\<forall>u. u \<noteq> t \<longrightarrow> (\<forall>js. gr_pc g u \<noteq> InOnce js) \<and> gr_pc g u \<noteq> PastStop)"
    using assms(5-7) by blast
  with assms(1-4) show ?thesis by (simp add: once_inv_def)
qed

text \<open>Whoever is in the body is alone there.\<close>

lemma once_inv_inside:
  assumes "once_inv svcs g" "gr_pc g t = InOnce todo"
  shows "gr_once g = OnceRunning" "gr_stops g @ todo = rev [0..<length svcs]"
    "u \<noteq> t \<Longrightarrow> gr_pc g u \<noteq> InOnce js \<and> gr_pc g u \<noteq> PastStop"
proof -
  show r: "gr_once g = OnceRunning" using assms by (cases "gr_once g") (auto simp: once_inv_def)
  then obtain t' todo' where t': "gr_pc g t' = InOnce todo'" "gr_stops g @ todo' = rev [0..<length svcs]"
      "\<And>u js. u \<noteq> t' \<Longrightarrow> gr_pc g u \<noteq> InOnce js \<and> gr_pc g u \<noteq> PastStop"
    using assms(1) by (auto simp: once_inv_def)
  with assms(2) have "t = t'" by metis
  with t' assms(2) show "gr_stops g @ todo = rev [0..<length svcs]" "u \<noteq> t \<Longrightarrow> gr_pc g u \<noteq> InOnce js \<and> gr_pc g u \<noteq> PastStop"
    by simp_all
qed

lemma once_inv_other [simp]:
  "once_inv svcs (g\<lparr>gr_quit := q\<rparr>) = once_inv svcs g" "once_inv svcs (g\<lparr>gr_starts := st\<rparr>) = once_inv svcs g"
  "once_inv svcs (g\<lparr>gr_w := w\<rparr>) = once_inv svcs g"
  by (simp_all add: once_inv_def cong: once_pc.case_cong)

lemma once_inv_to_stop:
  assumes "once_inv svcs g" "gr_pc g t = InSelect \<or> gr_pc g t = Elsewhere"
  shows "once_inv svcs (g\<lparr>gr_pc := (gr_pc g)(t := AtStop)\<rparr>)"
proof (cases "gr_once g")
  case OnceRunning
  then obtain t' todo where t': "gr_pc g t' = InOnce todo" "gr_stops g @ todo = rev [0..<length svcs]"
      "\<And>u js. u \<noteq> t' \<Longrightarrow> gr_pc g u \<noteq> InOnce js \<and> gr_pc g u \<noteq> PastStop"
    using assms(1) by (auto simp: once_inv_def)
  with assms(2) have "t' \<noteq> t" by auto
  with t' OnceRunning assms(1) show ?thesis
    by (intro once_inv_runningI[where t = t' and todo = todo]) (auto simp: once_inv_def)
qed (use assms in \<open>auto simp: once_inv_def\<close>)

lemma once_inv_step:
  assumes "group_step g e g'" "once_inv svcs g"
  shows "once_inv svcs g'"
  using assms
proof (cases rule: group_step.cases)
  case (enter_once t)
  then show ?thesis using assms(2) by (auto simp: once_inv_def)
next
  case (stop_service t i todo w)
  note i = once_inv_inside[OF assms(2) stop_service(3)]
  show ?thesis
    by (rule once_inv_runningI[where t = t and todo = todo]) (use stop_service i assms(2) in \<open>auto simp: once_inv_def\<close>)
next
  case (leave_once t)
  note i = once_inv_inside[OF assms(2) leave_once(3)]
  show ?thesis using leave_once i assms(2) by (auto simp: once_inv_def)
next
  case select_quit
  then show ?thesis using once_inv_to_stop[of svcs "g\<lparr>gr_quit := None\<rparr>" 0] assms(2) by simp
next
  case (skip_once t)
  then show ?thesis using assms(2) by (auto simp: once_inv_def)
qed (use assms(2) once_inv_to_stop in auto)

lemma once_inv_trace: "group_trace g es g' \<Longrightarrow> once_inv svcs g \<Longrightarrow> once_inv svcs g'"
  by (induction rule: group_trace.induct) (auto intro: once_inv_step)

lemma group_trace_append: "group_trace g2 es2 g3 \<Longrightarrow> group_trace g1 es1 g2 \<Longrightarrow> group_trace g1 (es1 @ es2) g3"
proof (induction rule: group_trace.induct)
  case (step g es g' e g'')
  then show ?case using group_trace.step[of g1 "es1 @ es" g' e g''] by simp
qed simp

lemma group_trace_one: "group_step g e g' \<Longrightarrow> group_trace g [e] g'"
  using group_trace.step[OF group_trace.init] by force

text \<open>Until someone asks for the end, nobody is anywhere near \<open>Stop\<close>.\<close>

definition asked :: "life_event list \<Rightarrow> bool" where
  "asked es \<longleftrightarrow> Signal SIGINT \<in> set es \<or> Signal SIGTERM \<in> set es \<or> (\<exists>t. CallStop t \<in> set es)"

lemma unasked_waits:
  "group_trace g es g' \<Longrightarrow> g = group_launched sg w \<Longrightarrow> \<not> sg_stopped sg \<Longrightarrow> \<not> asked es \<Longrightarrow>
     gr_quit g' = None \<and> gr_pc g' = gr_pc g \<and> gr_once g' = OnceNew \<and> gr_sg g' = sg"
proof (induction rule: group_trace.induct)
  case (step g es g1 e g2)
  then have "gr_quit g1 = None \<and> gr_pc g1 = gr_pc g \<and> gr_once g1 = OnceNew \<and> gr_sg g1 = sg" by (simp add: asked_def)
  with step(2,4-6) show ?case
    by (cases rule: group_step.cases) (auto simp: group_launched_def asked_def Notify_def split: if_splits)
qed (simp add: group_launched_def)

text \<open>The body of the once runs to its end when no \<open>Stop\<close> panics.\<close>

abbreviation stops_return :: "'w Service list \<Rightarrow> bool" where
  "stops_return svcs \<equiv> \<forall>svc \<in> set svcs. \<forall>w. fst (svc_Stop svc w) = Returned ()"

lemma finish_body:
  assumes "stops_return svcs"
  shows "once_inv svcs g \<Longrightarrow> gr_pc g t = InOnce todo \<Longrightarrow>
    \<exists>es g'. group_trace g es g' \<and> gr_once g' = OnceDone \<and> gr_pc g' t = PastStop \<and> (\<forall>u. u \<noteq> t \<longrightarrow> gr_pc g' u = gr_pc g u)"
proof (induction todo arbitrary: g)
  case Nil
  then show ?case using group_trace_one[OF leave_once[of g t]] by fastforce
next
  case (Cons i todo)
  have "i \<in> set (rev [0..<length svcs])"
    unfolding once_inv_inside(2)[OF Cons.prems, symmetric] by simp
  then have "svcs ! i \<in> set svcs" by simp
  then obtain w where w: "svc_Stop (svcs ! i) (gr_w g) = (Returned (), w)" using assms by (metis prod.collapse)
  let ?g = "g\<lparr>gr_w := w, gr_pc := (gr_pc g)(t := InOnce todo), gr_stops := gr_stops g @ [i]\<rparr>"
  have s: "group_step g (StopService t) ?g"
    by (rule stop_service[where todo = todo]) (use Cons.prems w in \<open>auto simp: once_inv_def\<close>)
  then obtain es g' where "group_trace ?g es g'" "gr_once g' = OnceDone" "gr_pc g' t = PastStop" "\<forall>u. u \<noteq> t \<longrightarrow> gr_pc g' u = gr_pc g u"
    using Cons.IH[of ?g] once_inv_step[OF s Cons.prems(1)] by auto
  then show ?case using group_trace_append[OF _ group_trace_one[OF s]] by blast
qed

lemma main_passes_once:
  assumes "stops_return svcs" "once_inv svcs g" "gr_pc g 0 = AtStop"
  shows "\<exists>es g'. group_trace g es g' \<and> gr_pc g' 0 = PastStop"
proof (cases "gr_once g")
  case OnceNew
  then obtain g1 todo where s: "group_step g (EnterOnce 0) g1" and "gr_pc g1 0 = InOnce todo"
    using enter_once[of g 0] assms(3) by fastforce
  then obtain es g' where "group_trace g1 es g'" "gr_pc g' 0 = PastStop"
    using finish_body[OF assms(1) once_inv_step[OF s assms(2)]] by blast
  then show ?thesis using group_trace_append[OF _ group_trace_one[OF s]] by blast
next
  case OnceRunning
  then obtain t todo where t: "gr_pc g t = InOnce todo" using assms(2) by (auto simp: once_inv_def)
  obtain es g1 where g1: "group_trace g es g1" "gr_once g1 = OnceDone" "gr_pc g1 0 = AtStop"
  proof -
    have "0 \<noteq> t" using t assms(3) by (metis stop_pc.distinct)
    then show ?thesis using finish_body[OF assms(1,2) t] assms(3) that by auto
  qed
  have "group_step g1 (SkipOnce 0) (g1\<lparr>gr_pc := (gr_pc g1)(0 := PastStop)\<rparr>)" using g1 by blast
  then show ?thesis using group_trace.step[OF g1(1)] by fastforce
next
  case OnceDone
  then show ?thesis using group_trace_one[OF skip_once[of g 0]] assms(3) by fastforce
qed

lemma main_returns:
  assumes "stops_return svcs" "once_inv svcs g" "gr_quit g \<noteq> None \<or> sg_stopped (gr_sg g) \<or> gr_pc g 0 \<noteq> InSelect"
  shows "\<exists>es g'. group_trace g es g' \<and> gr_pc g' 0 = PastStop"
proof (cases "gr_pc g 0")
  case InSelect
  then obtain e g1 where s: "group_step g e g1" and "gr_pc g1 0 = AtStop"
    using assms(3) select_quit[of g] select_stopCh[of g] by fastforce
  then obtain es g' where "group_trace g1 es g'" "gr_pc g' 0 = PastStop"
    using main_passes_once[OF assms(1) once_inv_step[OF s assms(2)]] by blast
  then show ?thesis using group_trace_append[OF _ group_trace_one[OF s]] by blast
next
  case InOnce
  then show ?thesis using finish_body[OF assms(1,2)] by blast
next
  case AtStop
  then show ?thesis using main_passes_once[OF assms(1,2)] by blast
next
  case PastStop
  then show ?thesis using group_trace.init by blast
qed (use assms(2) in \<open>simp add: once_inv_def\<close>)

text \<open>A request for the end is never forgotten.\<close>

lemma asked_remembered:
  "group_trace g es g' \<Longrightarrow> asked es \<Longrightarrow>
     gr_quit g' \<noteq> None \<or> gr_pc g' 0 \<noteq> InSelect \<or> (\<exists>t. gr_pc g' t \<noteq> Elsewhere \<and> gr_pc g' t \<noteq> InSelect)"
proof (induction rule: group_trace.induct)
  case (step g es g1 e g2)
  then have IH: "asked es \<longrightarrow> gr_quit g1 \<noteq> None \<or> gr_pc g1 0 \<noteq> InSelect \<or> (\<exists>t. gr_pc g1 t \<noteq> Elsewhere \<and> gr_pc g1 t \<noteq> InSelect)"
    by simp
  from step(2) show ?case
  proof (cases rule: group_step.cases)
    case (signal s)
    then show ?thesis using IH step(4) by (auto simp: asked_def Notify_def)
  next
    case (run_start i w)
    then show ?thesis using IH step(4) by (auto simp: asked_def)
  qed (simp_all, (metis stop_pc.distinct fun_upd_same)+)
qed (simp add: asked_def)

lemma asked_returns:
  assumes "\<not> sg_stopped sg" "stops_return (sg_services sg)" "group_trace (group_launched sg w) es g" "asked es"
  shows "\<exists>es' g'. group_trace g es' g' \<and> gr_pc g' 0 = PastStop"
proof -
  have i: "once_inv (sg_services sg) g" by (rule once_inv_trace[OF assms(3) once_inv_launched[OF assms(1)]])
  consider "gr_quit g \<noteq> None \<or> sg_stopped (gr_sg g) \<or> gr_pc g 0 \<noteq> InSelect"
    | t where "gr_once g = OnceNew" "gr_pc g t = AtStop"
  proof -
    assume a: "gr_quit g \<noteq> None \<or> sg_stopped (gr_sg g) \<or> gr_pc g 0 \<noteq> InSelect \<Longrightarrow> thesis"
      and b: "\<And>t. gr_once g = OnceNew \<Longrightarrow> gr_pc g t = AtStop \<Longrightarrow> thesis"
    show thesis
    proof (cases "gr_once g = OnceNew")
      case True
      then have "gr_pc g t \<noteq> InOnce todo \<and> gr_pc g t \<noteq> PastStop" for t todo using i by (simp add: once_inv_def)
      then show thesis using asked_remembered[OF assms(3,4)] a b[OF True] by (metis stop_pc.exhaust)
    next
      case False
      then show thesis using i a by (simp add: once_inv_def)
    qed
  qed
  then show ?thesis
  proof cases
    case 2
    then obtain g1 where s: "group_step g (EnterOnce t) g1" and "sg_stopped (gr_sg g1)"
      using enter_once[of g t] by fastforce
    then obtain es' g' where "group_trace g1 es' g'" "gr_pc g' 0 = PastStop"
      using main_returns[OF assms(2) once_inv_step[OF s i]] by blast
    then show ?thesis using group_trace_append[OF _ group_trace_one[OF s]] by blast
  qed (rule main_returns[OF assms(2) i])
qed

text \<open>Once every service has started, only the stops change the state of the process.\<close>

lemma stops_make_world:
  "group_trace g es g' \<Longrightarrow> gr_starts g = [] \<Longrightarrow> once_inv svcs g \<Longrightarrow> gr_once g = OnceNew \<Longrightarrow>
     gr_starts g' = [] \<and> run_actions (map (\<lambda>i. svc_Stop (svcs ! i)) (gr_stops g')) (gr_w g) = (Returned (), gr_w g')"
proof (induction rule: group_trace.induct)
  case (step g es g1 e g2)
  have i: "sg_services (gr_sg g1) = svcs" using once_inv_trace[OF step(1) step(5)] by (simp add: once_inv_def)
  from step have IH: "gr_starts g1 = []" "run_actions (map (\<lambda>i. svc_Stop (svcs ! i)) (gr_stops g1)) (gr_w g) = (Returned (), gr_w g1)"
    by auto
  from step(2) show ?case
    by (cases rule: group_step.cases) (use IH i in \<open>simp_all add: run_actions_append\<close>)
qed (simp add: once_inv_def)

lemma map_rev_nth: "map (\<lambda>i. f (xs ! i)) (rev [0..<length xs]) = rev (map f xs)"
  by (rule nth_equalityI) (auto simp: rev_nth)

lemma stops_prefix: "once_inv svcs g \<Longrightarrow> \<exists>todo. gr_stops g @ todo = rev [0..<length svcs]"
  by (auto simp: once_inv_def split: once_pc.splits)

lemma past_stop_all_stopped: "once_inv svcs g \<Longrightarrow> gr_pc g t = PastStop \<Longrightarrow> gr_stops g = rev [0..<length svcs] \<and> sg_stopped (gr_sg g)"
  by (auto simp: once_inv_def split: once_pc.splits) (metis stop_pc.distinct)+

lemma lifecycle_group_Stop:
  assumes "once_inv svcs g" "gr_starts g = []" "gr_once g = OnceNew" "group_trace g es g'" "gr_pc g' t = PastStop"
  shows "group_Stop (gr_sg g, gr_w g) = (Returned (), gr_sg g', gr_w g')"
proof -
  have i: "once_inv svcs g'" by (rule once_inv_trace[OF assms(4,1)])
  have s: "gr_stops g' = rev [0..<length svcs]" "sg_stopped (gr_sg g')" using past_stop_all_stopped[OF i assms(5)] by simp_all
  have "run_actions (map (\<lambda>i. svc_Stop (svcs ! i)) (gr_stops g')) (gr_w g) = (Returned (), gr_w g')"
    using stops_make_world[OF assms(4,2,1,3)] by simp
  then have "run_actions (rev (map svc_Stop svcs)) (gr_w g) = (Returned (), gr_w g')" unfolding s map_rev_nth .
  moreover have "sg_services (gr_sg g) = svcs" "\<not> sg_stopped (gr_sg g)" "gr_sg g' = (gr_sg g)\<lparr>sg_stopped := True\<rparr>"
    using assms(1,3) i s(2) by (auto simp: once_inv_def)
  ultimately show ?thesis by (simp add: group_Stop_def)
qed

subsection \<open>The signal channels\<close>

lemma run_events_append:
  "run_events step (es1 @ es2) s = (case run_events step es1 s of None \<Rightarrow> None | Some s \<Rightarrow> run_events step es2 s)"
  by (induction es1 arbitrary: s) (auto split: option.splits)

text \<open>\<open>MakeShutdownCh\<close>: the channel is closed only after one of its signals, from the first of them on it is closed or can be,
  and after that nothing more ever happens on it.\<close>

lemma shutdown_channel:
  assumes "run_events shutdown_step es MakeShutdownCh = Some c"
  shows "sh_closed c \<Longrightarrow> ShSignal SIGTERM \<in> set es \<or> ShSignal SIGINT \<in> set es"
    "ShSignal SIGTERM \<in> set es \<or> ShSignal SIGINT \<in> set es \<Longrightarrow> sh_closed c \<or> shutdown_step ShClose c \<noteq> None"
    "sh_closed c \<Longrightarrow> shutdown_step ShClose c = None"
proof -
  have "run_events shutdown_step es c0 = Some c \<Longrightarrow>
      (sh_closed c \<or> sh_signals c \<noteq> None) = (sh_closed c0 \<or> sh_signals c0 \<noteq> None \<or> ShSignal SIGTERM \<in> set es \<or> ShSignal SIGINT \<in> set es)" for c0
  proof (induction es arbitrary: c0)
    case (Cons e es)
    then obtain c1 where c1: "shutdown_step e c0 = Some c1" "run_events shutdown_step es c1 = Some c" by (auto split: option.splits)
    show ?case unfolding Cons.IH[OF c1(2)] using c1(1)
      by (cases e rule: shutdown_event.exhaust) (auto simp: Notify_def split: if_splits)
  qed simp
  from this[OF assms] show "sh_closed c \<Longrightarrow> ShSignal SIGTERM \<in> set es \<or> ShSignal SIGINT \<in> set es"
    "ShSignal SIGTERM \<in> set es \<or> ShSignal SIGINT \<in> set es \<Longrightarrow> sh_closed c \<or> shutdown_step ShClose c \<noteq> None"
    by (auto simp: MakeShutdownCh_def)
  show "sh_closed c \<Longrightarrow> shutdown_step ShClose c = None" by simp
qed

text \<open>\<open>MakeSighupCh\<close>: there are never more messages than signals, and the last signal is never lost: it waits in the channel
  until the goroutine takes it.\<close>

lemma sighup_channel:
  assumes "run_events sighup_step es MakeSighupCh = Some c"
  shows "length (filter ((=) HupReceive) es) + of_bool (hu_sending c) + of_bool (hu_signals c \<noteq> None) \<le>
           length (filter ((=) (HupSignal SIGHUP)) es)"
    "es = es1 @ HupSignal SIGHUP # es2 \<Longrightarrow> HupTake \<notin> set es2 \<Longrightarrow> hu_signals c \<noteq> None"
proof -
  have "run_events sighup_step es c0 = Some c \<Longrightarrow>
      length (filter ((=) HupReceive) es) + of_bool (hu_sending c) + of_bool (hu_signals c \<noteq> None) \<le>
      length (filter ((=) (HupSignal SIGHUP)) es) + of_bool (hu_sending c0) + of_bool (hu_signals c0 \<noteq> None)" for c0
  proof (induction es arbitrary: c0)
    case (Cons e es)
    then obtain c1 where c1: "sighup_step e c0 = Some c1" "run_events sighup_step es c1 = Some c" by (auto split: option.splits)
    from Cons.IH[OF c1(2)] c1(1) show ?case by (cases e) (auto simp: Notify_def split: if_splits)
  qed simp
  from this[OF assms] show "length (filter ((=) HupReceive) es) + of_bool (hu_sending c) + of_bool (hu_signals c \<noteq> None) \<le>
      length (filter ((=) (HupSignal SIGHUP)) es)" by (simp add: MakeSighupCh_def)
  have keep: "HupTake \<notin> set es2 \<Longrightarrow> run_events sighup_step es2 c0 = Some c \<Longrightarrow> hu_signals c0 \<noteq> None \<Longrightarrow> hu_signals c \<noteq> None" for c0 es2
  proof (induction es2 arbitrary: c0)
    case (Cons e es2)
    then obtain c1 where "sighup_step e c0 = Some c1" "run_events sighup_step es2 c1 = Some c" by (auto split: option.splits)
    with Cons show ?case by (cases e) (auto simp: Notify_def split: if_splits)
  qed simp
  assume "es = es1 @ HupSignal SIGHUP # es2" "HupTake \<notin> set es2"
  with assms keep show "hu_signals c \<noteq> None" by (auto simp: run_events_append Notify_def split: option.splits if_splits)
qed

text \<open>A burst before and a burst after the goroutine has taken the first signal: two messages, however many signals.\<close>

lemma sighup_burst:
  "run_events sighup_step (replicate (Suc n) (HupSignal SIGHUP) @ [HupTake] @ replicate (Suc m) (HupSignal SIGHUP) @
     [HupReceive, HupTake, HupReceive]) MakeSighupCh = Some MakeSighupCh"
proof -
  have full: "run_events sighup_step (replicate k (HupSignal SIGHUP)) (c\<lparr>hu_signals := Some SIGHUP\<rparr>) = Some (c\<lparr>hu_signals := Some SIGHUP\<rparr>)"
    for k c by (induction k) (simp_all add: Notify_def)
  have burst: "run_events sighup_step (replicate (Suc k) (HupSignal SIGHUP)) \<lparr>hu_signals = None, hu_sending = b\<rparr> =
      Some \<lparr>hu_signals = Some SIGHUP, hu_sending = b\<rparr>" for k b
    using full[of k "\<lparr>hu_signals = None, hu_sending = b\<rparr>"] by (simp add: Notify_def)
  show ?thesis unfolding run_events_append MakeSighupCh_def burst by (simp only: option.case run_events_append burst) (simp add: run_events_append burst del: replicate_Suc)
qed

section \<open>Property\<close>

text \<open>C28: The life of a service group, for every interleaving of its goroutines, signals and calls of Stop from elsewhere. Start
  waits until a SIGINT or SIGTERM arrives or someone calls Stop; from then on it can always go on to its return. At every
  moment the services stopped are the last ones, each stopped once, from the last to the first; whoever is past Stop, as the
  first caller or a later one, finds all of them stopped. When all services had started before the end was asked for, the
  outcome is that of the sequential group_Stop.\<close>

theorem group_lifecycle:
  assumes "\<not> sg_stopped sg" "group_trace (group_launched sg w) es g"
    "\<forall>svc \<in> set (sg_services sg). \<forall>w. fst (svc_Stop svc w) = Returned ()"
  shows "(\<not> asked es \<longrightarrow> gr_pc g 0 = InSelect \<and> gr_stops g = []) \<and>
     (asked es \<longrightarrow> (\<exists>es' g'. group_trace g es' g' \<and> gr_pc g' 0 = PastStop)) \<and>
     (\<exists>todo. gr_stops g @ todo = rev [0..<length (sg_services sg)]) \<and>
     (\<forall>t. gr_pc g t = PastStop \<longrightarrow> gr_stops g = rev [0..<length (sg_services sg)]) \<and>
     (gr_starts g = [] \<and> gr_once g = OnceNew \<longrightarrow> (\<forall>es' g'. group_trace g es' g' \<and> gr_pc g' 0 = PastStop \<longrightarrow>
        group_Stop (gr_sg g, gr_w g) = (Returned (), gr_sg g', gr_w g')))"
proof -
  have i: "once_inv (sg_services sg) g" by (rule once_inv_trace[OF assms(2) once_inv_launched[OF assms(1)]])
  have "gr_pc g 0 = InSelect \<and> gr_stops g = []" if "\<not> asked es"
    using unasked_waits[OF assms(2) HOL.refl assms(1) that] i by (simp add: group_launched_def once_inv_def)
  then show ?thesis
    using asked_returns[OF assms(1,3,2)] stops_prefix[OF i] past_stop_all_stopped[OF i] lifecycle_group_Stop[OF i] by blast
qed

theorem group_lifecycle_witness:
  "\<exists>g es g'. group_trace (group_launched (group_Add (logging_service ''db'' (Returned ())) NewServiceGroup) []) [Signal SIGTERM] g \<and>
     group_trace g es g' \<and> gr_pc g' 0 = PastStop"
proof -
  let ?sg = "group_Add (logging_service ''db'' (Returned ())) NewServiceGroup"
  let ?g = "(group_launched ?sg [])\<lparr>gr_quit := Notify [SIGINT, SIGTERM] SIGTERM None\<rparr>"
  have t: "group_trace (group_launched ?sg []) [Signal SIGTERM] ?g"
    using group_trace_one[OF signal[of "group_launched ?sg []" SIGTERM]] by (simp add: group_launched_def)
  have h: "\<not> sg_stopped ?sg" "\<forall>svc \<in> set (sg_services ?sg). \<forall>w. fst (svc_Stop svc w) = Returned ()"
    by (simp_all add: group_Add_def NewServiceGroup_def logging_service_def)
  have "asked [Signal SIGTERM]" by (simp add: asked_def)
  with group_lifecycle[OF h(1) t h(2)] t show ?thesis by blast
qed

end
