(* ===== verification/Ws_Session.thy ===== *)
theory Ws_Session
  imports Ws_Manager "HOL-Library.Sublist"
begin

section \<open>A WebSocket session\<close>

text \<open>
  Models \<open>Listen\<close> of \<open>http_server/ws_client.go\<close>: the reading and the writing goroutine of one client, which interleave with
  each other, with \<open>Send\<close> from elsewhere (broadcast, keep-alive) and with \<open>Close\<close> by the manager. A session is a list of such
  events; the frames read and the errors of the connection are part of them. The connection answers a read and a ping with
  an error once it is closed; a message written to it may be lost without an error, since the results of \<open>Write\<close> and
  \<open>Close\<close> of its writer are dropped, so \<open>ss_written\<close> are the messages handed to it.
\<close>

datatype reader_pc = Reading | Unregistering | ReaderDone

record session =
  ss_client :: Client
  ss_reader :: reader_pc
  ss_writing :: bool
  ss_written :: "string list"

definition Listen :: "Client \<Rightarrow> session" where
  "Listen c = \<lparr>ss_client = c, ss_reader = Reading, ss_writing = True, ss_written = []\<rparr>"

datatype session_event =
    Offer string
  | ReadFrame "string option" string
  | ReaderLeaves
  | WriterTakes "string writer_case"
  | CloseByManager

fun session_step ::
  "(string \<Rightarrow> 'm option) \<Rightarrow> ('m \<Rightarrow> string option) \<Rightarrow> session_event \<Rightarrow> session \<Rightarrow> session option" where
  "session_step decode handle_message (Offer m) s = Some (s\<lparr>ss_client := Client_Send m (ss_client s)\<rparr>)"
| "session_step decode handle_message (ReadFrame err msg) s =
     (if ss_reader s = Reading \<and> (err = None \<longrightarrow> cl_conn_open (ss_client s))
      then (let (goes_on, c) = ReceivedMessage_round err decode handle_message msg (ss_client s)
            in Some (s\<lparr>ss_client := c, ss_reader := if goes_on then Reading else Unregistering\<rparr>))
      else None)"
| "session_step decode handle_message ReaderLeaves s =
     (if ss_reader s = Unregistering
      then Some (s\<lparr>ss_client := (ss_client s)\<lparr>cl_conn_open := False\<rparr>, ss_reader := ReaderDone\<rparr>) else None)"
| "session_step decode handle_message (WriterTakes wc) s =
     (if ss_writing s \<and> writer_enabled wc (ss_client s) \<and> (wc = TakeTick None \<longrightarrow> cl_conn_open (ss_client s))
      then (let (out, result, c) = SendMessage_round wc (ss_client s)
            in Some (s\<lparr>ss_client := c, ss_written := ss_written s @ out, ss_writing := (result = None)\<rparr>))
      else None)"
| "session_step decode handle_message CloseByManager s = Some (s\<lparr>ss_client := closed_client (ss_client s)\<rparr>)"

fun session_run ::
  "(string \<Rightarrow> 'm option) \<Rightarrow> ('m \<Rightarrow> string option) \<Rightarrow> session_event list \<Rightarrow> session \<Rightarrow> session option" where
  "session_run decode handle_message [] s = Some s"
| "session_run decode handle_message (e # es) s =
     (case session_step decode handle_message e s of None \<Rightarrow> None | Some s \<Rightarrow> session_run decode handle_message es s)"

section \<open>Lemmas\<close>

text \<open>The answer of the handler to a frame, if it is one, and what the events of a session offer to the client in order.\<close>

definition answer_to :: "(string \<Rightarrow> 'm option) \<Rightarrow> ('m \<Rightarrow> string option) \<Rightarrow> string \<Rightarrow> string list" where
  "answer_to decode handle_message msg =
     (if msg = '''' then []
      else case decode msg of None \<Rightarrow> [] | Some m \<Rightarrow> (case handle_message m of None \<Rightarrow> [] | Some r \<Rightarrow> [r]))"

fun offered :: "(string \<Rightarrow> 'm option) \<Rightarrow> ('m \<Rightarrow> string option) \<Rightarrow> session_event list \<Rightarrow> string list" where
  "offered decode handle_message [] = []"
| "offered decode handle_message (Offer m # es) = m # offered decode handle_message es"
| "offered decode handle_message (ReadFrame None msg # es) = answer_to decode handle_message msg @ offered decode handle_message es"
| "offered decode handle_message (_ # es) = offered decode handle_message es"

lemma reader_round:
  "ReceivedMessage_round err decode handle_message msg c =
     (err = None, if err = None then fold Client_Send (answer_to decode handle_message msg) c else c)"
  by (auto simp: ReceivedMessage_round_def answer_to_def split: option.splits)

text \<open>What is in the buffer after some sends.\<close>

lemma Client_Send_queue:
  "\<exists>taken. cl_send (fold Client_Send ms c) = cl_send c @ taken \<and> subseq taken ms \<and>
     (\<not> cl_closed c \<and> length (cl_send c) + length ms \<le> send_capacity \<longrightarrow> taken = ms)"
proof (induction ms arbitrary: c)
  case (Cons m ms)
  obtain taken where t: "cl_send (fold Client_Send ms (Client_Send m c)) = cl_send (Client_Send m c) @ taken" "subseq taken ms"
      "\<not> cl_closed (Client_Send m c) \<and> length (cl_send (Client_Send m c)) + length ms \<le> send_capacity \<longrightarrow> taken = ms"
    using Cons by blast
  show ?case
  proof (cases "\<not> cl_closed c \<and> length (cl_send c) < send_capacity")
    case True
    with t show ?thesis by (intro exI[of _ "m # taken"]) (auto simp: Client_Send_def[of m c])
  next
    case False
    with t show ?thesis by (intro exI[of _ taken]) (auto simp: Client_Send_def[of m c])
  qed
qed simp

lemma fold_Send_flags [simp]:
  "cl_closed (fold Client_Send ms c) = cl_closed c" "cl_conn_open (fold Client_Send ms c) = cl_conn_open c"
  "cl_sessionId (fold Client_Send ms c) = cl_sessionId c" "cl_userId (fold Client_Send ms c) = cl_userId c"
  by (induction ms arbitrary: c) (simp_all add: Client_Send_def)

lemma fold_Send_bounded: "length (cl_send c) \<le> send_capacity \<Longrightarrow> length (cl_send (fold Client_Send ms c)) \<le> send_capacity"
  by (induction ms arbitrary: c) (simp_all add: Client_Send_def)

lemma session_run_snoc:
  "session_run decode h (es @ [e]) s = (case session_run decode h es s of None \<Rightarrow> None | Some s1 \<Rightarrow> session_step decode h e s1)"
  by (induction es arbitrary: s) (auto split: option.splits)

lemma offered_append: "offered decode h (es1 @ es2) = offered decode h es1 @ offered decode h es2"
  by (induction decode h es1 rule: offered.induct) auto

subsection \<open>Delivery\<close>

text \<open>Every message taken is written, or lost in a write that ended the writer, or still queued, in this order.\<close>

definition delivers :: "string list \<Rightarrow> session \<Rightarrow> bool" where
  "delivers ms s \<longleftrightarrow> (\<exists>taken lost. ss_written s @ lost @ cl_send (ss_client s) = taken \<and> subseq taken ms \<and>
     (lost = [] \<or> length lost = 1 \<and> \<not> ss_writing s) \<and>
     (\<not> cl_closed (ss_client s) \<and> length ms \<le> send_capacity \<longrightarrow> taken = ms))"

lemma delivers_same:
  assumes "delivers ms s" "ss_written s' = ss_written s" "cl_send (ss_client s') = cl_send (ss_client s)"
    "ss_writing s' \<Longrightarrow> ss_writing s" "cl_closed (ss_client s) \<Longrightarrow> cl_closed (ss_client s')"
  shows "delivers ms s'"
  using assms unfolding delivers_def by metis

lemma delivers_sends:
  assumes "delivers ms s"
  shows "delivers (ms @ new) (s\<lparr>ss_client := fold Client_Send new (ss_client s)\<rparr>)"
proof -
  obtain taken lost where t: "ss_written s @ lost @ cl_send (ss_client s) = taken" "subseq taken ms"
      "lost = [] \<or> length lost = 1 \<and> \<not> ss_writing s"
      "\<not> cl_closed (ss_client s) \<and> length ms \<le> send_capacity \<longrightarrow> taken = ms"
    using assms unfolding delivers_def by blast
  obtain more where m: "cl_send (fold Client_Send new (ss_client s)) = cl_send (ss_client s) @ more" "subseq more new"
      "\<not> cl_closed (ss_client s) \<and> length (cl_send (ss_client s)) + length new \<le> send_capacity \<longrightarrow> more = new"
    using Client_Send_queue by blast
  have "length (cl_send (ss_client s)) \<le> length ms" using t(1,2) list_emb_length by fastforce
  then have "taken @ more = ms @ new" if "\<not> cl_closed (ss_client s)" "length (ms @ new) \<le> send_capacity"
    using that t(4) m(3) by simp
  then show ?thesis unfolding delivers_def
    using t(1,3) list_emb_append_mono[OF t(2) m(2)] m(1)
    by (intro exI[of _ "taken @ more"] exI[of _ lost]) auto
qed

lemma delivers_writer:
  assumes "delivers ms s" "session_step decode h (WriterTakes wc) s = Some s'"
  shows "delivers ms s'"
proof -
  have w: "ss_writing s" "writer_enabled wc (ss_client s)" using assms(2) by (auto split: if_splits)
  with assms(1) obtain taken where t: "ss_written s @ cl_send (ss_client s) = taken" "subseq taken ms"
      "\<not> cl_closed (ss_client s) \<and> length ms \<le> send_capacity \<longrightarrow> taken = ms"
    unfolding delivers_def by auto
  show ?thesis
  proof (cases wc)
    case (TakeMessage err)
    then obtain m q where q: "cl_send (ss_client s) = m # q" using w(2) by (cases "cl_send (ss_client s)") auto
    show ?thesis
      using assms(2) w t q TakeMessage unfolding delivers_def
      by (intro exI[of _ taken] exI[of _ "if err = None then [] else [m]"]) (auto split: option.splits)
  next
    case (TakeTick err)
    then show ?thesis using assms(2) by (intro delivers_same[OF assms(1)]) (auto split: option.splits if_splits)
  next
    case TakeClosed
    then show ?thesis using assms(2) by (intro delivers_same[OF assms(1)]) (auto split: if_splits)
  qed
qed

lemma delivers_step:
  assumes "delivers ms s" "session_step decode h e s = Some s'"
  shows "delivers (ms @ offered decode h [e]) s'"
proof (cases e)
  case (Offer m)
  then show ?thesis using assms delivers_sends[OF assms(1), of "[m]"] by simp
next
  case (ReadFrame err msg)
  then show ?thesis
  proof (cases err)
    case None
    with ReadFrame assms(2) have "s' = s\<lparr>ss_client := fold Client_Send (answer_to decode h msg) (ss_client s), ss_reader := Reading\<rparr>"
      by (auto simp: reader_round split: if_splits)
    then show ?thesis
      using delivers_same[OF delivers_sends[OF assms(1), of "answer_to decode h msg"], of s'] ReadFrame None by simp
  next
    case (Some x)
    with ReadFrame assms(2) show ?thesis by (auto intro: delivers_same[OF assms(1)] simp: reader_round split: if_splits)
  qed
next
  case (WriterTakes wc)
  then show ?thesis using delivers_writer[OF assms(1)] assms(2) by simp
next
  case CloseByManager
  with assms(2) show ?thesis by (auto intro: delivers_same[OF assms(1)] simp: closed_client_def Client_Close_def)
next
  case ReaderLeaves
  with assms(2) show ?thesis by (auto intro: delivers_same[OF assms(1)] split: if_splits)
qed

lemma delivers_run:
  "session_run decode h es (Listen (NewClient u k)) = Some s \<Longrightarrow> delivers (offered decode h es) s"
proof (induction es arbitrary: s rule: rev_induct)
  case Nil
  then show ?case by (auto simp: delivers_def Listen_def NewClient_def)
next
  case (snoc e es)
  then obtain s1 where s1: "session_run decode h es (Listen (NewClient u k)) = Some s1" "session_step decode h e s1 = Some s"
    by (auto simp: session_run_snoc split: option.splits)
  show ?case unfolding offered_append by (rule delivers_step[OF snoc.IH[OF s1(1)] s1(2)])
qed

subsection \<open>The end of a session\<close>

definition session_wf :: "session \<Rightarrow> bool" where
  "session_wf s \<longleftrightarrow> length (cl_send (ss_client s)) \<le> send_capacity \<and>
     (\<not> ss_writing s \<or> ss_reader s = ReaderDone \<or> cl_closed (ss_client s) \<longrightarrow> \<not> cl_conn_open (ss_client s))"

lemma session_wf_step:
  assumes "session_wf s" "session_step decode h e s = Some s'"
  shows "session_wf s'"
proof (cases e)
  case (Offer m)
  then show ?thesis using assms fold_Send_bounded[of "ss_client s" "[m]"] fold_Send_flags[of "[m]" "ss_client s"]
    by (auto simp: session_wf_def)
next
  case (WriterTakes wc)
  then show ?thesis using assms
    by (cases wc) (auto simp: session_wf_def Let_def split: option.splits if_splits intro: le_trans[OF diff_le_self])
qed (use assms fold_Send_bounded in \<open>auto simp: session_wf_def reader_round closed_client_def Client_Close_def split: if_splits\<close>)

lemma session_wf_run: "session_run decode h es s = Some s' \<Longrightarrow> session_wf s \<Longrightarrow> session_wf s'"
  by (induction es arbitrary: s) (auto split: option.splits intro: session_wf_step)

lemma session_wf_Listen: "session_wf (Listen (NewClient u k))"
  by (simp add: session_wf_def Listen_def NewClient_def)

text \<open>The steps of the two goroutines, and how many of them a closed client has left.\<close>

fun goroutine_event :: "session_event \<Rightarrow> bool" where
  "goroutine_event (ReadFrame _ _) = True"
| "goroutine_event ReaderLeaves = True"
| "goroutine_event (WriterTakes _) = True"
| "goroutine_event _ = False"

definition session_rank :: "session \<Rightarrow> nat" where
  "session_rank s = (if ss_writing s then length (cl_send (ss_client s)) + 1 else 0) +
     (case ss_reader s of Reading \<Rightarrow> 2 | Unregistering \<Rightarrow> 1 | ReaderDone \<Rightarrow> 0)"

lemma rank_step:
  assumes "session_wf s" "cl_closed (ss_client s)" "session_step decode h e s = Some s'"
  shows "cl_closed (ss_client s') \<and> session_rank s' + of_bool (goroutine_event e) \<le> session_rank s"
proof -
  have "\<not> cl_conn_open (ss_client s)" using assms(1,2) by (simp add: session_wf_def)
  then show ?thesis
  proof (cases e)
    case (WriterTakes wc)
    then show ?thesis using assms \<open>\<not> cl_conn_open (ss_client s)\<close>
      by (cases wc; cases "cl_send (ss_client s)") (auto simp: session_rank_def Let_def split: option.splits if_splits)
  qed (use assms in \<open>auto simp: session_rank_def reader_round Client_Send_def closed_client_def Client_Close_def split: if_splits\<close>)
qed

lemma rank_run:
  "session_run decode h es s = Some s' \<Longrightarrow> session_wf s \<Longrightarrow> cl_closed (ss_client s) \<Longrightarrow>
     cl_closed (ss_client s') \<and> length (filter goroutine_event es) + session_rank s' \<le> session_rank s"
proof (induction es arbitrary: s)
  case (Cons e es)
  then obtain s1 where s1: "session_step decode h e s = Some s1" "session_run decode h es s1 = Some s'" by (auto split: option.splits)
  note r = rank_step[OF Cons.prems(2,3) s1(1)]
  show ?case using Cons.IH[OF s1(2) session_wf_step[OF Cons.prems(2) s1(1)]] r by auto
qed simp

lemma rank_progress:
  assumes "cl_closed (ss_client s)" "ss_writing s \<or> ss_reader s \<noteq> ReaderDone"
  shows "\<exists>e s'. goroutine_event e \<and> session_step decode h e s = Some s'"
proof -
  have "session_step decode h (WriterTakes TakeClosed) s \<noteq> None" if "ss_writing s" using that assms(1) by simp
  moreover have "session_step decode h (ReadFrame (Some ''closed'') '''') s \<noteq> None" if "ss_reader s = Reading"
    using that by (simp add: reader_round)
  moreover have "session_step decode h ReaderLeaves s \<noteq> None" if "ss_reader s = Unregistering" using that by simp
  moreover consider "ss_writing s" | "ss_reader s = Reading" | "ss_reader s = Unregistering"
    using assms(2) by (cases "ss_reader s") auto
  ultimately show ?thesis by cases (meson goroutine_event.simps(1-3) not_None_eq)+
qed

section \<open>Properties\<close>

text \<open>In every interleaving of the goroutines of a WebSocket session the messages handed to the connection, then at most one
  lost in the write error that ended the writer, then those queued are a subsequence, in order, of what was offered: the
  messages of Send and the answers of the handler to the frames read. Nothing is dropped while the client is open and has
  been offered no more than the buffer holds. The buffer never exceeds 1024 messages, and the connection is closed once the
  writer or the reader has ended or the client was closed.\<close>

theorem session_delivery:
  assumes "session_run decode h es (Listen (NewClient u k)) = Some s"
  shows "(\<exists>lost. length lost \<le> 1 \<and> (lost \<noteq> [] \<longrightarrow> \<not> ss_writing s) \<and>
       subseq (ss_written s @ lost @ cl_send (ss_client s)) (offered decode h es) \<and>
       (\<not> cl_closed (ss_client s) \<and> length (offered decode h es) \<le> 1024 \<longrightarrow>
          ss_written s @ lost @ cl_send (ss_client s) = offered decode h es)) \<and>
     length (cl_send (ss_client s)) \<le> 1024 \<and>
     (\<not> ss_writing s \<or> ss_reader s = ReaderDone \<or> cl_closed (ss_client s) \<longrightarrow> \<not> cl_conn_open (ss_client s))"
proof -
  obtain lost where l: "subseq (ss_written s @ lost @ cl_send (ss_client s)) (offered decode h es)"
      "lost = [] \<or> length lost = 1 \<and> \<not> ss_writing s"
      "\<not> cl_closed (ss_client s) \<and> length (offered decode h es) \<le> 1024 \<longrightarrow>
         ss_written s @ lost @ cl_send (ss_client s) = offered decode h es"
    using delivers_run[OF assms] unfolding delivers_def send_capacity_def by blast
  from l(2) have "length lost \<le> 1" "lost \<noteq> [] \<longrightarrow> \<not> ss_writing s" by auto
  moreover have "session_wf s" by (rule session_wf_run[OF assms session_wf_Listen])
  ultimately show ?thesis using l(1,3) unfolding session_wf_def send_capacity_def by blast
qed

definition echo :: "string \<Rightarrow> string option" where "echo m = Some (m @ ''!'')"

theorem session_delivery_witness:
  "\<exists>s. session_run Some echo [ReadFrame None ''hi'', Offer ''keepalive'', WriterTakes (TakeMessage None)] (Listen (NewClient ''u'' ''k'')) = Some s \<and>
     ss_written s = [''hi!''] \<and> ss_written s @ cl_send (ss_client s) = [''hi!'', ''keepalive'']"
proof -
  let ?es = "[ReadFrame None ''hi'', Offer ''keepalive'', WriterTakes (TakeMessage None)]"
  let ?s = "\<lparr>ss_client = \<lparr>cl_sessionId = ''k'', cl_userId = ''u'', cl_send = [''keepalive''], cl_closed = False, cl_conn_open = True\<rparr>,
     ss_reader = Reading, ss_writing = True, ss_written = [''hi!'']\<rparr>"
  have r: "session_run Some echo ?es (Listen (NewClient ''u'' ''k'')) = Some ?s"
    by (simp add: Listen_def NewClient_def reader_round answer_to_def echo_def Client_Send_def send_capacity_def)
  have o: "offered Some echo ?es = [''hi!'', ''keepalive'']" by (simp add: answer_to_def echo_def)
  show ?thesis using session_delivery[OF r] r unfolding o by (intro exI[of _ ?s]) auto
qed

text \<open>Once the manager has closed the client of a session, its goroutines end: whatever happens, they make at most three steps
  more than there are messages queued, and until both have ended one of them can always make one.\<close>

theorem session_ends:
  assumes "session_run decode h es (Listen (NewClient u k)) = Some s" "cl_closed (ss_client s)" "session_run decode h es' s = Some s'"
  shows "length (filter goroutine_event es') \<le> length (cl_send (ss_client s)) + 3 \<and>
     (ss_writing s' \<or> ss_reader s' \<noteq> ReaderDone \<longrightarrow> (\<exists>e s''. goroutine_event e \<and> session_step decode h e s' = Some s''))"
  using rank_run[OF assms(3) session_wf_run[OF assms(1) session_wf_Listen] assms(2)] rank_progress[of s' decode h]
  by (auto simp: session_rank_def split: reader_pc.splits if_splits)

theorem session_ends_witness:
  "length (filter goroutine_event [ReadFrame (Some ''closed'') '''', ReaderLeaves, WriterTakes TakeClosed]) \<le> length [''m''] + 3 \<and>
   (\<exists>s. session_run Some echo [Offer ''m'', CloseByManager] (Listen (NewClient ''u'' ''k'')) = Some s \<and>
     (\<exists>s'. session_run Some echo [ReadFrame (Some ''closed'') '''', ReaderLeaves, WriterTakes TakeClosed] s = Some s'))"
proof -
  let ?c = "\<lparr>cl_sessionId = ''k'', cl_userId = ''u'', cl_send = [''m''], cl_closed = True, cl_conn_open = False\<rparr>"
  let ?s = "\<lparr>ss_client = ?c, ss_reader = Reading, ss_writing = True, ss_written = []\<rparr>"
  have r: "session_run Some echo [Offer ''m'', CloseByManager] (Listen (NewClient ''u'' ''k'')) = Some ?s"
    by (simp add: Listen_def NewClient_def Client_Send_def send_capacity_def closed_client_def Client_Close_def)
  have r2: "session_run Some echo [ReadFrame (Some ''closed'') '''', ReaderLeaves, WriterTakes TakeClosed] ?s =
      Some \<lparr>ss_client = ?c, ss_reader = ReaderDone, ss_writing = False, ss_written = []\<rparr>"
    by (simp add: reader_round)
  show ?thesis using session_ends[OF r _ r2] r r2 by auto
qed

end
