(* ===== verification/Ws_Hub.thy ===== *)
theory Ws_Hub
  imports Ws_Session
begin

section \<open>The WebSocket manager with the sessions of its clients\<close>

text \<open>
  Composes \<open>http_server/ws_client_manager.go\<close> and \<open>http_server/ws_client.go\<close>: the manager, whose operations send to and close
  the client objects, and the two goroutines of every client that listens, which run on the same objects and
  unregister with the manager when the reader ends. An event is one step of anyone; its outcomes are a list, since a
  \<open>select\<close> may have a choice, and the empty list is a goroutine that blocks.
  \<open>Listen\<close> is called at most once for a client. The codec and the message handler are parameters.
\<close>

subsection \<open>The manager by events\<close>

datatype ws_event =
    WsStart
  | WsRegister nat
  | WsUnregister nat
  | WsBroadcast string
  | WsLoopStop
  | WsKeepLive
  | WsKickUser string
  | WsKickSession string
  | WsStop
  | WsClose nat
  | WsSend nat string

fun ws_do :: "ws_event \<Rightarrow> ClientManager \<Rightarrow> ClientManager list" where
  "ws_do WsStart m = (case Start_enter m of Panicked \<Rightarrow> [] | Returned m' \<Rightarrow> [m'])"
| "ws_do (WsRegister c) m = RegisterClient c m"
| "ws_do (WsUnregister c) m = UnregisterClient c m"
| "ws_do (WsBroadcast msg) m = BroadcastMessage msg m"
| "ws_do WsLoopStop m = (if cm_looping m \<and> cm_stopped m then [loop_stop m] else [])"
| "ws_do WsKeepLive m = [ClientKeepLive m]"
| "ws_do (WsKickUser u) m = [KickClientByUserId u m]"
| "ws_do (WsKickSession sid) m = [KickClientBySessionId sid m]"
| "ws_do WsStop m = [Manager_Stop m]"
| "ws_do (WsClose c) m = [on_client closed_client c m]"
| "ws_do (WsSend c msg) m = [on_client (Client_Send msg) c m]"

subsection \<open>The hub\<close>

text \<open>\<open>ub_listening\<close>: the clients whose \<open>Listen\<close> was called; \<open>ub_left\<close>: the readers whose \<open>UnregisterClient\<close> has returned.\<close>

record hub =
  ub_m :: ClientManager
  ub_listening :: "nat \<Rightarrow> bool"
  ub_reader :: "nat \<Rightarrow> reader_pc"
  ub_left :: "nat \<Rightarrow> bool"
  ub_writing :: "nat \<Rightarrow> bool"
  ub_written :: "nat \<Rightarrow> string list"

definition new_hub :: "(nat \<Rightarrow> Client) \<Rightarrow> hub" where
  "new_hub heap = \<lparr>ub_m = NewClientManager heap, ub_listening = (\<lambda>_. False), ub_reader = (\<lambda>_. Reading), ub_left = (\<lambda>_. False),
     ub_writing = (\<lambda>_. True), ub_written = (\<lambda>_. [])\<rparr>"

text \<open>The session of one client, and the hub with that session replaced.\<close>

definition session_of :: "nat \<Rightarrow> hub \<Rightarrow> session" where
  "session_of c u = \<lparr>ss_client = cm_heap (ub_m u) c, ss_reader = ub_reader u c, ss_writing = ub_writing u c, ss_written = ub_written u c\<rparr>"

definition put_session :: "nat \<Rightarrow> session \<Rightarrow> hub \<Rightarrow> hub" where
  "put_session c s u = u\<lparr>ub_m := on_client (\<lambda>_. ss_client s) c (ub_m u), ub_reader := (ub_reader u)(c := ss_reader s),
     ub_writing := (ub_writing u)(c := ss_writing s), ub_written := (ub_written u)(c := ss_written s)\<rparr>"

datatype hub_event =
    Manage ws_event
  | CallListen nat
  | Reads nat "string option" string
  | Unregisters nat
  | Leaves nat
  | Writes nat "string writer_case"

definition session_outcomes ::
  "(string \<Rightarrow> 'm option) \<Rightarrow> ('m \<Rightarrow> string option) \<Rightarrow> nat \<Rightarrow> session_event \<Rightarrow> hub \<Rightarrow> hub list" where
  "session_outcomes decode h c e u =
     (case session_step decode h e (session_of c u) of None \<Rightarrow> [] | Some s \<Rightarrow> [put_session c s u])"

fun hub_do :: "(string \<Rightarrow> 'm option) \<Rightarrow> ('m \<Rightarrow> string option) \<Rightarrow> hub_event \<Rightarrow> hub \<Rightarrow> hub list" where
  "hub_do decode h (Manage e) u = map (\<lambda>m. u\<lparr>ub_m := m\<rparr>) (ws_do e (ub_m u))"
| "hub_do decode h (CallListen c) u = (if ub_listening u c then [] else [u\<lparr>ub_listening := (ub_listening u)(c := True)\<rparr>])"
| "hub_do decode h (Reads c err msg) u = (if ub_listening u c then session_outcomes decode h c (ReadFrame err msg) u else [])"
| "hub_do decode h (Unregisters c) u =
     (if ub_reader u c = Unregistering \<and> \<not> ub_left u c
      then map (\<lambda>m. u\<lparr>ub_m := m, ub_left := (ub_left u)(c := True)\<rparr>) (UnregisterClient c (ub_m u)) else [])"
| "hub_do decode h (Leaves c) u = (if ub_left u c then session_outcomes decode h c ReaderLeaves u else [])"
| "hub_do decode h (Writes c wc) u = (if ub_listening u c then session_outcomes decode h c (WriterTakes wc) u else [])"

text \<open>A run, each event of which is allowed where it happens.\<close>

inductive event_run :: "('e \<Rightarrow> 's \<Rightarrow> 's list) \<Rightarrow> ('s \<Rightarrow> 'e \<Rightarrow> bool) \<Rightarrow> 's \<Rightarrow> 'e list \<Rightarrow> 's \<Rightarrow> bool"
  for step allowed s0 where
  init: "event_run step allowed s0 [] s0"
| step: "event_run step allowed s0 es s \<Longrightarrow> allowed s e \<Longrightarrow> s' \<in> set (step e s) \<Longrightarrow> event_run step allowed s0 (es @ [e]) s'"

section \<open>Lemmas\<close>

subsection \<open>The events are the steps\<close>

lemma ws_do_step: "ws_step m m' \<longleftrightarrow> (\<exists>e. m' \<in> set (ws_do e m))"
proof
  show "\<exists>e. m' \<in> set (ws_do e m)" if "ws_step m m'"
    using that
  proof cases
    case start
    then show ?thesis by (intro exI[of _ WsStart]) simp
  next
    case (register c)
    then show ?thesis by (intro exI[of _ "WsRegister c"]) simp
  next
    case (unregister c)
    then show ?thesis by (intro exI[of _ "WsUnregister c"]) simp
  next
    case (broadcast msg)
    then show ?thesis by (intro exI[of _ "WsBroadcast msg"]) simp
  next
    case loop_stop
    then show ?thesis by (intro exI[of _ WsLoopStop]) simp
  next
    case keep_live
    then show ?thesis by (intro exI[of _ WsKeepLive]) simp
  next
    case (kick_user u)
    then show ?thesis by (intro exI[of _ "WsKickUser u"]) simp
  next
    case (kick_session sid)
    then show ?thesis by (intro exI[of _ "WsKickSession sid"]) simp
  next
    case stop
    then show ?thesis by (intro exI[of _ WsStop]) simp
  next
    case (client_close c)
    then show ?thesis by (intro exI[of _ "WsClose c"]) simp
  next
    case (client_send msg c)
    then show ?thesis by (intro exI[of _ "WsSend c msg"]) simp
  qed
  show "ws_step m m'" if ex: "\<exists>e. m' \<in> set (ws_do e m)"
  proof -
    obtain e where "m' \<in> set (ws_do e m)" using ex by blast
    then show ?thesis by (cases e) (auto intro: ws_step.intros split: outcome.splits if_splits)
  qed
qed

text \<open>What a manager event says to a client, and what it does to the object.\<close>

fun ws_says :: "nat \<Rightarrow> ws_event \<Rightarrow> string list" where
  "ws_says c (WsBroadcast msg) = [msg]"
| "ws_says c WsKeepLive = [''keepalive'']"
| "ws_says c (WsSend d msg) = (if d = c then [msg] else [])"
| "ws_says c _ = []"

lemma ws_do_client:
  assumes "m' \<in> set (ws_do e m)"
  shows "cm_heap m' c = cm_heap m c \<or> (cm_heap m' c = closed_client (cm_heap m c) \<and> ws_says c e = []) \<or>
    (\<exists>msg. cm_heap m' c = Client_Send msg (cm_heap m c) \<and> ws_says c e = [msg])"
  using assms by (cases e) (auto simp: ws_ops split: if_splits option.splits outcome.splits)

text \<open>A broadcast and a keep-alive reach the clients that are registered; a broadcast may also be ignored once the manager is stopped.\<close>

fun ws_reaches :: "nat \<Rightarrow> ClientManager \<Rightarrow> ws_event \<Rightarrow> bool" where
  "ws_reaches c m (WsBroadcast _) = (c \<in> ran (cm_clients m) \<and> \<not> cm_stopped m)"
| "ws_reaches c m WsKeepLive = (c \<in> ran (cm_clients m))"
| "ws_reaches c m _ = True"

lemma ws_do_reaches:
  assumes "m' \<in> set (ws_do e m)" "ws_reaches c m e" "ws_says c e = [msg]"
  shows "cm_heap m' c = Client_Send msg (cm_heap m c)"
  using assms by (cases e) (auto simp: ws_ops split: if_splits)

subsection \<open>Projections\<close>

text \<open>
  A system whose every step is, seen from one of its parts, a run of that part. The laws of the part's runs are what makes
  the projections of the steps compose: the observations of the system contain those of the part, and are the same while
  \<open>exact\<close> holds.
\<close>

locale projection =
  fixes step :: "'e \<Rightarrow> 's \<Rightarrow> 's list" and exact :: "'s \<Rightarrow> 'e \<Rightarrow> bool" and seen :: "'e \<Rightarrow> 'o list"
    and part :: "'s \<Rightarrow> 'a" and runs :: "'f list \<Rightarrow> 'a \<Rightarrow> 'a option" and offers :: "'f list \<Rightarrow> 'o list"
  assumes runs_append: "runs (fs @ fs') a = (case runs fs a of None \<Rightarrow> None | Some a' \<Rightarrow> runs fs' a')"
    and runs_nil: "runs [] a = Some a"
    and offers_append: "offers (fs @ fs') = offers fs @ offers fs'"
    and offers_nil: "offers [] = []"
    and step_projects: "s' \<in> set (step e s) \<Longrightarrow>
      \<exists>fs. runs fs (part s) = Some (part s') \<and> subseq (offers fs) (seen e) \<and> (exact s e \<longrightarrow> offers fs = seen e)"
begin

lemma run_projects:
  assumes "event_run step allowed s0 es s"
  shows "\<exists>fs. runs fs (part s0) = Some (part s) \<and> subseq (offers fs) (concat (map seen es)) \<and>
    ((\<forall>s e. allowed s e \<longrightarrow> exact s e) \<longrightarrow> offers fs = concat (map seen es))"
  using assms
proof induction
  case init
  show ?case by (intro exI[of _ "[]"]) (simp add: runs_nil offers_nil)
next
  case (step es s e s')
  obtain fs where fs: "runs fs (part s0) = Some (part s)" "subseq (offers fs) (concat (map seen es))"
      "(\<forall>s e. allowed s e \<longrightarrow> exact s e) \<longrightarrow> offers fs = concat (map seen es)"
    using step.IH by blast
  obtain fs' where fs': "runs fs' (part s) = Some (part s')" "subseq (offers fs') (seen e)" "exact s e \<longrightarrow> offers fs' = seen e"
    using step_projects[OF step.hyps(3)] by blast
  have "offers (fs @ fs') = concat (map seen (es @ [e]))" if "\<forall>s e. allowed s e \<longrightarrow> exact s e"
    using that fs(3) fs'(3) step.hyps(2) by (simp add: offers_append)
  then show ?case using fs(1,2) fs'(1,2) list_emb_append_mono[OF fs(2) fs'(2)]
    by (intro exI[of _ "fs @ fs'"]) (simp add: runs_append offers_append)
qed

end

subsection \<open>A client in the hub\<close>

fun hub_says :: "(string \<Rightarrow> 'm option) \<Rightarrow> ('m \<Rightarrow> string option) \<Rightarrow> nat \<Rightarrow> hub_event \<Rightarrow> string list" where
  "hub_says decode h c (Manage e) = ws_says c e"
| "hub_says decode h c (Reads d None msg) = (if d = c then answer_to decode h msg else [])"
| "hub_says decode h c _ = []"

fun hub_reaches :: "nat \<Rightarrow> hub \<Rightarrow> hub_event \<Rightarrow> bool" where
  "hub_reaches c u (Manage e) = ws_reaches c (ub_m u) e"
| "hub_reaches c u _ = True"

fun hub_own :: "nat \<Rightarrow> hub_event \<Rightarrow> bool" where
  "hub_own c (Reads d _ _) = (d = c)"
| "hub_own c (Unregisters d) = (d = c)"
| "hub_own c (Leaves d) = (d = c)"
| "hub_own c (Writes d _) = (d = c)"
| "hub_own c _ = False"

lemma session_of_fields [simp]:
  "ss_client (session_of c u) = cm_heap (ub_m u) c" "ss_reader (session_of c u) = ub_reader u c"
  "ss_writing (session_of c u) = ub_writing u c" "ss_written (session_of c u) = ub_written u c"
  by (simp_all add: session_of_def)

lemma session_of_put [simp]: "session_of c (put_session d s u) = (if c = d then s else session_of c u)"
  by (simp add: session_of_def put_session_def)

text \<open>The events of the session of \<open>c\<close> that an event of the hub is.\<close>

definition sub_event ::
  "(string \<Rightarrow> 'm option) \<Rightarrow> ('m \<Rightarrow> string option) \<Rightarrow> nat \<Rightarrow> hub \<Rightarrow> hub_event \<Rightarrow> hub \<Rightarrow> session_event list \<Rightarrow> bool" where
  "sub_event decode h c u e u' ss \<longleftrightarrow> session_run decode h ss (session_of c u) = Some (session_of c u') \<and>
     subseq (offered decode h ss) (hub_says decode h c e) \<and>
     (hub_reaches c u e \<longrightarrow> offered decode h ss = hub_says decode h c e) \<and>
     length (filter goroutine_event ss) = of_bool (hub_own c e \<and> e \<noteq> Unregisters c)"

lemma sub_event_manager:
  assumes m: "m' \<in> set (ws_do e (ub_m u))"
  shows "\<exists>ss. sub_event decode h c u (Manage e) (u\<lparr>ub_m := m'\<rparr>) ss"
proof -
  have so: "session_of c (u\<lparr>ub_m := m'\<rparr>) = (session_of c u)\<lparr>ss_client := cm_heap m' c\<rparr>" by (simp add: session_of_def)
  consider "cm_heap m' c = cm_heap (ub_m u) c" "ws_says c e = [] \<or> \<not> ws_reaches c (ub_m u) e"
    | "cm_heap m' c = closed_client (cm_heap (ub_m u) c)" "ws_says c e = []"
    | msg where "cm_heap m' c = Client_Send msg (cm_heap (ub_m u) c)" "ws_says c e = [msg]"
  proof (cases "ws_says c e = [] \<or> \<not> ws_reaches c (ub_m u) e")
    case True
    then show ?thesis using ws_do_client[OF m, of c] that by blast
  next
    case False
    then obtain msg where "ws_says c e = [msg]" by (cases e) (auto split: if_splits)
    then show ?thesis using ws_do_reaches[OF m] False that(3) by blast
  qed
  then show ?thesis
  proof cases
    case 1
    then show ?thesis by (intro exI[of _ "[]"]) (auto simp: sub_event_def so session_of_def)
  next
    case 2
    then show ?thesis by (intro exI[of _ "[CloseByManager]"]) (simp add: sub_event_def so)
  next
    case 3
    then show ?thesis by (intro exI[of _ "[Offer msg]"]) (simp add: sub_event_def so)
  qed
qed

lemma session_outcomes_iff:
  "u' \<in> set (session_outcomes decode h c e u) \<longleftrightarrow> (\<exists>s. session_step decode h e (session_of c u) = Some s \<and> u' = put_session c s u)"
  by (cases "session_step decode h e (session_of c u)") (auto simp: session_outcomes_def)

lemma sub_event_session:
  assumes "u' \<in> set (session_outcomes decode h d f u)" "goroutine_event f"
    "hub_own c e \<longleftrightarrow> d = c" "e \<noteq> Unregisters c" "hub_says decode h c e = (if d = c then offered decode h [f] else [])"
  shows "\<exists>ss. sub_event decode h c u e u' ss"
proof -
  obtain s where s: "session_step decode h f (session_of d u) = Some s" "u' = put_session d s u"
    using assms(1) session_outcomes_iff by blast
  show ?thesis
    by (intro exI[of _ "if d = c then [f] else []"]) (use s assms(2-5) in \<open>auto simp: sub_event_def\<close>)
qed

lemma sub_event_step:
  assumes "u' \<in> set (hub_do decode h e u)"
  shows "\<exists>ss. sub_event decode h c u e u' ss"
proof (cases e)
  case (Manage e)
  then show ?thesis using assms sub_event_manager by fastforce
next
  case (CallListen d)
  then show ?thesis using assms by (intro exI[of _ "[]"]) (auto simp: sub_event_def session_of_def split: if_splits)
next
  case (Reads d err msg)
  then show ?thesis using assms
    by (intro sub_event_session[of _ _ _ d "ReadFrame err msg"]) (cases err; auto split: if_splits)+
next
  case (Unregisters d)
  then obtain m where m: "m \<in> set (ws_do (WsUnregister d) (ub_m u))" "u' = u\<lparr>ub_m := m, ub_left := (ub_left u)(d := True)\<rparr>"
    using assms by (auto split: if_splits)
  obtain ss where "sub_event decode h c u (Manage (WsUnregister d)) (u\<lparr>ub_m := m\<rparr>) ss" using sub_event_manager[OF m(1)] by blast
  then show ?thesis using Unregisters m(2) by (intro exI[of _ ss]) (auto simp: sub_event_def session_of_def)
next
  case (Leaves d)
  then show ?thesis using assms by (intro sub_event_session[of _ _ _ d ReaderLeaves]) (auto split: if_splits)
next
  case (Writes d wc)
  then show ?thesis using assms by (intro sub_event_session[of _ _ _ d "WriterTakes wc"]) (auto split: if_splits)
qed

lemma session_run_append:
  "session_run decode h (es @ es') s = (case session_run decode h es s of None \<Rightarrow> None | Some s' \<Rightarrow> session_run decode h es' s')"
  by (induction es arbitrary: s) (auto split: option.splits)

interpretation hub: projection "hub_do decode h" "hub_reaches c" "hub_says decode h c" "session_of c" "session_run decode h" "offered decode h"
  for decode h c
proof
  show "\<exists>fs. session_run decode h fs (session_of c u) = Some (session_of c u') \<and> subseq (offered decode h fs) (hub_says decode h c e) \<and>
      (hub_reaches c u e \<longrightarrow> offered decode h fs = hub_says decode h c e)" if "u' \<in> set (hub_do decode h e u)" for u u' e
    using sub_event_step[OF that] unfolding sub_event_def by blast
qed (simp_all add: session_run_append offered_append)

lemma session_of_new: "heap c = NewClient uid sid \<Longrightarrow> session_of c (new_hub heap) = Listen (NewClient uid sid)"
  by (simp add: session_of_def new_hub_def Listen_def NewClientManager_def)

text \<open>Once the loop runs or the manager is stopped, one of the two holds for good, and unregistering does not block.\<close>

definition serving :: "ClientManager \<Rightarrow> bool" where "serving m \<longleftrightarrow> cm_looping m \<or> cm_stopped m"

lemma serving_ws_do: "m' \<in> set (ws_do e m) \<Longrightarrow> serving m \<Longrightarrow> serving m'"
  by (cases e) (auto simp: serving_def ws_ops split: if_splits option.splits outcome.splits)

lemma serving_unregisters: "serving m \<Longrightarrow> UnregisterClient c m \<noteq> []"
  by (auto simp: serving_def UnregisterClient_def select_send_def)

text \<open>With neither, a reader that has left its loop blocks in \<open>UnregisterClient\<close>: it has no step.\<close>

lemma unregister_blocks:
  assumes "\<not> cm_looping (ub_m u)" "\<not> cm_stopped (ub_m u)" "ub_reader u c = Unregistering" "\<not> ub_left u c"
  shows "hub_do decode h (Unregisters c) u = []" "hub_do decode h (Leaves c) u = []" "hub_do decode h (Reads c err msg) u = []"
  using assms by (simp_all add: UnregisterClient_def select_send_def session_outcomes_def)

text \<open>The steps a closed client has left in the hub.\<close>

definition hub_rank :: "nat \<Rightarrow> hub \<Rightarrow> nat" where
  "hub_rank c u = session_rank (session_of c u) + of_bool (\<not> ub_left u c)"

definition closing :: "nat \<Rightarrow> hub \<Rightarrow> bool" where
  "closing c u \<longleftrightarrow> session_wf (session_of c u) \<and> cl_closed (cm_heap (ub_m u) c) \<and> serving (ub_m u)"

lemma hub_do_left:
  assumes "u' \<in> set (hub_do decode h e u)"
  shows "(ub_left u c \<longrightarrow> ub_left u' c) \<and> (e = Unregisters c \<longrightarrow> \<not> ub_left u c \<and> ub_left u' c) \<and>
    (ub_listening u c \<longrightarrow> ub_listening u' c) \<and> (serving (ub_m u) \<longrightarrow> serving (ub_m u'))"
proof (cases e)
  case (Manage x)
  then show ?thesis using assms serving_ws_do by auto
next
  case (Unregisters d)
  then show ?thesis using assms serving_ws_do[of _ "WsUnregister d"] by (auto split: if_splits)
qed (use assms in \<open>auto simp: session_outcomes_iff put_session_def serving_def split: if_splits\<close>)

lemma hub_rank_step:
  assumes "u' \<in> set (hub_do decode h e u)" "closing c u"
  shows "closing c u' \<and> hub_rank c u' + of_bool (hub_own c e) \<le> hub_rank c u"
proof -
  obtain ss where ss: "session_run decode h ss (session_of c u) = Some (session_of c u')"
      "length (filter goroutine_event ss) = of_bool (hub_own c e \<and> e \<noteq> Unregisters c)"
    using sub_event_step[OF assms(1)] unfolding sub_event_def by blast
  note left = hub_do_left[OF assms(1), of c]
  have "cl_closed (ss_client (session_of c u')) \<and>
      length (filter goroutine_event ss) + session_rank (session_of c u') \<le> session_rank (session_of c u)"
    using assms(2) by (intro rank_run[OF ss(1)]) (simp_all add: closing_def)
  moreover have "session_wf (session_of c u')" using assms(2) session_wf_run[OF ss(1)] by (simp add: closing_def)
  ultimately show ?thesis using assms(2) left ss(2)
    by (cases "e = Unregisters c") (auto simp: closing_def hub_rank_def)
qed

lemma hub_rank_run:
  assumes "event_run (hub_do decode h) allowed u es u'" "closing c u"
  shows "closing c u' \<and> length (filter (hub_own c) es) + hub_rank c u' \<le> hub_rank c u \<and> (ub_listening u c \<longrightarrow> ub_listening u' c)"
  using assms
proof induction
  case (step es s e s')
  then show ?case using hub_rank_step[OF step.hyps(3), of c] hub_do_left[OF step.hyps(3), of c] by auto
qed simp

lemma hub_progress:
  assumes "closing c u" "ub_listening u c" "ub_writing u c \<or> ub_reader u c \<noteq> ReaderDone"
  shows "\<exists>e. hub_own c e \<and> hub_do decode h e u \<noteq> []"
proof -
  have "hub_do decode h (Writes c TakeClosed) u \<noteq> []" if "ub_writing u c"
    using that assms(1,2) by (simp add: closing_def session_outcomes_def)
  moreover have "hub_do decode h (Reads c (Some ''closed'') '''') u \<noteq> []" if "ub_reader u c = Reading"
    using that assms(2) by (simp add: session_outcomes_def reader_round)
  moreover have "hub_do decode h (Leaves c) u \<noteq> []" if "ub_reader u c = Unregistering" "ub_left u c"
    using that by (simp add: session_outcomes_def)
  moreover have "hub_do decode h (Unregisters c) u \<noteq> []" if "ub_reader u c = Unregistering" "\<not> ub_left u c"
    using that serving_unregisters[of "ub_m u" c] assms(1) by (simp add: closing_def)
  moreover have "hub_own c (Writes c TakeClosed)" "hub_own c (Reads c (Some ''closed'') '''')" "hub_own c (Leaves c)" "hub_own c (Unregisters c)"
    by simp_all
  ultimately show ?thesis using assms(3) by (cases "ub_reader u c") blast+
qed

lemma hub_session:
  assumes "event_run (hub_do decode h) allowed (new_hub heap) es u" "heap c = NewClient uid sid"
  shows "\<exists>ss. session_run decode h ss (Listen (NewClient uid sid)) = Some (session_of c u) \<and>
    subseq (offered decode h ss) (concat (map (hub_says decode h c) es)) \<and>
    ((\<forall>u e. allowed u e \<longrightarrow> hub_reaches c u e) \<longrightarrow> offered decode h ss = concat (map (hub_says decode h c) es))"
  using hub.run_projects[OF assms(1), of c] unfolding session_of_new[of heap, OF assms(2)] .

lemma hub_session_wf:
  assumes "event_run (hub_do decode h) allowed (new_hub heap) es u" "heap c = NewClient uid sid"
  shows "session_wf (session_of c u)"
  using hub_session[OF assms] session_wf_run session_wf_Listen by blast

section \<open>Properties\<close>

text \<open>C16: Delivery through the manager: in every interleaving of the manager, its callers and the two goroutines of all listening clients,
  the messages handed to the connection of a client, then at most one lost in the write error that ended its writer, then those
  queued are a subsequence, in order, of all that was said to it: the broadcasts, the keep-alives, the direct sends and the
  answers to its own frames. It is exactly that sequence when every broadcast and keep-alive came while the client was
  registered and the manager not stopped, the client is open and no more than the buffer holds was said. The buffer stays within 1024 messages
  and the connection is closed once the writer or the reader has ended or the client was closed.\<close>

theorem hub_delivery:
  assumes "event_run (hub_do decode h) allowed (new_hub heap) es u" "heap c = NewClient uid sid"
  defines "said \<equiv> concat (map (hub_says decode h c) es)"
  shows "(\<exists>lost. length lost \<le> 1 \<and> (lost \<noteq> [] \<longrightarrow> \<not> ub_writing u c) \<and>
       subseq (ub_written u c @ lost @ cl_send (cm_heap (ub_m u) c)) said \<and>
       ((\<forall>u e. allowed u e \<longrightarrow> hub_reaches c u e) \<and> \<not> cl_closed (cm_heap (ub_m u) c) \<and> length said \<le> 1024 \<longrightarrow>
          ub_written u c @ lost @ cl_send (cm_heap (ub_m u) c) = said)) \<and>
     length (cl_send (cm_heap (ub_m u) c)) \<le> 1024 \<and>
     (\<not> ub_writing u c \<or> ub_reader u c = ReaderDone \<or> cl_closed (cm_heap (ub_m u) c) \<longrightarrow> \<not> cl_conn_open (cm_heap (ub_m u) c))"
proof -
  obtain ss where ss: "session_run decode h ss (Listen (NewClient uid sid)) = Some (session_of c u)"
      "subseq (offered decode h ss) said" "(\<forall>u e. allowed u e \<longrightarrow> hub_reaches c u e) \<longrightarrow> offered decode h ss = said"
    using hub_session[OF assms(1,2)] unfolding said_def by blast
  obtain lost where l: "subseq (ub_written u c @ lost @ cl_send (cm_heap (ub_m u) c)) (offered decode h ss)"
      "lost = [] \<or> length lost = 1 \<and> \<not> ub_writing u c"
      "\<not> cl_closed (cm_heap (ub_m u) c) \<and> length (offered decode h ss) \<le> 1024 \<longrightarrow>
         ub_written u c @ lost @ cl_send (cm_heap (ub_m u) c) = offered decode h ss"
    using delivers_run[OF ss(1)] unfolding delivers_def send_capacity_def session_of_fields by blast
  have sub: "subseq (ub_written u c @ lost @ cl_send (cm_heap (ub_m u) c)) said" by (rule subseq_order.trans[OF l(1) ss(2)])
  have lost: "length lost \<le> 1" "lost \<noteq> [] \<longrightarrow> \<not> ub_writing u c" using l(2) by auto
  have exact: "(\<forall>u e. allowed u e \<longrightarrow> hub_reaches c u e) \<and> \<not> cl_closed (cm_heap (ub_m u) c) \<and> length said \<le> 1024 \<longrightarrow>
      ub_written u c @ lost @ cl_send (cm_heap (ub_m u) c) = said"
    using ss(3) l(3) by metis
  have "session_wf (session_of c u)" by (rule hub_session_wf[OF assms(1,2)])
  then show ?thesis using sub lost exact unfolding session_wf_def send_capacity_def session_of_fields by blast
qed

text \<open>A hub with one listening client: the manager started, the client registered and listening.\<close>

definition greeting_events :: "hub_event list" where
  "greeting_events = [Manage WsStart, Manage (WsRegister 0), CallListen 0, Reads 0 None ''hi'', Manage (WsBroadcast ''news''),
     Writes 0 (TakeMessage None)]"

definition greeted_hub :: hub where
  "greeted_hub = \<lparr>ub_m = one_registered\<lparr>cm_heap := two_clients(0 := (two_clients 0)\<lparr>cl_send := [''news'']\<rparr>)\<rparr>,
     ub_listening = (\<lambda>_. False)(0 := True), ub_reader = (\<lambda>_. Reading), ub_left = (\<lambda>_. False), ub_writing = (\<lambda>_. True),
     ub_written = (\<lambda>_. [])(0 := [''hi!''])\<rparr>"

text \<open>The run that takes the last outcome of every step.\<close>

fun last_run :: "('e \<Rightarrow> 's \<Rightarrow> 's list) \<Rightarrow> ('s \<Rightarrow> 'e \<Rightarrow> bool) \<Rightarrow> 'e list \<Rightarrow> 's \<Rightarrow> 's option" where
  "last_run step allowed [] s = Some s"
| "last_run step allowed (e # es) s =
     (if allowed s e \<and> step e s \<noteq> [] then last_run step allowed es (last (step e s)) else None)"

lemma event_run_Cons:
  assumes "allowed s0 e" "s1 \<in> set (step e s0)" "event_run step allowed s1 es s"
  shows "event_run step allowed s0 (e # es) s"
  using assms(3)
proof induction
  case init
  show ?case using event_run.step[OF event_run.init[of step allowed s0] assms(1,2)] by simp
next
  case (step es s e' s')
  show ?case using event_run.step[OF step.IH step.hyps(2,3)] by simp
qed

lemma last_run_event_run: "last_run step allowed es s0 = Some s \<Longrightarrow> event_run step allowed s0 es s"
proof (induction es arbitrary: s0)
  case (Cons e es)
  then show ?case by (intro event_run_Cons[of allowed s0 e "last (step e s0)"]) (auto split: if_splits)
qed (simp add: event_run.init)

lemma greeting_run: "event_run (hub_do Some echo) (hub_reaches 0) (new_hub two_clients) greeting_events greeted_hub"
  by (rule last_run_event_run)
    (simp add: greeting_events_def greeted_hub_def one_registered_def new_hub_def NewClientManager_def two_clients_def NewClient_def ws_ops
      session_outcomes_def session_of_def put_session_def reader_round answer_to_def echo_def Client_Send_def send_capacity_def fun_eq_iff)

theorem hub_delivery_witness:
  "ub_written greeted_hub 0 @ cl_send (cm_heap (ub_m greeted_hub) 0) = concat (map (hub_says Some echo 0) greeting_events)"
  using hub_delivery[OF greeting_run, of 0 "''alice''" "''s''"]
  by (simp add: two_clients_def greeted_hub_def NewClient_def greeting_events_def answer_to_def echo_def)


definition shutdown_events :: "hub_event list" where
  "shutdown_events = [Reads 0 (Some ''closed'') '''', Unregisters 0, Leaves 0, Writes 0 TakeClosed]"

lemma shutdown_run:
  assumes "ub_listening u 0" "cl_closed (cm_heap (ub_m u) 0)" "cm_stopped (ub_m u)" "cm_clients (ub_m u) = Map.empty"
    "ub_reader u 0 = Reading" "ub_writing u 0" "\<not> ub_left u 0"
  shows "\<exists>u'. last_run (hub_do decode h) (\<lambda>_ _. True) shutdown_events u = Some u' \<and> \<not> ub_writing u' 0 \<and> ub_reader u' 0 = ReaderDone"
proof -
  have un: "UnregisterClient 0 m \<noteq> []" "last (UnregisterClient 0 m) = m" if "cm_stopped m" "cm_clients m = Map.empty" for m
    using that by (simp_all add: UnregisterClient_def select_send_def loop_unregister_def)
  show ?thesis using assms un
    by (simp add: shutdown_events_def session_outcomes_def put_session_def reader_round last_map)
qed


end
