(* ===== verification/Example_Main.thy ===== *)
theory Example_Main
  imports Lifecycle Grpc_Server
begin

section \<open>The example program\<close>

text \<open>
  Models \<open>example/main.go\<close>: the program that puts the packages together. It sets up the service, makes a gRPC server and the
  middleware, and runs a service group with the server until a signal arrives. The outcome of \<open>main\<close> up to \<open>Start\<close> is
  the group with its server; \<^const>\<open>group_launched\<close> and its steps are what \<open>Start\<close> does then.
\<close>

subsection \<open>The program\<close>

definition svcConf :: ServiceConf where
  "svcConf = \<lparr>sv_Name = ''user-service'', sv_Mode = ModePro, sv_Log = \<lparr>lg_Level = ''info'', lg_Encoding = '''', lg_OutputPath = ''''\<rparr>,
     sv_MetricsUrl = '''', sv_Telemetry = \<lparr>tc_Name = '''', tc_Endpoint = '''', tc_Sampler = 0, tc_Batcher = ''''\<rparr>\<rparr>"

definition rpcConf :: GrpcServerConfig where
  "rpcConf = \<lparr>gs_ListenOn = ''0.0.0.0:9090'', gs_Timeout = 5000, gs_Etcd = None\<rparr>"

text \<open>The gRPC server as a service of a group; the state is the server and etcd.\<close>

definition rpc_service ::
  "log_state \<Rightarrow> (string \<Rightarrow> string + string) \<Rightarrow> (EtcdConfig \<Rightarrow> EtcdConfig option) \<Rightarrow> (string list \<Rightarrow> duration \<Rightarrow> string option) \<Rightarrow>
     'e etcd_client \<Rightarrow> (ServiceInfo \<Rightarrow> string + string) \<Rightarrow> string \<Rightarrow> (GrpcServer \<times> 'e) Service" where
  "rpc_service ls listen reparse dial cl marshal sid =
     \<lparr>svc_Start = (\<lambda>(g, e). let (r, g, e) = grpc_Start ls listen reparse dial cl marshal sid g e in (r, (g, e))),
      svc_Stop = (\<lambda>(g, e). let (g, e) = grpc_Stop cl g e in (Returned (), (g, e)))\<rparr>"

text \<open>The middleware that is made and thrown away: what making it does is the registration of the metrics, the limiter and the
  shedder. \<open>now\<close> is the time, \<open>descs\<close> and \<open>sample\<close> are the runtime metrics of the shedder.\<close>

definition make_middleware ::
  "'p prometheus \<Rightarrow> go_time \<Rightarrow> (string \<times> bool) list \<Rightarrow> (string \<Rightarrow> float64) \<Rightarrow> metrics_state \<times> 'p \<Rightarrow>
     (TokenLimiter \<times> AdaptiveShedder) outcome \<times> metrics_state \<times> 'p" where
  "make_middleware pr now descs sample mp =
     (case initMetrics pr ''user-service'' mp of
        (Panicked, mp) \<Rightarrow> (Panicked, mp)
      | (Returned _, mp) \<Rightarrow>
          (let limiter = NewTokenLimiter 1000 1000 ''user-service:rl'' now
           in case NewAdaptiveShedder [] now now now descs sample of
                None \<Rightarrow> (Panicked, mp)
              | Some shedder \<Rightarrow> (Returned (limiter, shedder), mp)))"

definition example_main ::
  "'p prometheus \<Rightarrow> go_time \<Rightarrow> (string \<times> bool) list \<Rightarrow> (string \<Rightarrow> float64) \<Rightarrow> (GrpcServer \<times> 'e) Service \<Rightarrow>
     (string \<rightharpoonup> string) \<times> metrics_state \<times> 'p \<Rightarrow>
     ((GrpcServer \<times> 'e) ServiceGroup \<times> GrpcServer) outcome \<times> (string \<rightharpoonup> string) \<times> metrics_state \<times> 'p" where
  "example_main pr now descs sample as_service = (\<lambda>(env, mp).
     case SetUp svcConf env of
       (Some err, env) \<Rightarrow> (Panicked, env, mp)
     | (None, env) \<Rightarrow>
         (case NewGrpcServer rpcConf of
            Inl err \<Rightarrow> (Panicked, env, mp)
          | Inr rpcServer \<Rightarrow>
              (case make_middleware pr now descs sample mp of
                 (Panicked, mp) \<Rightarrow> (Panicked, env, mp)
               | (Returned _, mp) \<Rightarrow> (Returned (group_Add as_service NewServiceGroup, rpcServer), env, mp))))"

section \<open>Lemmas\<close>

lemma grpc_Startup_keeps_stopped: "gs_stopped (fst (snd (grpc_Startup ls listen reparse dial cl marshal sid g e))) = gs_stopped g"
  by (simp add: grpc_Startup_def Let_def split: sum.splits option.splits outcome.splits prod.splits)

lemma grpc_Startup_after_stop: "gs_stopped g \<Longrightarrow> \<not> gs_serving g \<Longrightarrow> \<not> gs_serving (fst (snd (grpc_Startup ls listen reparse dial cl marshal sid g e)))"
  by (simp add: grpc_Startup_def Let_def split: sum.splits option.splits outcome.splits prod.splits)

text \<open>A server that was stopped stays so, whatever the goroutines still do, and never serves again.\<close>

definition rpc_down :: "GrpcServer \<times> 'e \<Rightarrow> bool" where
  "rpc_down w \<longleftrightarrow> gs_stopped (fst w) \<and> \<not> gs_serving (fst w)"

lemma rpc_Stop_down: "rpc_down (snd (svc_Stop (rpc_service ls listen reparse dial cl marshal sid) w))"
  by (simp add: rpc_down_def rpc_service_def grpc_Stop_def split_beta)

lemma rpc_Start_down:
  "rpc_down w \<Longrightarrow> svc_Start (rpc_service ls listen reparse dial cl marshal sid) w = (r, w') \<Longrightarrow> rpc_down w'"
  using grpc_Startup_keeps_stopped[of ls listen reparse dial cl marshal sid "fst w" "snd w"]
    grpc_Startup_after_stop[of "fst w" ls listen reparse dial cl marshal sid "snd w"]
  by (auto simp: rpc_down_def rpc_service_def grpc_Start_def split_beta split: outcome.splits option.splits)

lemma rpc_stopped_is_down:
  "group_trace g es g' \<Longrightarrow> sg_services (gr_sg g) = [rpc_service ls listen reparse dial cl marshal sid] \<Longrightarrow> gr_stops g = [] \<Longrightarrow>
     once_inv [rpc_service ls listen reparse dial cl marshal sid] g \<Longrightarrow> set (gr_starts g) \<subseteq> {0} \<Longrightarrow>
     set (gr_starts g') \<subseteq> {0} \<and> (gr_stops g' \<noteq> [] \<longrightarrow> rpc_down (gr_w g'))"
proof (induction rule: group_trace.induct)
  case (step g es g1 e g2)
  let ?svc = "rpc_service ls listen reparse dial cl marshal sid"
  have i: "once_inv [?svc] g1" by (rule once_inv_trace[OF step(1) step(6)])
  have svcs: "sg_services (gr_sg g1) = [?svc]" using i by (simp add: once_inv_def)
  have IH: "set (gr_starts g1) \<subseteq> {0}" "gr_stops g1 \<noteq> [] \<longrightarrow> rpc_down (gr_w g1)" using step by auto
  from step(2) show ?case
  proof (cases rule: group_step.cases)
    case (run_start k w)
    then have "k = 0" using IH(1) by auto
    then show ?thesis using run_start IH svcs rpc_Start_down[of "gr_w g1" ls listen reparse dial cl marshal sid] set_remove1_subset[of k "gr_starts g1"]
      by fastforce
  next
    case (stop_service t k todo w)
    have "k \<in> set (gr_stops g1 @ k # todo)" by simp
    then have "k = 0" unfolding once_inv_inside(2)[OF i stop_service(3)] by simp
    then show ?thesis using stop_service IH(1) svcs rpc_Stop_down[of ls listen reparse dial cl marshal sid "gr_w g1"] by simp
  qed (use IH in simp_all)
qed simp

lemma register_all_ok:
  assumes "\<forall>k opts p. \<exists>n p'. pr_MustRegister pr k opts p = (Returned n, p')"
  shows "\<exists>ids' p'. register_all pr vs ids p = (Returned (), ids', p')"
proof (induction vs arbitrary: ids p)
  case (Cons v vs)
  obtain k opts where v: "v = (k, opts)" by fastforce
  obtain n p' where "pr_MustRegister pr k opts p = (Returned n, p')" using assms by blast
  then show ?case using Cons v by simp
qed simp

lemma make_middleware_ok:
  assumes "\<forall>k opts p. \<exists>n p'. pr_MustRegister pr k opts p = (Returned n, p')"
  shows "\<exists>ls mp'. make_middleware pr now descs sample mp = (Returned ls, mp')"
proof -
  have "fst (initMetrics pr ''user-service'' mp) = Returned ()"
    using register_all_ok[OF assms, of "http_vectors ''user-service''" "[]" "snd mp"] by (auto simp: initMetrics_def split_beta)
  then obtain mp' where m: "initMetrics pr ''user-service'' mp = (Returned (), mp')" by (metis prod.collapse)
  have "NewAdaptiveShedder [] now now now descs sample \<noteq> None"
    by (simp add: NewAdaptiveShedder_def newRollingCounter_def default_settings_def go_simps make_slice_def Let_def)
  then show ?thesis using m by (auto simp: make_middleware_def Let_def)
qed

section \<open>Property\<close>

text \<open>C37: The example program. Where Prometheus takes its metrics, main reaches Start with the name and the mode of the service in
  the environment and a group of the gRPC server. Then, for every interleaving of the goroutines: Start waits until SIGINT,
  SIGTERM or a call of Stop; afterwards it can always go on to its return; and whenever it has returned the server is
  stopped and not serving, even when the goroutine that starts it comes late.\<close>

theorem example_stops_server:
  assumes "\<forall>k opts p. \<exists>n p'. pr_MustRegister pr k opts p = (Returned n, p')"
    "svc = rpc_service ls listen reparse dial cl marshal sid"
  shows "\<exists>sg rpc env' mp'. example_main pr now descs sample svc (env, mp) = (Returned (sg, rpc), env', mp') \<and>
     env' ''APP_NAME'' = Some ''user-service'' \<and> env' ''APP_MODE'' = Some ''pro'' \<and>
     (\<forall>es g. group_trace (group_launched sg (rpc, e)) es g \<longrightarrow>
        (\<not> asked es \<longrightarrow> gr_pc g 0 = InSelect) \<and>
        (asked es \<longrightarrow> (\<exists>es' g'. group_trace g es' g' \<and> gr_pc g' 0 = PastStop)) \<and>
        (gr_pc g 0 = PastStop \<longrightarrow> gs_stopped (fst (gr_w g)) \<and> \<not> gs_serving (fst (gr_w g))))"
proof -
  let ?sg = "group_Add svc NewServiceGroup"
  obtain l mp' where m: "make_middleware pr now descs sample mp = (Returned l, mp')" using make_middleware_ok[OF assms(1)] by blast
  obtain rpc where rpc: "NewGrpcServer rpcConf = Inr rpc" by (simp add: NewGrpcServer_def)
  have main: "example_main pr now descs sample svc (env, mp) =
      (Returned (?sg, rpc), env(''APP_NAME'' \<mapsto> ''user-service'', ''APP_MODE'' \<mapsto> ''pro''), mp')"
    by (simp add: example_main_def SetUp_def ServiceConf_Validate_def svcConf_def ModePro_def m rpc)
  have sg: "\<not> sg_stopped ?sg" "sg_services ?sg = [svc]" by (simp_all add: group_Add_def NewServiceGroup_def)
  have ret: "\<forall>svc \<in> set (sg_services ?sg). \<forall>w. fst (svc_Stop svc w) = Returned ()"
    unfolding sg by (simp add: assms(2) rpc_service_def split_beta)
  have inv: "once_inv [svc] (group_launched ?sg (rpc, e))" using once_inv_launched[OF sg(1)] sg(2) by metis
  have down: "rpc_down (gr_w g)" if t: "group_trace (group_launched ?sg (rpc, e)) es g" and p: "gr_pc g 0 = PastStop" for es g
    using rpc_stopped_is_down[OF t, of ls listen reparse dial cl marshal sid] past_stop_all_stopped[OF once_inv_trace[OF t inv] p]
      inv sg(2) by (simp add: assms(2) group_launched_def startAll_def)
  have wait: "gr_pc g 0 = InSelect" if "group_trace (group_launched ?sg (rpc, e)) es g" "\<not> asked es" for es g
    using unasked_waits[OF that(1) HOL.refl sg(1) that(2)] by (simp add: group_launched_def)
  have "\<forall>es g. group_trace (group_launched ?sg (rpc, e)) es g \<longrightarrow>
        (\<not> asked es \<longrightarrow> gr_pc g 0 = InSelect) \<and>
        (asked es \<longrightarrow> (\<exists>es' g'. group_trace g es' g' \<and> gr_pc g' 0 = PastStop)) \<and>
        (gr_pc g 0 = PastStop \<longrightarrow> gs_stopped (fst (gr_w g)) \<and> \<not> gs_serving (fst (gr_w g)))"
    using wait asked_returns[OF sg(1) ret] down unfolding rpc_down_def by blast
  then show ?thesis using main by fastforce
qed

definition quiet_prometheus :: "nat prometheus" where
  "quiet_prometheus = \<lparr>pr_MustRegister = (\<lambda>k opts p. (Returned p, Suc p)), pr_apply = (\<lambda>_ _ _ p. (Returned (), p))\<rparr>"

theorem example_stops_server_witness:
  "\<exists>sg rpc env' mp'. example_main quiet_prometheus 0 [] (\<lambda>_. 0)
       (rpc_service ready_logs Inr Some (\<lambda>_ _. None) mem_client (\<lambda>_. Inr ''x'') ''7'')
       (Map.empty, \<lparr>mt_once = False, mt_vectors = []\<rparr>, 0) = (Returned (sg, rpc), env', mp') \<and>
     env' ''APP_NAME'' = Some ''user-service'' \<and>
     (\<forall>g. group_trace (group_launched sg (rpc, [])) [Signal SIGTERM] g \<longrightarrow> (\<exists>es' g'. group_trace g es' g' \<and> gr_pc g' 0 = PastStop))"
proof -
  have p: "\<forall>k opts p. \<exists>n p'. pr_MustRegister quiet_prometheus k opts p = (Returned n, p')" by (simp add: quiet_prometheus_def)
  have "asked [Signal SIGTERM]" by (simp add: asked_def)
  with example_stops_server[OF p HOL.refl, of 0 "[]" "\<lambda>_. 0" ready_logs Inr Some "\<lambda>_ _. None" mem_client "\<lambda>_. Inr ''x''" "''7''"
      Map.empty "(\<lparr>mt_once = False, mt_vectors = []\<rparr>, 0)" "[]"]
  show ?thesis by blast
qed

end
