(* ===== verification/Protected_Route.thy ===== *)
theory Protected_Route
  imports Http_Middleware
begin

section \<open>A protected route\<close>

text \<open>
  The middleware that \<open>example/main.go\<close> shows, installed on one route in its order: metrics, trace, circuit breaker, rate limit
  (with its local bucket), deadline and load shedding around a handler. Each link is the one of \<open>Http_Middleware\<close> on its own
  state; \<^const>\<open>beside\<close> lets the rest of the chain run next to it. Readings of the clock and the random number are the
  fields of \<open>route_env\<close>.
\<close>

record route_env =
  rt_start :: go_time
  rt_stop :: go_time
  rt_extract :: "(string \<Rightarrow> string) \<Rightarrow> string option"
  rt_made :: go_time
  rt_asked :: go_time
  rt_rnd :: float64
  rt_settled :: go_time
  rt_now :: go_time
  rt_timeout :: duration
  rt_shed :: allow_env
  rt_pass :: "go_time \<times> go_time \<times> go_time"

definition inner_route :: "route_env \<Rightarrow> 'w gin_next \<Rightarrow> (TokenLimiter \<times> AdaptiveShedder \<times> 'w) gin_next" where
  "inner_route e h = RateLimit None (rt_now e) (beside (Timeout (rt_now e) (rt_timeout e)
     (case rt_pass e of (p1, p2, p3) \<Rightarrow> AdaptiveShedding (rt_shed e) p1 p2 p3 (beside h))))"

definition protected_route ::
  "route_env \<Rightarrow> 'w gin_next \<Rightarrow> (http_metrics \<times> http_span list \<times> http_breakers \<times> TokenLimiter \<times> AdaptiveShedder \<times> 'w) gin_next" where
  "protected_route e h = Metrics (rt_start e) (rt_stop e) (beside (Tracing (rt_extract e) (beside
     (CircuitBreaker (rt_made e) (rt_asked e) (rt_rnd e) (rt_settled e) (beside (inner_route e h))))))"

section \<open>Lemmas\<close>

text \<open>What the shedder and the bucket decide on a request.\<close>

definition sheds :: "allow_env \<Rightarrow> AdaptiveShedder \<Rightarrow> bool" where
  "sheds env sh = (case shedder_Allow env sh of Some (Inl _, _) \<Rightarrow> True | _ \<Rightarrow> False)"

definition limited :: "go_time \<Rightarrow> TokenLimiter \<Rightarrow> bool" where
  "limited now tb = (\<not> fst (localAllow now 1 tb))"

definition shed_answer :: "gin_ctx \<Rightarrow> gin_ctx" where
  "shed_answer = AbortWithStatusJSON 503 503 ''service overloaded, please retry later''"

definition limit_answer :: "gin_ctx \<Rightarrow> gin_ctx" where
  "limit_answer = AbortWithStatusJSON 429 429 ''too many requests''"

lemma shedding_layer:
  assumes "shedder_inv sh" "(if sheds env sh then (Returned (), shed_answer c, w) else h c w) = (r, c', w')"
  shows "\<exists>sh'. AdaptiveShedding env p1 p2 p3 (beside h) c (sh, w) = (r, c', sh', w') \<and> shedder_inv sh' \<and>
    as_flying sh' = as_flying sh + (if r = Panicked then 1 else 0)"
proof -
  obtain x sh1 where a: "shedder_Allow env sh = Some (x, sh1)" "shedder_inv sh1"
      "as_flying sh1 = as_flying sh + (case x of Inl _ \<Rightarrow> 0 | Inr _ \<Rightarrow> 1)"
    using shedder_Allow_inv[OF assms(1)] by blast
  show ?thesis
  proof (cases x)
    case (Inl err)
    with a assms(2) show ?thesis by (auto simp: AdaptiveShedding_def sheds_def shed_answer_def)
  next
    case (Inr start)
    with assms(2) a(1) have h: "h c w = (r, c', w')" by (simp add: sheds_def)
    obtain sh2 where p: "promise_Pass start p1 p2 p3 sh1 = Some sh2" "shedder_inv sh2" "as_flying sh2 = as_flying sh1 - 1"
      using promise_Pass_inv[OF a(2)] by blast
    have f: "as_flying (promise_Fail sh1) = as_flying sh1 - 1" by (simp add: promise_Fail_def)
    show ?thesis
      using Inr a p f promise_Fail_inv[OF a(2)] h
      by (cases r) (auto simp: AdaptiveShedding_def beside_def)
  qed
qed

text \<open>The answer of the inner links: what they refuse, and otherwise the handler with the deadline set.\<close>

definition with_deadline :: "route_env \<Rightarrow> gin_ctx \<Rightarrow> gin_ctx" where
  "with_deadline e c = c\<lparr>gc_deadline := with_timeout (rt_now e) (rt_timeout e) (gc_deadline c)\<rparr>"

definition inner_answer :: "route_env \<Rightarrow> 'w gin_next \<Rightarrow> TokenLimiter \<Rightarrow> AdaptiveShedder \<Rightarrow> 'w gin_next" where
  "inner_answer e h tb sh c w =
     (if limited (rt_now e) tb then (Returned (), limit_answer c, w)
      else if sheds (rt_shed e) sh then (Returned (), shed_answer (with_deadline e c), w)
      else h (with_deadline e c) w)"

lemma inner_layer:
  assumes "shedder_inv sh" "inner_answer e h tb sh c w = (r, c', w')"
  shows "\<exists>tb' sh'. inner_route e h c (tb, sh, w) = (r, c', tb', sh', w') \<and> shedder_inv sh' \<and>
    as_flying sh' = as_flying sh + (if r = Panicked then 1 else 0)"
proof -
  obtain p1 p2 p3 where p: "rt_pass e = (p1, p2, p3)" by (metis prod_cases3)
  obtain ok tb' where l: "localAllow (rt_now e) 1 tb = (ok, tb')" by fastforce
  have a: "TokenLimiter_Allow None (rt_now e) tb s = (ok, tb', s)" for s :: "AdaptiveShedder \<times> 'a"
    by (simp add: TokenLimiter_Allow_def AllowN_def reserveN_def l)
  show ?thesis
  proof (cases ok)
    case False
    then show ?thesis using assms a l
      by (auto simp: inner_route_def RateLimit_def inner_answer_def limited_def limit_answer_def)
  next
    case True
    with assms(2) l have "(if sheds (rt_shed e) sh then (Returned (), shed_answer (with_deadline e c), w) else h (with_deadline e c) w) = (r, c', w')"
      by (simp add: inner_answer_def limited_def)
    from shedding_layer[where h = h and c = "with_deadline e c", OF assms(1) this, of p1 p2 p3] True show ?thesis
      by (auto simp: inner_route_def RateLimit_def a p Timeout_def beside_def with_deadline_def)
  qed
qed

lemma tracing_layer:
  assumes "n (c\<lparr>gc_span := Some (length spans)\<rparr>) w = (r, c', w')"
  shows "\<exists>sp. Tracing ext (beside n) c (spans, w) = (r, c', spans @ [sp], w') \<and> hp_ended sp \<and> hp_name sp = gc_FullPath c \<and>
    hp_parent sp = ext (gc_header c)"
  using assms by (cases r) (auto simp: Tracing_def beside_def Let_def)

lemma metrics_layer:
  assumes "n c w = (r, c', w')"
  shows "\<exists>hm'. Metrics t1 t2 (beside n) c (hm, w) = (r, c', hm', w') \<and>
    hm_inFlight hm' = hm_inFlight hm + (if r = Panicked then 1 else 0) \<and>
    hm_total hm' = (if r = Panicked then hm_total hm
      else bump_counter (gc_Method c', if gc_FullPath c' = '''' then ''unknown'' else gc_FullPath c', itoa (gc_status c')) (hm_total hm))"
  using assms by (cases r) (auto simp: Metrics_def beside_def Let_def)

subsection \<open>The whole chain\<close>

text \<open>The breaker of the path of a request: what it answers, and its state after being asked.\<close>

definition path_breaker :: "GoogleBreaker \<Rightarrow> http_breakers \<Rightarrow> gin_ctx \<Rightarrow> GoogleBreaker" where
  "path_breaker fresh hb c = (case breakers_of hb (gc_FullPath c) of Some b \<Rightarrow> b | None \<Rightarrow> fresh)"

definition breaker_opens :: "route_env \<Rightarrow> GoogleBreaker \<Rightarrow> bool" where
  "breaker_opens e b = (fst (the (Allow (rt_asked e) (rt_rnd e) b)) \<noteq> None)"

definition breaker_asked :: "route_env \<Rightarrow> GoogleBreaker \<Rightarrow> GoogleBreaker" where
  "breaker_asked e b = snd (the (Allow (rt_asked e) (rt_rnd e) b))"

definition breaker_settled :: "route_env \<Rightarrow> GoogleBreaker \<Rightarrow> int \<Rightarrow> GoogleBreaker" where
  "breaker_settled e b status = the ((if status \<ge> 500 then promise_Reject else promise_Accept) (rt_settled e) (breaker_asked e b))"

definition open_answer :: "gin_ctx \<Rightarrow> gin_ctx" where
  "open_answer = AbortWithStatusJSON 503 503 ''service unavailable (circuit breaker open)''"

text \<open>The answer of the chain as the client sees it.\<close>

definition route_answer :: "route_env \<Rightarrow> 'w gin_next \<Rightarrow> GoogleBreaker \<Rightarrow> TokenLimiter \<Rightarrow> AdaptiveShedder \<Rightarrow> 'w gin_next" where
  "route_answer e h b tb sh c w = (if breaker_opens e b then (Returned (), open_answer c, w) else inner_answer e h tb sh c w)"

lemma breaker_layer:
  assumes "breakers_ok hb" "NewGoogleBreaker (rt_made e) = Some fresh" "shedder_inv sh"
    "route_answer e h (path_breaker fresh hb c) tb sh c w = (r, c', w')"
  shows "\<exists>hb' tb' sh'. CircuitBreaker (rt_made e) (rt_asked e) (rt_rnd e) (rt_settled e) (beside (inner_route e h)) c (hb, tb, sh, w) =
      (r, c', hb', tb', sh', w') \<and> breakers_ok hb' \<and> shedder_inv sh' \<and>
    as_flying sh' = as_flying sh + (if r = Panicked then 1 else 0) \<and>
    breakers_of hb' = (breakers_of hb)(gc_FullPath c \<mapsto>
      (if breaker_opens e (path_breaker fresh hb c) \<or> r = Panicked then breaker_asked e (path_breaker fresh hb c)
       else breaker_settled e (path_breaker fresh hb c) (gc_status c')))"
proof -
  let ?b = "path_breaker fresh hb c" and ?n = "inner_route e h"
  obtain r0 c0 hb' s0 where run: "CircuitBreaker (rt_made e) (rt_asked e) (rt_rnd e) (rt_settled e) (beside ?n) c (hb, tb, sh, w) = (r0, c0, hb', s0)"
    by (metis prod_cases4)
  note spec = CircuitBreaker_refines[OF assms(1,2) run]
  obtain err b1 where al: "the (Allow (rt_asked e) (rt_rnd e) ?b) = (err, b1)" by fastforce
  have al': "the (Allow (rt_asked e) (rt_rnd e) (case breakers_of hb (gc_FullPath c) of Some b \<Rightarrow> b | None \<Rightarrow> fresh)) = (err, b1)"
    using al by (simp only: path_breaker_def)
  show ?thesis
  proof (cases "err = None")
    case False
    with spec al' have "r0 = Returned ()" "c0 = open_answer c" "s0 = (tb, sh, w)" "breakers_of hb' = (breakers_of hb)(gc_FullPath c \<mapsto> b1)"
      by (auto simp: breaker_request_def Let_def open_answer_def)
    moreover have "breaker_opens e ?b" "breaker_asked e ?b = b1" using False al by (simp_all add: breaker_opens_def breaker_asked_def)
    ultimately show ?thesis using run spec assms(3,4) by (auto simp: route_answer_def)
  next
    case True
    then have o: "\<not> breaker_opens e ?b" "breaker_asked e ?b = b1" using al by (simp_all add: breaker_opens_def breaker_asked_def)
    with assms(4) have "inner_answer e h tb sh c w = (r, c', w')" by (simp add: route_answer_def)
    from inner_layer[OF assms(3) this] obtain tb' sh' where n: "?n c (tb, sh, w) = (r, c', tb', sh', w')" "shedder_inv sh'"
        "as_flying sh' = as_flying sh + (if r = Panicked then 1 else 0)" by blast
    have "r0 = r \<and> c0 = c' \<and> s0 = (tb', sh', w') \<and> breakers_of hb' = (breakers_of hb)(gc_FullPath c \<mapsto>
        (if r = Panicked then b1 else breaker_settled e ?b (gc_status c')))"
      using spec al' True n(1) o by (cases r) (auto simp: breaker_request_def Let_def breaker_settled_def)
    with run spec n o show ?thesis by auto
  qed
qed

section \<open>Property\<close>

text \<open>C38: A request through the whole protection of a route, for every handler. It is answered by the first link that refuses it
  (503 by an open breaker, 429 by an empty bucket, 503 by the shedder), and then the handler is not run and its state is
  untouched; otherwise by the handler, which runs once with the deadline and the span set. When the handler does not panic,
  the requests in flight of the metrics and of the shedder are what they were, the counters go up by one for the status
  answered, exactly one span is added and it has ended, and the breaker of the path, and no other, records one outcome: a
  shed request counts as a failure there and a rate-limited one as a success. A handler that panics leaves both numbers of
  requests in flight one too high, for good, and no record in the breaker.\<close>

theorem protected_route_accounts:
  assumes "breakers_ok hb" "NewGoogleBreaker (rt_made e) = Some fresh" "shedder_inv sh"
    "protected_route e h c (hm, spans, hb, tb, sh, w) = (r, c', hm', spans', hb', tb', sh', w')"
  shows "(r, c', w') = route_answer e h (path_breaker fresh hb c) tb sh (c\<lparr>gc_span := Some (length spans)\<rparr>) w \<and>
     (breaker_opens e (path_breaker fresh hb c) \<or> limited (rt_now e) tb \<or> sheds (rt_shed e) sh \<longrightarrow>
        w' = w \<and> r = Returned () \<and> gc_aborted c' \<and>
        gc_status c' = (if \<not> breaker_opens e (path_breaker fresh hb c) \<and> limited (rt_now e) tb then 429 else 503)) \<and>
     hm_inFlight hm' = hm_inFlight hm + (if r = Panicked then 1 else 0) \<and>
     as_flying sh' = as_flying sh + (if r = Panicked then 1 else 0) \<and>
     (r \<noteq> Panicked \<longrightarrow> hm_total hm' =
        bump_counter (gc_Method c', if gc_FullPath c' = '''' then ''unknown'' else gc_FullPath c', itoa (gc_status c')) (hm_total hm)) \<and>
     (\<exists>sp. spans' = spans @ [sp] \<and> hp_ended sp \<and> hp_name sp = gc_FullPath c) \<and>
     breakers_ok hb' \<and> shedder_inv sh' \<and>
     breakers_of hb' = (breakers_of hb)(gc_FullPath c \<mapsto>
       (if breaker_opens e (path_breaker fresh hb c) \<or> r = Panicked then breaker_asked e (path_breaker fresh hb c)
        else breaker_settled e (path_breaker fresh hb c) (gc_status c')))"
proof -
  let ?c = "c\<lparr>gc_span := Some (length spans)\<rparr>" and ?b = "path_breaker fresh hb c"
  have b: "path_breaker fresh hb ?c = ?b" "gc_FullPath ?c = gc_FullPath c" by (simp_all add: path_breaker_def)
  obtain r1 c1 w1 where ans: "route_answer e h ?b tb sh ?c w = (r1, c1, w1)" by (metis prod_cases3)
  obtain hb1 tb1 sh1 where br: "CircuitBreaker (rt_made e) (rt_asked e) (rt_rnd e) (rt_settled e) (beside (inner_route e h)) ?c (hb, tb, sh, w) =
      (r1, c1, hb1, tb1, sh1, w1)" "breakers_ok hb1" "shedder_inv sh1" "as_flying sh1 = as_flying sh + (if r1 = Panicked then 1 else 0)"
      "breakers_of hb1 = (breakers_of hb)(gc_FullPath c \<mapsto> (if breaker_opens e ?b \<or> r1 = Panicked then breaker_asked e ?b
         else breaker_settled e ?b (gc_status c1)))"
    using breaker_layer[OF assms(1-3), of h ?c tb w r1 c1 w1, unfolded b] ans by blast
  obtain sp where tr: "Tracing (rt_extract e) (beside (CircuitBreaker (rt_made e) (rt_asked e) (rt_rnd e) (rt_settled e) (beside (inner_route e h))))
      c (spans, hb, tb, sh, w) = (r1, c1, spans @ [sp], hb1, tb1, sh1, w1)" "hp_ended sp" "hp_name sp = gc_FullPath c"
    using tracing_layer[where n = "CircuitBreaker (rt_made e) (rt_asked e) (rt_rnd e) (rt_settled e) (beside (inner_route e h))" and
        c = c and spans = spans and ext = "rt_extract e", OF br(1)] by blast
  obtain hm1 where me: "protected_route e h c (hm, spans, hb, tb, sh, w) = (r1, c1, hm1, spans @ [sp], hb1, tb1, sh1, w1)"
      "hm_inFlight hm1 = hm_inFlight hm + (if r1 = Panicked then 1 else 0)"
      "hm_total hm1 = (if r1 = Panicked then hm_total hm
         else bump_counter (gc_Method c1, if gc_FullPath c1 = '''' then ''unknown'' else gc_FullPath c1, itoa (gc_status c1)) (hm_total hm))"
    using metrics_layer[where n = "Tracing (rt_extract e) (beside (CircuitBreaker (rt_made e) (rt_asked e) (rt_rnd e) (rt_settled e) (beside (inner_route e h))))"
        and c = c and w = "(spans, hb, tb, sh, w)" and ?t1.0 = "rt_start e" and ?t2.0 = "rt_stop e" and hm = hm, OF tr(1)]
    unfolding protected_route_def by blast
  have refused: "w1 = w \<and> r1 = Returned () \<and> gc_aborted c1 \<and> gc_status c1 = (if \<not> breaker_opens e ?b \<and> limited (rt_now e) tb then 429 else 503)"
    if "breaker_opens e ?b \<or> limited (rt_now e) tb \<or> sheds (rt_shed e) sh"
    using that ans by (auto simp: route_answer_def inner_answer_def open_answer_def limit_answer_def shed_answer_def AbortWithStatusJSON_def split: if_splits)
  from me(1) assms(4) have eqs: "r1 = r" "c1 = c'" "hm1 = hm'" "spans' = spans @ [sp]" "hb1 = hb'" "sh1 = sh'" "w1 = w'" by simp_all
  show ?thesis using ans br(2-5) tr(2,3) me(2,3) refused unfolding eqs by auto
qed

definition calm_route :: route_env where
  "calm_route = \<lparr>rt_start = 0, rt_stop = 5, rt_extract = (\<lambda>_. None), rt_made = 0, rt_asked = 0, rt_rnd = 1 / 2, rt_settled = 5, rt_now = 0,
     rt_timeout = 3 * Second, rt_shed = calm_env, rt_pass = (5, 5, 5)\<rparr>"

definition idle_metrics :: http_metrics where
  "idle_metrics = \<lparr>hm_inFlight = 0, hm_total = (\<lambda>_. 0), hm_byResult = (\<lambda>_. 0), hm_byClass = (\<lambda>_. 0), hm_durations = []\<rparr>"

theorem protected_route_accounts_witness:
  "\<exists>r c' hm' spans' hb' tb' sh' w'. protected_route calm_route (\<lambda>c w. (Returned (), c\<lparr>gc_status := 200\<rparr>, Suc w)) sample_ctx
       (idle_metrics, [], \<lparr>hb_map = Map.empty, hb_heap = []\<rparr>, NewTokenLimiter 10 10 ''rl'' 0, idle_shedder, 0) =
       (r, c', hm', spans', hb', tb', sh', w') \<and>
     r = Returned () \<and> hm_inFlight hm' = 0 \<and> as_flying sh' = 0 \<and> length spans' = 1 \<and> breakers_of hb' ''/api/b'' = None"
proof -
  let ?h = "\<lambda>c w. (Returned (), c\<lparr>gc_status := 200\<rparr>, Suc w)" and ?hb = "\<lparr>hb_map = Map.empty, hb_heap = []\<rparr>"
  obtain fresh where f: "NewGoogleBreaker (rt_made calm_route) = Some fresh" using new_breaker_exists by blast
  obtain r c' hm' spans' hb' tb' sh' w' where run: "protected_route calm_route ?h sample_ctx
      (idle_metrics, [], ?hb, NewTokenLimiter 10 10 ''rl'' 0, idle_shedder, 0) = (r, c', hm', spans', hb', tb', sh', w')" by (metis surj_pair)
  have ok: "breakers_ok ?hb" by (simp add: breakers_ok_def)
  have sh: "shedder_inv idle_shedder" "as_flying idle_shedder = 0" using idle_shedder_facts by simp_all
  note acc = protected_route_accounts[OF ok f sh(1) run]
  have "fst (route_answer calm_route ?h b tb s c (w :: nat)) = Returned ()" for b tb s c w
    by (simp add: route_answer_def inner_answer_def)
  then have r: "r = Returned ()" using acc by (metis fst_conv)
  have p: "gc_FullPath sample_ctx \<noteq> ''/api/b''" "hm_inFlight idle_metrics = 0" by (simp_all add: sample_ctx_def idle_metrics_def)
  have "length spans' = 1" "hm_inFlight hm' = 0" "as_flying sh' = 0" using acc r p sh(2) by auto
  moreover have "breakers_of hb' ''/api/b'' = None" using acc p by (auto simp: breakers_of_def)
  ultimately show ?thesis using run r by blast
qed

end
