(* ===== verification/Spec2Isabelle.thy ===== *)
theory Spec2Isabelle
  imports Redis_Notify Nats_Client Breaker Shedder Limiters Uuid_Worker Shared_Calls Go_Errors Ws_Manager Gateway Registry
    Databases Data_Clients Telemetry Http_Middleware Token_Crypto App_Shell Http_Server Grpc_Server Middleware_Init Request_Path
    Leader_Run Lifecycle Ws_Hub Example_Main Protected_Route
begin

text \<open>
  \<^bold>\<open>Verification of the Go service framework stardust.mini.\<close>

  \<^bold>\<open>The program.\<close> The framework is a set of packages that a service puts together: \<open>conf\<close> reads the configuration, \<open>logs\<close>,
  \<open>metric\<close>, \<open>tracing\<close> and \<open>i18n\<close> are set up from it, \<open>databases\<close>, \<open>redis\<close>, \<open>nats\<close>, \<open>mongodb\<close> and \<open>clickhouse\<close> hold one
  lazily created manager each, \<open>http_server\<close> runs the HTTP, WebSocket and gRPC servers, \<open>register\<close> announces them in etcd
  and in the APISIX gateway, and \<open>service\<close> starts and stops everything as one group. The requests of the servers go
  through middleware and interceptors that use \<open>breaker\<close>, \<open>load\<close> and \<open>limit\<close> to refuse work and \<open>jwt\<close> to decide who may
  ask; \<open>errors\<close>, \<open>syncx\<close>, \<open>uuid\<close>, \<open>codec\<close> and \<open>utils\<close> are used throughout.

  \<^bold>\<open>The theories.\<close> Names below \<open>src/\<close>; a definition has the name of the function it models, with the type in front where
  two functions share a name (\<open>grpc_Stop\<close>, \<open>http_Stop\<close>, \<open>group_Stop\<close>).

  \<^item> \<open>Go_Prelude\<close>: Go's integers, durations, slices, strings and panics; the shared lemmas and the collections.
    \<open>Once_Init\<close>: the locales \<open>once_init\<close> and \<open>once_quiet\<close> of an accessor under \<open>sync.Once\<close>. \<open>Rolling\<close>: the locales
    \<open>slot_window\<close> and \<open>counting_window\<close> of a ring of buckets that the clock advances.
  \<^item> \<open>Breaker\<close> (\<open>breaker/googlebreaker.go\<close>): \<open>rollingWindow\<close> as the record of its slice, offset and last time; \<open>Allow\<close>,
    \<open>Accept\<close>, \<open>Reject\<close> and \<open>DoWithAcceptable\<close> on it. The window refines a shift register of time slots, no run panics,
    the decision is the formula of the package, and a silence of one window closes the breaker.
  \<^item> \<open>Shedder\<close> (\<open>load/shedder.go\<close>): the rolling counters, the CPU probe, \<open>Allow\<close>, \<open>Pass\<close> and \<open>Fail\<close>. The decision, and
    that \<open>flying\<close> counts the open promises.
  \<^item> \<open>Limiters\<close> (\<open>limit\<close>): both limiters, locally and through their Lua scripts. Quota and token bounds, agreement of the
    two implementations.
  \<^item> \<open>Uuid_Worker\<close> (\<open>uuid\<close>): identifiers on 64-bit words; they increase, and unpacking reads back what was packed.
  \<^item> \<open>Shared_Calls\<close> (\<open>syncx/sharedcalls.go\<close>): goroutines as a step relation; one executor per key, shared results.
  \<^item> \<open>Go_Errors\<close> (\<open>errors\<close>): error chains, stack printing, and the two try/catch helpers over bodies that may panic. The builder
    methods are one definition per handler type; the expressions that compile are exactly the well-formed try statements.
  \<^item> \<open>Ws_Manager\<close> (\<open>http_server/ws_client.go\<close>, \<open>ws_client_manager.go\<close>): clients in a heap, the manager's loop as a step
    relation; no client is forgotten with its connection open, and \<open>Stop\<close> is final. \<open>Ws_Session\<close>: the reading and the writing
    goroutine of one client (\<open>Listen\<close>) as steps. \<open>Ws_Hub\<close>: the manager and the sessions of all its clients in one system of
    events; seen from one client it is a session, so that messages are delivered in order through the manager, and the goroutines
    of a client that the manager has closed end.
  \<^item> \<open>Gateway\<close> and \<open>Registry\<close> (\<open>register\<close>): the admin server of APISIX and the etcd client are parameters; registration,
    discovery and deregistration. \<open>Leader_Run\<close> (\<open>register/apisix_leader.go\<close>): the run of an election as a list of events; what
    the leader flag is at its end, that a run touches only its service, and that a tick of the leader repairs it.
  \<^item> \<open>Databases\<close> (\<open>databases\<close>): the statements the DAO builds, entities, sessions and decorators. The locale \<open>tx_session\<close>
    states what a session offers, and atomicity is proved in it and interpreted for the ORM session.
  \<^item> \<open>Nats_Client\<close> (\<open>nats\<close>): streams, consumers, subscriptions and the manager; a subscription that starts is complete.
  \<^item> \<open>Redis_View\<close> and \<open>Redis_Notify\<close> (\<open>redis\<close>): every command of a view with its keys; delayed notifications with their
    retries; the manager.
  \<^item> \<open>Data_Clients\<close> (\<open>mongodb\<close>, \<open>clickhouse\<close>): the clients and their two managers, which share the locale
    \<open>client_manager\<close>; the reflective scan of rows into structs.
  \<^item> \<open>Telemetry\<close> (\<open>logs\<close>, \<open>metric\<close>, \<open>tracing\<close>, \<open>codec\<close>): the life cycle of the logger and its level, vectors, spans (a trace goes
    on across processes), coders. \<open>Middleware_Init\<close> (\<open>middleware/common.go\<close>, \<open>metrics.go\<close>): what the middleware fetches lazily.
  \<^item> \<open>Http_Middleware\<close> (\<open>http_server/middleware\<close>, \<open>http_server/interceptor\<close>, parts of \<open>utils\<close>): a handler takes what follows
    it as an argument. Access control, one breaker per path, what each middleware does to headers, metrics and spans.
  \<^item> \<open>Token_Crypto\<close> (\<open>jwt\<close>, \<open>utils/security.go\<close>): base64 written out, encryption round trips, issued tokens against the
    access middleware of \<open>Http_Middleware\<close>.
  \<^item> \<open>App_Shell\<close> (\<open>conf\<close>, \<open>service\<close>), \<open>Http_Server\<close> (\<open>http_server\<close> without gRPC, and \<open>i18n\<close>) and \<open>Grpc_Server\<close> (the gRPC server,
    its interceptor chain, the resolver and \<open>MultiServer\<close>): life cycles, routes, registration and resolution.
  \<^item> \<open>Request_Path\<close>: the handler chain of a route of \<open>Http_Server\<close> run on a request, with the middleware of
    \<open>Http_Middleware\<close>, the tokens of \<open>Token_Crypto\<close>, the configuration and the Redis view bound to their models; every route
    is guarded, and an issued token decides. \<open>Protected_Route\<close>: metrics, trace, breaker, rate limit, deadline and shedding around a
    handler; who answers, and what each of them has counted afterwards.
  \<^item> \<open>Lifecycle\<close> (\<open>utils/signal.go\<close>, \<open>ServiceGroup.Start\<close>): signal channels with their one place, and the goroutines of a
    service group with concurrent calls of \<open>Stop\<close> as a step relation, which refines the sequential \<open>group_Stop\<close> of
    \<open>App_Shell\<close>. \<open>Example_Main\<close> (\<open>example/main.go\<close>): the program put together from the packages, and its end.
  \<^item> This theory: what spans components. A service group of both servers, shut down, leaves etcd as it was; every
    singleton is decided by its first call.

  \<^bold>\<open>Interfaces.\<close> The locale \<open>once_init\<close> (\<open>once_quiet\<close> where only the deciding call can panic) is interpreted for \<open>conf_Init\<close>,
  \<open>logs_Init\<close>, \<open>i18n_Init\<close>, \<open>etcd_attempt\<close>, \<open>nats_attempt\<close>, \<open>GetRedisManager\<close>, \<open>GetDatabaseManager\<close>, \<open>group_Stop\<close>, \<open>initLogger\<close>
  and \<open>initMetrics\<close> of the middleware, \<open>jwt_logger\<close> and, through \<open>client_manager\<close>, for the managers of MongoDB and ClickHouse; \<open>counting_window\<close> for the breaker's window (twice,
  for its two counts) and for the shedder's counter; \<open>tx_session\<close> for the ORM session; \<open>projection\<close>, a system seen from one of its
  parts, for a client's session in the hub.

  \<^bold>\<open>Conventions.\<close> A panic is \<open>None\<close> or \<open>Panicked\<close>, an error is \<open>Inl\<close> or an optional text. Readings of the clock, random
  numbers and the answers of the environment are arguments. Libraries outside the repository (gorm, go-redis, nats.go,
  the etcd client, gin, viper, zap, Prometheus, OpenTelemetry, the cryptographic primitives) are records of functions on
  an abstract state; what a property needs of them is a named predicate (\<open>etcd_laws\<close>, \<open>kv_laws\<close>, \<open>jetstream_laws\<close>,
  \<open>crypto_laws\<close>, \<open>jwt_laws\<close>) that a concrete instance in the same theory satisfies. Loops are structural or have their
  measure; no definition has fuel except the rounds of a background loop, which are a list of what the environment does
  in each, so that a property speaks about any number of them.

  \<^bold>\<open>Not modelled.\<close> The rounding of floating-point numbers (\<open>float64\<close> is exact). Time spent waiting: a sleep is a reading of
  the clock. Data races inside a critical section: a step of the step relations (\<open>Shared_Calls\<close>, \<open>Ws_Manager\<close>, \<open>Ws_Session\<close>,
  \<open>Ws_Hub\<close>, \<open>Lifecycle\<close>) is one. The elector of client-go, the handler of \<open>/metrics\<close> and the flatbuffer builder, which are
  libraries that the sources only call; what they answer is an argument where other parts use it. The Go interfaces, whose
  methods are the definitions of the types that implement them.
\<close>

section \<open>Servers in a service group\<close>

text \<open>The HTTP and the gRPC server as services of a group, on the state of both and of etcd. \<open>shutdown\<close> of the HTTP server leaves etcd alone.\<close>

definition http_service :: "(('h, 'm) HttpServer \<times> GrpcServer \<times> 'e) Service" where
  "http_service = server_starter True
     (\<lambda>(h, g, e). let (err, h) = http_Startup h in (err, (h, g, e)))
     (\<lambda>(h, g, e). let (h, e) = http_Stop (\<lambda>e. e) (h, e) in (Returned (), (h, g, e)))"

definition grpc_service ::
  "log_state \<Rightarrow> (string \<Rightarrow> string + string) \<Rightarrow> (EtcdConfig \<Rightarrow> EtcdConfig option) \<Rightarrow> (string list \<Rightarrow> duration \<Rightarrow> string option) \<Rightarrow>
     'e etcd_client \<Rightarrow> (ServiceInfo \<Rightarrow> string + string) \<Rightarrow> string \<Rightarrow> (('h, 'm) HttpServer \<times> GrpcServer \<times> 'e) Service" where
  "grpc_service ls listen reparse dial cl marshal sid =
     \<lparr>svc_Start = (\<lambda>(h, g, e). let (r, g, e) = grpc_Start ls listen reparse dial cl marshal sid g e in (r, (h, g, e))),
      svc_Stop = (\<lambda>(h, g, e). let (g, e) = grpc_Stop cl g e in (Returned (), (h, g, e)))\<rparr>"

lemma group_of_servers_stop:
  "snd (snd (call_times group_Stop (Suc n) (fold group_Add [http_service, grpc_service ls listen reparse dial cl marshal sid] NewServiceGroup, (h, g, e)))) =
     (let (g, e) = grpc_Stop cl g e; (h, e) = http_Stop (\<lambda>e. e) (h, e) in (h, g, e))"
proof -
  have "snd (snd (group_Stop (fold group_Add [http_service, grpc_service ls listen reparse dial cl marshal sid] NewServiceGroup, (h, g, e)))) =
     (let (g, e) = grpc_Stop cl g e; (h, e) = http_Stop (\<lambda>e. e) (h, e) in (h, g, e))"
    unfolding group_Stop_fresh by (simp add: http_service_def grpc_service_def server_starter_def split_beta)
  then show ?thesis by (simp only: group_once.first_call_decides)
qed

lemma http_Stop_keeps: "snd (http_Stop (\<lambda>e. e) (h, e)) = e"
  by (simp add: http_Stop_def Let_def)

section \<open>Properties\<close>


text \<open>C33: a service group with the HTTP and a started gRPC server, stopped any number of times, stops both, cancels the context of the
  HTTP server, and takes the entry of the gRPC server out of etcd, leaving every other key as it was before the start.\<close>

theorem group_shutdown_deregisters:
  assumes "etcd_laws cl kv" "etcd_up cl kv" "marshal (grpc_service_info sid c host port) = Inr t"
    and "gs_Etcd (gs_conf s) = Some c" "reparse c = Some c" "\<forall>eps d. dial eps d = None"
    and "listen (gs_ListenOn (gs_conf s)) = Inr addr" "parseAddr addr = (host, port)"
    and "ls_logger ls = Some lg" "grpc_Startup ls listen reparse dial cl marshal sid s e = (r, g, e1)" "\<not> gs_stopped s" "\<not> hs_stopOnce h"
    and "snd (snd (call_times group_Stop (Suc n) (fold group_Add [http_service, grpc_service ls listen reparse dial cl marshal sid] NewServiceGroup, (h, g, e1)))) = (h', g', e')"
  shows "r = Returned None \<and> gs_serving g \<and> hs_stopOnce h' \<and> hs_cancelled h' \<and> gs_stopped g' \<and> \<not> gs_serving g' \<and>
         kv e' = (kv e)(''/services/'' @ ec_ServiceName c @ ''/'' @ ec_ServiceName c @ ''-'' @ sid := None)"
proof -
  obtain reg where g: "r = Returned None" "gs_serving g"
      "gs_registry g = Some (\<lparr>sr_info = Some (grpc_service_info sid c host port), sr_cancelled = False\<rparr>, reg)"
      "er_registry reg = None" "er_leaseID reg \<noteq> 0"
    and kv: "kv e1 = (kv e)(''/services/'' @ ec_ServiceName c @ ''/'' @ ec_ServiceName c @ ''-'' @ sid \<mapsto> (t, er_leaseID reg))"
      "\<forall>k v. kv e k \<noteq> Some (v, er_leaseID reg)"
    using grpc_Startup_registers[where listen = listen and reparse = reparse and dial = dial and marshal = marshal,
        OF assms(1-9), of e] assms(10,11) by fastforce
  have st: "h' = fst (http_Stop (\<lambda>e. e) (h, snd (grpc_Stop cl g e1)))" "g' = fst (grpc_Stop cl g e1)" "e' = snd (grpc_Stop cl g e1)"
    using assms(13) unfolding group_of_servers_stop by (auto simp: split_beta http_Stop_keeps)
  have "gs_stopped g' \<and> \<not> gs_serving g'" unfolding st by (simp add: grpc_Stop_def split_beta)
  moreover have "kv e' = (kv e)(''/services/'' @ ec_ServiceName c @ ''/'' @ ec_ServiceName c @ ''-'' @ sid := None)"
    unfolding st grpc_Stop_deregisters[OF assms(1,2) g(3-5)] kv(1) using kv(2) by (fastforce split: option.splits)
  ultimately show ?thesis using g(1,2) assms(12) st(1) by (simp add: fst_http_Stop)
qed

theorem group_shutdown_deregisters_witness:
  "\<exists>g e1 h' g' e'. grpc_Startup ready_logs Inr Some (\<lambda>_ _. None) mem_client (\<lambda>_. Inr ''x'') ''7'' sample_grpc [] = (Returned None, g, e1) \<and>
     snd (snd (call_times group_Stop 2 (fold group_Add [http_service, grpc_service ready_logs Inr Some (\<lambda>_ _. None) mem_client (\<lambda>_. Inr ''x'') ''7''] NewServiceGroup,
       (sample_server, g, e1)))) = (h', g', e') \<and>
     hs_cancelled h' \<and> gs_stopped g' \<and> map_of e' ''/services/user/user-7'' = None"
proof -
  obtain r g e1 where up: "grpc_Startup ready_logs Inr Some (\<lambda>_ _. None) mem_client (\<lambda>_. Inr ''x'') ''7'' sample_grpc [] = (r, g, e1)"
    by (metis prod_cases3)
  obtain h' g' e' where down: "snd (snd (call_times group_Stop (Suc 1) (fold group_Add [http_service, grpc_service ready_logs Inr Some (\<lambda>_ _. None) mem_client (\<lambda>_. Inr ''x'') ''7'']
      NewServiceGroup, (sample_server, g, e1)))) = (h', g', e')" by (metis prod_cases3)
  obtain host port where a: "parseAddr (gs_ListenOn (gs_conf sample_grpc)) = (host, port)" by (metis prod.collapse)
  have c: "gs_Etcd (gs_conf sample_grpc) = Some sample_etcd" "\<not> hs_stopOnce sample_server" "\<not> gs_stopped sample_grpc"
    "ls_logger ready_logs = Some \<lparr>zl_level = 0, zl_file = ''''\<rparr>"
    by (simp_all add: sample_grpc_def sample_server_def ready_logs_def)
  have "r = Returned None \<and> gs_serving g \<and> hs_stopOnce h' \<and> hs_cancelled h' \<and> gs_stopped g' \<and> \<not> gs_serving g' \<and>
      map_of e' = (map_of [])(''/services/'' @ ec_ServiceName sample_etcd @ ''/'' @ ec_ServiceName sample_etcd @ ''-'' @ ''7'' := None)"
    by (rule group_shutdown_deregisters[where reparse = Some and listen = Inr and marshal = "\<lambda>_. Inr ''x''" and dial = "\<lambda>_ _. None",
          OF mem_client_laws mem_client_up HOL.refl c(1) HOL.refl _ HOL.refl a c(4) up c(3) c(2) down]) simp
  with up down show ?thesis by (auto simp: sample_etcd_def numeral_2_eq_2)
qed

end
